(* ===== verification/Prelude.thy ===== *)
theory Prelude
  imports Main "HOL-Library.Sublist" "HOL-Library.Char_ord" "HOL-Library.List_Lexorder"
    "HOL-Library.AList"
begin

text \<open>
  The shared ground of the development: the named collections of rewrite rules, byte
  strings and the string operations of JavaScript and Go that the program calls, decimal
  printing and parsing, and 64-bit integers.

  A string is the list of the bytes of its UTF-8 encoding. Go strings are such byte lists;
  a JavaScript string is represented by its encoding, which is faithful for the operations
  modelled here, because each of them looks only for ASCII characters or for whole encoded
  characters. Literals outside ASCII are written out byte by byte.
\<close>

named_theorems page_simps \<open>how the operations on the page act on its fields\<close>
named_theorems handler_defs \<open>definitions of event handlers, for unfolding a whole handler\<close>

section \<open>Separators: split and join\<close>

text \<open>
  \<open>s.split(sep)\<close> of JavaScript and \<open>strings.Split(s, sep)\<close> of Go for a separator that is
  not empty: cut at the leftmost occurrences, left to right, without overlap.
\<close>

fun split_str :: "string \<Rightarrow> string \<Rightarrow> string list" where
  "split_str sep [] = [[]]"
| "split_str sep (x # xs) =
     (if sep \<noteq> [] \<and> take (length sep) (x # xs) = sep
      then [] # split_str sep (drop (length sep - 1) xs)
      else (case split_str sep xs of [] \<Rightarrow> [[x]] | y # ys \<Rightarrow> (x # y) # ys))"

text \<open>\<open>xs.join(sep)\<close> of JavaScript and \<open>strings.Join(xs, sep)\<close> of Go.\<close>

fun join_str :: "string \<Rightarrow> string list \<Rightarrow> string" where
  "join_str sep [] = []"
| "join_str sep [x] = x"
| "join_str sep (x # y # ys) = x @ sep @ join_str sep (y # ys)"

lemma split_str_not_Nil [simp]: "split_str sep s \<noteq> []"
  by (cases s) (auto split: list.splits)

lemma join_str_Cons: "xs \<noteq> [] \<Longrightarrow> join_str sep (x # xs) = x @ sep @ join_str sep xs"
  by (cases xs) auto

lemma join_str_append_head: "join_str sep ((x # y) # ys) = x # join_str sep (y # ys)"
  by (cases ys) auto

lemma set_join_str_subset: "set (join_str sep xs) \<subseteq> set sep \<union> (\<Union>x \<in> set xs. set x)"
  by (induction sep xs rule: join_str.induct) auto

lemma set_join_str: "(\<Union>x \<in> set xs. set x) \<subseteq> set (join_str sep xs)"
  by (induction sep xs rule: join_str.induct) auto

lemma join_split_str: "sep \<noteq> [] \<Longrightarrow> join_str sep (split_str sep s) = s"
proof (induction sep s rule: split_str.induct)
  case (1 sep)
  then show ?case by simp
next
  case (2 sep x xs)
  show ?case
  proof (cases "take (length sep) (x # xs) = sep")
    case True
    let ?rest = "drop (length sep - 1) xs"
    have "join_str sep (split_str sep (x # xs)) = sep @ ?rest"
      using 2 True by (simp add: join_str_Cons)
    also have "\<dots> = take (length sep) (x # xs) @ drop (length sep) (x # xs)"
      using True 2(3) by (cases sep) auto
    finally show ?thesis by simp
  next
    case False
    obtain y ys where "split_str sep xs = y # ys"
      by (cases "split_str sep xs") auto
    then show ?thesis
      using 2 False by (simp add: join_str_append_head)
  qed
qed

lemma split_str_no_sep:
  assumes "b \<notin> set x"
  shows "split_str (pre @ [b]) x = [x]"
  using assms
proof (induction x)
  case (Cons a x)
  have "take (length (pre @ [b])) (a # x) \<noteq> pre @ [b]"
    using Cons.prems by (metis in_set_conv_decomp in_set_takeD)
  then show ?case using Cons by simp
qed simp

lemma split_str_first:
  assumes "b \<notin> set x" and "b \<notin> set pre"
  shows "split_str (pre @ [b]) (x @ (pre @ [b]) @ rest) = x # split_str (pre @ [b]) rest"
  using assms(1)
proof (induction x)
  case Nil
  show ?case by (cases pre) auto
next
  case (Cons a x)
  let ?sep = "pre @ [b]" and ?s = "a # x @ pre @ [b] @ rest"
  have "take (length ?sep) ?s = take (length ?sep) (a # x @ pre)"
    by simp
  then have "b \<notin> set (take (length ?sep) ?s)"
    using Cons.prems assms(2) by (metis Cons_eq_appendI Un_iff in_set_takeD set_append)
  then have "take (length ?sep) ?s \<noteq> ?sep"
    by (metis in_set_conv_decomp)
  then show ?case using Cons by simp
qed

lemma split_join_str:
  assumes "\<forall>x \<in> set xs. b \<notin> set x" and "b \<notin> set pre" and "xs \<noteq> []"
  shows "split_str (pre @ [b]) (join_str (pre @ [b]) xs) = xs"
  using assms
proof (induction "pre @ [b]" xs rule: join_str.induct)
  case (2 x)
  then show ?case by (simp add: split_str_no_sep)
next
  case (3 x y ys)
  then show ?case
    using split_str_first [of b x pre "join_str (pre @ [b]) (y # ys)"] by simp
qed simp

lemma split_char_no_sep: "c \<notin> set x \<Longrightarrow> split_str [c] x = [x]"
  using split_str_no_sep [of c x "[]"] by simp

lemma split_char_join:
  "\<forall>x \<in> set xs. c \<notin> set x \<Longrightarrow> xs \<noteq> [] \<Longrightarrow> split_str [c] (join_str [c] xs) = xs"
  using split_join_str [of xs c "[]"] by simp

lemma split_char_pieces: "x \<in> set (split_str [c] s) \<Longrightarrow> c \<notin> set x"
proof (induction "[c]" s arbitrary: x rule: split_str.induct)
  case (2 a s)
  show ?case
  proof (cases "a = c")
    case True
    then show ?thesis using 2 by auto
  next
    case False
    then show ?thesis using 2 by (auto split: list.splits)
  qed
qed simp

lemma length_split_char: "length (split_str [c] s) = Suc (count_list s c)"
proof (induction "[c]" s rule: split_str.induct)
  case (2 a s)
  then show ?case by (auto split: list.splits)
qed simp

section \<open>White space\<close>

text \<open>
  White space is a set of encoded characters. Both languages share the ASCII spaces, the
  space separators of Unicode and its line and paragraph separators; Go adds U+0085
  (\<open>unicode.IsSpace\<close>), JavaScript adds U+FEFF (\<open>trim\<close> and \<open>\s\<close>).
\<close>

definition ascii_spaces :: "string list" where
  "ascii_spaces = map (\<lambda>n. [char_of (n::nat)]) [9, 10, 11, 12, 13, 32]"

definition unicode_spaces :: "string list" where
  "unicode_spaces =
     [[CHR 0xC2, CHR 0xA0], [CHR 0xE1, CHR 0x9A, CHR 0x80]]
     @ map (\<lambda>n. [CHR 0xE2, CHR 0x80, char_of (n::nat)])
         [0x80, 0x81, 0x82, 0x83, 0x84, 0x85, 0x86, 0x87, 0x88, 0x89, 0x8A, 0xA8, 0xA9, 0xAF]
     @ [[CHR 0xE2, CHR 0x81, CHR 0x9F], [CHR 0xE3, CHR 0x80, CHR 0x80]]"

definition go_spaces :: "string list" where
  "go_spaces = ascii_spaces @ unicode_spaces @ [[CHR 0xC2, CHR 0x85]]"

definition js_spaces :: "string list" where
  "js_spaces = ascii_spaces @ unicode_spaces @ [[CHR 0xEF, CHR 0xBB, CHR 0xBF]]"

definition leading :: "string list \<Rightarrow> string \<Rightarrow> string option" where
  "leading toks s = find (\<lambda>t. t \<noteq> [] \<and> take (length t) s = t) toks"

lemma leading_length [simp]:
  "leading toks s = Some t \<Longrightarrow> 0 < length t \<and> length t \<le> length s"
proof -
  assume "leading toks s = Some t"
  then have t: "t \<noteq> []" "take (length t) s = t"
    by (auto simp: leading_def find_Some_iff)
  have "length (take (length t) s) = length t" using t(2) by simp
  then show ?thesis using t(1) by simp
qed

lemma leading_shorter [simp]:
  "leading toks s = Some t \<Longrightarrow> length s - length t < length s"
  using leading_length [of toks s t] by linarith

function drop_leading :: "string list \<Rightarrow> string \<Rightarrow> string" where
  "drop_leading toks s =
     (case leading toks s of None \<Rightarrow> s | Some t \<Rightarrow> drop_leading toks (drop (length t) s))"
  by pat_completeness auto
termination
  by (relation "measure (\<lambda>(toks, s). length s)") auto

declare drop_leading.simps [simp del]

definition trim_tokens :: "string list \<Rightarrow> string \<Rightarrow> string" where
  "trim_tokens toks s = rev (drop_leading (map rev toks) (rev (drop_leading toks s)))"

definition trim_space :: "string \<Rightarrow> string" where
  \<comment> \<open>\<open>strings.TrimSpace\<close>\<close>
  "trim_space = trim_tokens go_spaces"

definition js_trim :: "string \<Rightarrow> string" where
  \<comment> \<open>\<open>String.prototype.trim\<close>\<close>
  "js_trim = trim_tokens js_spaces"

lemma drop_leading_none: "leading toks s = None \<Longrightarrow> drop_leading toks s = s"
  by (subst drop_leading.simps) simp

lemma leading_drop_leading: "leading toks (drop_leading toks s) = None"
proof (induction toks s rule: drop_leading.induct)
  case (1 toks s)
  then show ?case
    by (cases "leading toks s") (subst drop_leading.simps, simp)+
qed

lemma drop_leading_suffix: "\<exists>k. drop_leading toks s = drop k s"
proof (induction toks s rule: drop_leading.induct)
  case (1 toks s)
  show ?case
  proof (cases "leading toks s")
    case None
    then show ?thesis by (metis drop_leading_none drop0)
  next
    case (Some t)
    with 1 obtain k where "drop_leading toks (drop (length t) s) = drop k (drop (length t) s)"
      by blast
    with Some have "drop_leading toks s = drop (k + length t) s"
      by (subst drop_leading.simps) (simp add: drop_drop)
    then show ?thesis by blast
  qed
qed

lemma set_drop_leading: "set (drop_leading toks s) \<subseteq> set s"
  using drop_leading_suffix [of toks s] by (metis set_drop_subset)

lemma set_trim_tokens: "set (trim_tokens toks s) \<subseteq> set s"
  unfolding trim_tokens_def
  using set_drop_leading [of "map rev toks" "rev (drop_leading toks s)"]
    set_drop_leading [of toks s] by auto

lemma length_trim_tokens: "length (trim_tokens toks s) \<le> length s"
proof -
  obtain j k where "trim_tokens toks s = rev (drop k (rev (drop j s)))"
    unfolding trim_tokens_def using drop_leading_suffix by metis
  then show ?thesis by simp
qed

lemma trim_tokens_id:
  "leading toks s = None \<Longrightarrow> leading (map rev toks) (rev s) = None \<Longrightarrow> trim_tokens toks s = s"
  by (simp add: trim_tokens_def drop_leading_none)

text \<open>\<open>s.replace(/\s+/g, ' ')\<close>: every maximal run of white space becomes one space.\<close>

function collapse_spaces :: "string list \<Rightarrow> bool \<Rightarrow> string \<Rightarrow> string" where
  "collapse_spaces toks in_run s =
     (case leading toks s of
        Some t \<Rightarrow>
          (if in_run then [] else '' '') @ collapse_spaces toks True (drop (length t) s)
      | None \<Rightarrow>
          (case s of [] \<Rightarrow> [] | c # cs \<Rightarrow> c # collapse_spaces toks False cs))"
  by pat_completeness auto
termination
  by (relation "measure (\<lambda>(toks, in_run, s). length s)") auto

declare collapse_spaces.simps [simp del]

section \<open>Decimal numbers\<close>

definition digit_char :: "nat \<Rightarrow> char" where
  "digit_char d = char_of (48 + d)"

definition is_digit :: "char \<Rightarrow> bool" where
  "is_digit c \<longleftrightarrow> 48 \<le> (of_char c :: nat) \<and> (of_char c :: nat) \<le> 57"

definition digit_val :: "char \<Rightarrow> nat" where
  "digit_val c = of_char c - 48"

fun dec :: "nat \<Rightarrow> string" where
  "dec n = (if n < 10 then [digit_char n] else dec (n div 10) @ [digit_char (n mod 10)])"

declare dec.simps [simp del]

definition dec_val :: "string \<Rightarrow> nat" where
  "dec_val s = foldl (\<lambda>acc c. acc * 10 + digit_val c) 0 s"

definition dec_int :: "int \<Rightarrow> string" where
  "dec_int i = (if i < 0 then CHR ''-'' # dec (nat (- i)) else dec (nat i))"

lemma digit_char_props [simp]:
  "d < 10 \<Longrightarrow> is_digit (digit_char d)"
  "d < 10 \<Longrightarrow> digit_val (digit_char d) = d"
  by (simp_all add: is_digit_def digit_val_def digit_char_def)

lemma is_digit_char: "is_digit c \<Longrightarrow> digit_char (digit_val c) = c \<and> digit_val c < 10"
  by (auto simp: is_digit_def digit_char_def digit_val_def)

lemma digit_char_numerals [simp]:
  "digit_char 0 = CHR ''0''" "digit_char 1 = CHR ''1''" "digit_char (Suc 0) = CHR ''1''"
  "digit_char 2 = CHR ''2''" "digit_char 3 = CHR ''3''" "digit_char 4 = CHR ''4''"
  "digit_char 5 = CHR ''5''" "digit_char 6 = CHR ''6''" "digit_char 7 = CHR ''7''"
  "digit_char 8 = CHR ''8''" "digit_char 9 = CHR ''9''"
  by (unfold digit_char_def, code_simp+)

lemma dec_val_snoc: "dec_val (s @ [c]) = dec_val s * 10 + digit_val c"
  by (simp add: dec_val_def)

lemma dec_val_dec [simp]: "dec_val (dec n) = n"
proof (induction n rule: dec.induct)
  case (1 n)
  then show ?case
    by (subst dec.simps) (auto simp: dec_val_snoc, simp add: dec_val_def)
qed

lemma dec_not_Nil [simp]: "dec n \<noteq> []"
  by (subst dec.simps) simp

lemma dec_digits: "\<forall>c \<in> set (dec n). is_digit c"
proof (induction n rule: dec.induct)
  case (1 n)
  then show ?case by (subst dec.simps) auto
qed

lemma is_digit_not [simp]:
  "\<not> is_digit CHR '':''" "\<not> is_digit CHR ''-''" "\<not> is_digit CHR ''+''"
  "\<not> is_digit CHR '' ''" "\<not> is_digit CHR ''/''" "\<not> is_digit CHR '',''"
  by (simp_all add: is_digit_def)

lemma dec_not_mem: "\<not> is_digit c \<Longrightarrow> c \<notin> set (dec n)"
  using dec_digits by blast

lemma length_dec: "n < 10 ^ k \<Longrightarrow> 0 < k \<Longrightarrow> length (dec n) \<le> k"
proof (induction n arbitrary: k rule: dec.induct)
  case (1 n)
  show ?case
  proof (cases "n < 10")
    case True
    then show ?thesis using 1(3) by (subst dec.simps) simp
  next
    case False
    with 1(2,3) obtain j where k: "k = Suc j" "0 < j"
      by (cases k) (auto, metis gr_zeroI power_0 mult_1_right)
    then have "n div 10 < 10 ^ j"
      using 1(2) by (simp add: less_mult_imp_div_less mult.commute)
    then have "length (dec (n div 10)) \<le> j"
      using 1(1) False k(2) by blast
    then show ?thesis using k by (subst dec.simps) auto
  qed
qed

text \<open>Numerals without a leading zero are the ones that \<open>dec\<close> prints.\<close>

lemma dec_dec_val:
  "s \<noteq> [] \<Longrightarrow> list_all is_digit s \<Longrightarrow> hd s \<noteq> CHR ''0'' \<Longrightarrow> dec (dec_val s) = s \<and> 0 < dec_val s"
proof (induction s rule: rev_induct)
  case (snoc c t)
  have c: "digit_char (digit_val c) = c" "digit_val c < 10"
    using snoc.prems is_digit_char [of c] by simp_all
  have val: "dec_val (t @ [c]) = dec_val t * 10 + digit_val c" by (simp add: dec_val_def)
  show ?case
  proof (cases "t = []")
    case True
    have "digit_val c \<noteq> 0"
    proof
      assume "digit_val c = 0"
      then have "c = CHR ''0''" using c(1) by simp
      then show False using snoc.prems(3) True by simp
    qed
    then show ?thesis using True val c by (simp add: dec_val_def dec.simps)
  next
    case False
    then have "dec (dec_val t) = t" "0 < dec_val t" using snoc by simp_all
    then show ?thesis using c unfolding val by (subst dec.simps) simp
  qed
qed simp

lemma hd_dec: "0 < n \<Longrightarrow> hd (dec n) \<noteq> CHR ''0''"
proof (induction n rule: dec.induct)
  case (1 n)
  show ?case
  proof (cases "n < 10")
    case True
    then have "n \<in> {1, 2, 3, 4, 5, 6, 7, 8, 9}" using 1(2) by auto
    then show ?thesis by (subst dec.simps) auto
  next
    case False
    then have "hd (dec (n div 10)) \<noteq> CHR ''0''" using 1 by simp
    then show ?thesis using False by (subst dec.simps) simp
  qed
qed

text \<open>\<open>String(n).padStart(2, '0')\<close>\<close>

definition pad2 :: "string \<Rightarrow> string" where
  "pad2 s = replicate (2 - length s) CHR ''0'' @ s"

lemma foldl_zeros: "foldl (\<lambda>acc c. acc * 10 + digit_val c) 0 (replicate k CHR ''0'') = 0"
  by (induction k) (auto simp: digit_val_def)

lemma dec_val_pad2 [simp]: "dec_val (pad2 s) = dec_val s"
  by (simp add: pad2_def dec_val_def foldl_zeros)

lemma pad2_digits: "\<forall>c \<in> set s. is_digit c \<Longrightarrow> \<forall>c \<in> set (pad2 s). is_digit c"
  by (auto simp: pad2_def is_digit_def)

lemma pad2_not_Nil [simp]: "pad2 s \<noteq> []"
  by (cases s) (auto simp: pad2_def)

section \<open>64-bit integers of Go\<close>

text \<open>
  An \<open>int64\<close> is an integer in range. Where the code adds without a check the sum is
  wrapped by \<open>wrap64\<close>; where it checks first, the check is a branch of the model.
\<close>

definition int64_max :: int where
  "int64_max = 9223372036854775807"

definition wrap64 :: "int \<Rightarrow> int" where
  "wrap64 i = (i + 2 ^ 63) mod 2 ^ 64 - 2 ^ 63"

lemma wrap64_id [simp]: "- (2 ^ 63) \<le> i \<Longrightarrow> i \<le> int64_max \<Longrightarrow> wrap64 i = i"
  by (simp add: wrap64_def int64_max_def)

text \<open>
  \<open>strconv.ParseInt(s, 10, 64)\<close>: an optional sign, at least one digit, digits only, and a
  value that fits; \<open>None\<close> stands for every error.
\<close>

definition parse_int64 :: "string \<Rightarrow> int option" where
  "parse_int64 s =
     (case s of
        [] \<Rightarrow> None
      | c # cs \<Rightarrow>
          let neg = (c = CHR ''-'');
              ds = (if neg \<or> c = CHR ''+'' then cs else s)
          in if ds = [] \<or> \<not> list_all is_digit ds then None
             else let v = int (dec_val ds)
               in if neg then (if v \<le> 2 ^ 63 then Some (- v) else None)
                  else (if v \<le> int64_max then Some v else None))"

lemma parse_int64_digits:
  assumes "s \<noteq> []" and "\<forall>c \<in> set s. is_digit c"
  shows "parse_int64 s = (if int (dec_val s) \<le> int64_max then Some (int (dec_val s)) else None)"
proof (cases s)
  case (Cons c cs)
  then have "is_digit c" using assms(2) by simp
  then have "c \<noteq> CHR ''-''" "c \<noteq> CHR ''+''" by auto
  then show ?thesis using Cons assms by (simp add: parse_int64_def list_all_iff)
qed (use assms in simp)

lemma parse_int64_range:
  "parse_int64 s = Some i \<Longrightarrow> - (2 ^ 63) \<le> i \<and> i \<le> int64_max"
  by (auto simp: parse_int64_def int64_max_def Let_def split: list.splits if_splits)

lemma parse_int64_dec:
  "int n \<le> int64_max \<Longrightarrow> parse_int64 (dec n) = Some (int n)"
  using parse_int64_digits [OF dec_not_Nil dec_digits] by simp

lemma parse_int64_pad2:
  "int n \<le> int64_max \<Longrightarrow> parse_int64 (pad2 (dec n)) = Some (int n)"
  using parse_int64_digits [OF pad2_not_Nil pad2_digits [OF dec_digits]] by simp

section \<open>Results that may be errors\<close>

definition sum_bind :: "'e + 'a \<Rightarrow> ('a \<Rightarrow> 'e + 'b) \<Rightarrow> 'e + 'b" where
  "sum_bind r f = (case r of Inl e \<Rightarrow> Inl e | Inr x \<Rightarrow> f x)"

lemma sum_bind_simps [simp]:
  "sum_bind (Inl e) f = Inl e" "sum_bind (Inr x) f = f x"
  by (simp_all add: sum_bind_def)

lemma sum_bind_Inr: "sum_bind r f = Inr y \<longleftrightarrow> (\<exists>x. r = Inr x \<and> f x = Inr y)"
  by (cases r) simp_all

fun map_sum_list :: "('a \<Rightarrow> 'e + 'b) \<Rightarrow> 'a list \<Rightarrow> 'e + 'b list" where
  "map_sum_list f [] = Inr []"
| "map_sum_list f (x # xs) =
     sum_bind (f x) (\<lambda>y. sum_bind (map_sum_list f xs) (\<lambda>ys. Inr (y # ys)))"

lemma map_sum_list_length: "map_sum_list f xs = Inr ys \<Longrightarrow> length ys = length xs"
  by (induction xs arbitrary: ys) (auto simp: sum_bind_Inr)

lemma map_sum_list_set:
  "map_sum_list f xs = Inr ys \<Longrightarrow> y \<in> set ys \<Longrightarrow> \<exists>x \<in> set xs. f x = Inr y"
  by (induction xs arbitrary: ys) (auto simp: sum_bind_Inr)

section \<open>Association lists\<close>

lemma delete_filter: "AList.delete k xs = filter (\<lambda>e. fst e \<noteq> k) xs"
  unfolding AList.delete_eq by (rule filter_cong) auto

lemma length_update: "length (AList.update k v xs) \<le> Suc (length xs)"
  by (induction xs) auto

lemma keys_update: "k \<in> fst ` set xs \<Longrightarrow> map fst (AList.update k v xs) = map fst xs"
  by (induction xs) auto

lemma update_new: "k \<notin> fst ` set xs \<Longrightarrow> AList.update k v xs = xs @ [(k, v)]"
  by (induction xs) auto

lemma map_of_filter_keys:
  "distinct (map fst xs) \<Longrightarrow> map_of (filter Q xs) k = Some m \<Longrightarrow> map_of xs k = Some m"
proof -
  assume d: "distinct (map fst xs)" and "map_of (filter Q xs) k = Some m"
  then have "(k, m) \<in> set xs" using map_of_SomeD [of "filter Q xs" k m] by simp
  then show ?thesis using d by simp
qed

lemma set_update_subset: "set (AList.update k v xs) \<subseteq> insert (k, v) (set xs)"
  by (induction xs) auto

end
