(* ===== verification/Uri.thy ===== *)
theory Uri
  imports Prelude
begin

text \<open>
  Request paths. The page builds the paths of its three request kinds (the output of a job,
  its resource usage, the socket of a terminal session) from attribute values by
  \<open>encodeURIComponent\<close>; the server takes the parameters back with \<open>url.PathUnescape\<close>.
  The lemmas show that an encoded value adds no separator to the path and comes back
  unchanged.
\<close>

section \<open>encodeURIComponent\<close>

definition is_unreserved :: "char \<Rightarrow> bool" where
  "is_unreserved c \<longleftrightarrow>
     (let n = (of_char c :: nat) in
        (65 \<le> n \<and> n \<le> 90) \<or> (97 \<le> n \<and> n \<le> 122) \<or> (48 \<le> n \<and> n \<le> 57)
      \<or> c \<in> set ''-_.!~*()'' \<or> n = 39)"

definition hex_digit :: "nat \<Rightarrow> char" where
  "hex_digit d = (if d < 10 then char_of (48 + d) else char_of (55 + d))"

definition encode_char :: "char \<Rightarrow> string" where
  "encode_char c =
     (if is_unreserved c then [c]
      else let n = (of_char c :: nat) in [CHR ''%'', hex_digit (n div 16), hex_digit (n mod 16)])"

definition encode_uri_component :: "string \<Rightarrow> string" where
  "encode_uri_component s = concat (map encode_char s)"

section \<open>url.PathUnescape\<close>

definition hex_val :: "char \<Rightarrow> nat option" where
  "hex_val c =
     (let n = (of_char c :: nat) in
        if 48 \<le> n \<and> n \<le> 57 then Some (n - 48)
        else if 65 \<le> n \<and> n \<le> 70 then Some (n - 55)
        else if 97 \<le> n \<and> n \<le> 102 then Some (n - 87)
        else None)"

fun path_unescape :: "string \<Rightarrow> string option" where
  "path_unescape [] = Some []"
| "path_unescape (c # cs) =
     (if c = CHR ''%'' then
        (case cs of
           h # l # rest \<Rightarrow>
             (case (hex_val h, hex_val l) of
                (Some a, Some b) \<Rightarrow>
                  map_option ((#) (char_of (16 * a + b))) (path_unescape rest)
              | _ \<Rightarrow> None)
         | _ \<Rightarrow> None)
      else map_option ((#) c) (path_unescape cs))"

lemma hex_val_hex_digit [simp]: "d < 16 \<Longrightarrow> hex_val (hex_digit d) = Some d"
  by (auto simp: hex_val_def hex_digit_def Let_def)

lemma is_unreserved_not_percent: "is_unreserved c \<Longrightarrow> c \<noteq> CHR ''%''"
  by (auto simp: is_unreserved_def)

lemma of_char_less [simp]: "(of_char c :: nat) < 256"
  using nat_of_char_less_256 by simp

lemma hex_digit_plain: "d < 16 \<Longrightarrow> is_unreserved (hex_digit d)"
  by (auto simp: hex_digit_def is_unreserved_def Let_def)

lemma path_unescape_encode_char:
  "path_unescape (encode_char c @ rest) = map_option ((#) c) (path_unescape rest)"
proof (cases "is_unreserved c")
  case True
  then show ?thesis by (simp add: encode_char_def is_unreserved_not_percent)
next
  case False
  have "(of_char c :: nat) div 16 < 16"
    using of_char_less [of c] by linarith
  then show ?thesis
    using False by (simp add: encode_char_def Let_def)
qed

lemma path_unescape_encode: "path_unescape (encode_uri_component s) = Some s"
  by (induction s) (simp_all add: encode_uri_component_def path_unescape_encode_char)

text \<open>An encoded component holds no path separator, query or fragment mark.\<close>

lemma encode_char_safe: "x \<in> set (encode_char c) \<Longrightarrow> is_unreserved x \<or> x = CHR ''%''"
proof -
  assume "x \<in> set (encode_char c)"
  moreover have "(of_char c :: nat) div 16 < 16"
    using of_char_less [of c] by linarith
  ultimately show ?thesis
    by (auto simp: encode_char_def Let_def hex_digit_plain split: if_splits)
qed

lemma encode_uri_component_safe:
  "x \<in> set (encode_uri_component s) \<Longrightarrow> is_unreserved x \<or> x = CHR ''%''"
  unfolding encode_uri_component_def using encode_char_safe by auto

lemma encode_uri_component_no_sep:
  "c \<notin> set ''-_.!~*()%'' \<Longrightarrow> \<not> is_unreserved c \<Longrightarrow> c \<notin> set (encode_uri_component s)"
  using encode_uri_component_safe by auto

lemma encode_uri_component_no_slash [simp]: "CHR ''/'' \<notin> set (encode_uri_component s)"
  by (rule encode_uri_component_no_sep) (simp_all add: is_unreserved_def)

section \<open>The paths the page requests\<close>

definition output_url :: "string \<Rightarrow> string \<Rightarrow> string" where
  "output_url job stream =
     ''/slurm/jobs/'' @ encode_uri_component job @ ''/output/'' @ encode_uri_component stream"

definition resources_url :: "string \<Rightarrow> string" where
  "resources_url job = ''/slurm/jobs/'' @ encode_uri_component job @ ''/resources''"

definition socket_url :: "string \<Rightarrow> string \<Rightarrow> string \<Rightarrow> string" where
  "socket_url protocol host session_id =
     (if protocol = ''https:'' then ''wss:'' else ''ws:'') @ ''//'' @ host
     @ ''/terminal/sessions/'' @ encode_uri_component session_id @ ''/socket''"

lemma slash_join:
  "''/slurm/jobs/'' @ a @ ''/output/'' @ b
     = join_str ''/'' [[], ''slurm'', ''jobs'', a, ''output'', b]"
  by simp

lemma output_url_segments:
  "split_str ''/'' (output_url job stream)
     = [[], ''slurm'', ''jobs'', encode_uri_component job, ''output'', encode_uri_component stream]"
  unfolding output_url_def slash_join by (rule split_char_join) auto

lemma resources_url_segments:
  "split_str ''/'' (resources_url job)
     = [[], ''slurm'', ''jobs'', encode_uri_component job, ''resources'']"
proof -
  have "resources_url job
      = join_str ''/'' [[], ''slurm'', ''jobs'', encode_uri_component job, ''resources'']"
    by (simp add: resources_url_def)
  then show ?thesis by (simp only:) (rule split_char_join, auto)
qed

section \<open>How the browser and the router read a path\<close>

text \<open>
  The URL parser of the browser drops \<open>.\<close> segments and lets \<open>..\<close> remove the segment
  before it, also where the dots are written \<open>%2e\<close>, before the request is sent.
\<close>

definition single_dot :: "string \<Rightarrow> bool" where
  "single_dot s \<longleftrightarrow> s \<in> {''.'', ''%2e'', ''%2E''}"

definition double_dot :: "string \<Rightarrow> bool" where
  "double_dot s \<longleftrightarrow>
     s \<in> {''..'', ''.%2e'', ''.%2E'', ''%2e.'', ''%2E.'',
          ''%2e%2e'', ''%2e%2E'', ''%2E%2e'', ''%2E%2E''}"

fun resolve_segments :: "string list \<Rightarrow> string list \<Rightarrow> string list" where
  "resolve_segments acc [] = rev acc"
| "resolve_segments acc (s # ss) =
     (if double_dot s then resolve_segments ((if ss = [] then [[]] else []) @ tl acc) ss
      else if single_dot s then resolve_segments ((if ss = [] then [[]] else []) @ acc) ss
      else resolve_segments (s # acc) ss)"

definition requested_segments :: "string \<Rightarrow> string list" where
  "requested_segments path = resolve_segments [] (tl (split_str ''/'' path))"

lemma resolve_segments_plain:
  "\<forall>s \<in> set ss. \<not> single_dot s \<and> \<not> double_dot s \<Longrightarrow> resolve_segments acc ss = rev acc @ ss"
  by (induction ss arbitrary: acc) auto

lemma char_of_dot [simp]: "char_of (46::nat) = CHR ''.''"
  by code_simp

lemma path_unescape_single_dot: "single_dot e \<Longrightarrow> path_unescape e = Some ''.''"
  by (auto simp: single_dot_def hex_val_def Let_def)

lemma path_unescape_double_dot: "double_dot e \<Longrightarrow> path_unescape e = Some ''..''"
  by (auto simp: double_dot_def hex_val_def Let_def)

lemma encoded_not_dots:
  "s \<notin> {''.'', ''..''} \<Longrightarrow>
     \<not> single_dot (encode_uri_component s) \<and> \<not> double_dot (encode_uri_component s)"
  using path_unescape_single_dot path_unescape_double_dot path_unescape_encode
  by (metis insertCI option.inject)

lemmas plain_segments = single_dot_def double_dot_def

text \<open>
  Requests reach their route. For a job and a stream whose names are no dot segments, the
  request for an output arrives at the route \<open>/slurm/jobs/:id/output/:stream\<close> with exactly
  two parameters, and unescaping them gives the job and the stream back, whatever
  characters they hold; a request for the resources of the job likewise.
\<close>

theorem output_request_route:
  assumes "job \<notin> {''.'', ''..''}" and "stream \<notin> {''.'', ''..''}"
  shows "(\<exists>id st. requested_segments (output_url job stream) = [''slurm'', ''jobs'', id, ''output'', st]
            \<and> path_unescape id = Some job \<and> path_unescape st = Some stream)
       \<and> (\<exists>id. requested_segments (resources_url job) = [''slurm'', ''jobs'', id, ''resources'']
            \<and> path_unescape id = Some job)"
proof -
  note plain = encoded_not_dots [OF assms(1)] encoded_not_dots [OF assms(2)]
  have "requested_segments (output_url job stream)
      = [''slurm'', ''jobs'', encode_uri_component job, ''output'', encode_uri_component stream]"
    unfolding requested_segments_def output_url_segments
    by (subst resolve_segments_plain) (use plain in \<open>auto simp: plain_segments\<close>)
  moreover have "requested_segments (resources_url job)
      = [''slurm'', ''jobs'', encode_uri_component job, ''resources'']"
    unfolding requested_segments_def resources_url_segments
    by (subst resolve_segments_plain) (use plain in \<open>auto simp: plain_segments\<close>)
  ultimately show ?thesis using path_unescape_encode by blast
qed

theorem output_request_route_witness:
  "\<exists>id st. requested_segments (output_url ''7/../x'' ''std?out'')
       = [''slurm'', ''jobs'', id, ''output'', st]
     \<and> path_unescape id = Some ''7/../x'' \<and> path_unescape st = Some ''std?out''"
  using output_request_route [of "''7/../x''" "''std?out''"] by auto

end
