(* ===== verification/LazyLog.thy ===== *)
theory LazyLog
  imports Complex_Main Prelude
begin

text \<open>
  The output viewer of the job dialog (\<open>app.js\<close>, lines 134 to 156): line endings are
  normalised, the text is cut into lines, and the lines are put into the element in batches
  of 220, the first at once and one more whenever the user scrolls near the bottom.
\<close>

section \<open>normalizeOutputLineEndings\<close>

abbreviation CR :: char where "CR \<equiv> CHR 0x0D"
abbreviation LF :: char where "LF \<equiv> CHR 0x0A"

text \<open>\<open>content.replace(/\r\n?/g, '\n')\<close>\<close>

fun normalize_line_endings :: "string \<Rightarrow> string" where
  "normalize_line_endings [] = []"
| "normalize_line_endings [c] = [if c = CR then LF else c]"
| "normalize_line_endings (c # d # cs) =
     (if c = CR then LF # normalize_line_endings (if d = LF then cs else d # cs)
      else c # normalize_line_endings (d # cs))"

lemma no_CR_normalized: "CR \<notin> set (normalize_line_endings s)"
  by (induction s rule: normalize_line_endings.induct) auto

lemma normalize_no_CR: "CR \<notin> set s \<Longrightarrow> normalize_line_endings s = s"
  by (induction s rule: normalize_line_endings.induct) auto

section \<open>renderLazyLog\<close>

definition batch_size :: nat where
  "batch_size = 220"

record log_view =
  log_content :: string
  log_status :: "string option"       \<comment> \<open>\<open>None\<close> when the status element is missing\<close>
  log_lines :: "string list"
  log_rendered :: nat
  log_scrolls :: bool                  \<comment> \<open>an \<open>onscroll\<close> handler is installed\<close>

definition status_text :: "nat \<Rightarrow> nat \<Rightarrow> string" where
  "status_text done_lines all_lines =
     (if done_lines < all_lines
      then dec done_lines @ '' / '' @ dec all_lines @ '' lines loaded''
      else dec all_lines @ '' lines loaded'')"

definition render_next_batch :: "'a log_view_scheme \<Rightarrow> 'a log_view_scheme" where
  "render_next_batch v =
     (let nxt = min (log_rendered v + batch_size) (length (log_lines v)) in
        v\<lparr>log_content := join_str [LF] (take nxt (log_lines v)),
          log_rendered := nxt,
          log_status := map_option (\<lambda>_. status_text nxt (length (log_lines v))) (log_status v)\<rparr>)"

definition render_lazy_log :: "string \<Rightarrow> 'a log_view_scheme \<Rightarrow> 'a log_view_scheme" where
  "render_lazy_log content v =
     (render_next_batch
        (v\<lparr>log_lines := split_str [LF] (normalize_line_endings content), log_rendered := 0,
           log_scrolls := False\<rparr>))\<lparr>log_scrolls := True\<rparr>"

text \<open>The scroll geometry is \<open>scrollHeight\<close>, \<open>scrollTop\<close> and \<open>clientHeight\<close>.\<close>

type_synonym geometry = "rat \<times> rat \<times> rat"

fun near_bottom :: "geometry \<Rightarrow> bool" where
  "near_bottom (height, offset, client) \<longleftrightarrow> height - offset - client < 80"

definition on_scroll :: "geometry \<Rightarrow> 'a log_view_scheme \<Rightarrow> 'a log_view_scheme" where
  "on_scroll g v =
     (if \<not> log_scrolls v then v
      else if length (log_lines v) \<le> log_rendered v then v
      else if near_bottom g then render_next_batch v
      else v)"

section \<open>Batches add up to the whole log\<close>

lemma render_next_batch_fields [simp]:
  "log_lines (render_next_batch v) = log_lines v"
  "log_scrolls (render_next_batch v) = log_scrolls v"
  "log_rendered (render_next_batch v) = min (log_rendered v + batch_size) (length (log_lines v))"
  by (simp_all add: render_next_batch_def Let_def)

text \<open>A view that shows the first \<open>n\<close> lines of a log.\<close>

definition shows_prefix :: "nat \<Rightarrow> string list \<Rightarrow> 'a log_view_scheme \<Rightarrow> bool" where
  "shows_prefix n ls v \<longleftrightarrow>
     log_lines v = ls \<and> log_scrolls v \<and> log_rendered v = min n (length ls)
   \<and> log_content v = join_str [LF] (take n ls)
   \<and> (log_status v = None \<or> log_status v = Some (status_text (min n (length ls)) (length ls)))"

lemma shows_prefix_batch:
  "shows_prefix n ls v \<Longrightarrow> shows_prefix (n + batch_size) ls (render_next_batch v)"
  unfolding shows_prefix_def
  by (auto simp: render_next_batch_def Let_def min_def)

lemma shows_prefix_scroll:
  assumes "shows_prefix n ls v"
  shows "shows_prefix (if near_bottom g then n + batch_size else n) ls (on_scroll g v)"
proof (cases "length ls \<le> n")
  case True
  then show ?thesis
    using assms by (auto simp: shows_prefix_def on_scroll_def)
next
  case False
  then show ?thesis
    using assms shows_prefix_batch [OF assms]
    by (auto simp: on_scroll_def shows_prefix_def)
qed

lemma shows_prefix_render:
  "shows_prefix batch_size (split_str [LF] (normalize_line_endings s)) (render_lazy_log s v)"
  by (cases "log_status v")
    (simp_all add: render_lazy_log_def shows_prefix_def render_next_batch_def Let_def min_def)

fun scroll_all :: "geometry list \<Rightarrow> 'a log_view_scheme \<Rightarrow> 'a log_view_scheme" where
  "scroll_all [] v = v"
| "scroll_all (g # gs) v = scroll_all gs (on_scroll g v)"

lemma shows_prefix_scroll_all:
  "shows_prefix n ls v \<Longrightarrow>
     shows_prefix (n + batch_size * length (filter near_bottom gs)) ls (scroll_all gs v)"
proof (induction gs arbitrary: n v)
  case (Cons g gs)
  then have "shows_prefix (if near_bottom g then n + batch_size else n) ls (on_scroll g v)"
    by (blast intro: shows_prefix_scroll)
  from Cons.IH [OF this] show ?case
    by (cases "near_bottom g") (simp_all add: algebra_simps)
qed simp

text \<open>
  Lazy rendering. After the first batch and any sequence of scroll events, \<open>k\<close> of them
  near the bottom, the element holds exactly the first \<open>220 (k + 1)\<close> lines of the
  normalised output, never more and never out of order, and no carriage return.
\<close>

theorem lazy_log_shows_prefix:
  "(let ls = split_str [LF] (normalize_line_endings s);
        v' = scroll_all gs (render_lazy_log s v)
    in log_content v' = join_str [LF] (take (220 * Suc (length (filter near_bottom gs))) ls)
     \<and> log_rendered v' = min (220 * Suc (length (filter near_bottom gs))) (length ls)
     \<and> CR \<notin> set (log_content v'))"
proof -
  let ?ls = "split_str [LF] (normalize_line_endings s)"
  let ?n = "220 * Suc (length (filter near_bottom gs))"
  have "shows_prefix ?n ?ls (scroll_all gs (render_lazy_log s v))"
    using shows_prefix_scroll_all [OF shows_prefix_render [of s v], of gs]
    by (simp add: batch_size_def)
  moreover have "CR \<notin> set (join_str [LF] (take m ?ls))" for m
  proof -
    have "join_str [LF] ?ls = normalize_line_endings s"
      by (simp add: join_split_str)
    then have "\<forall>x \<in> set ?ls. CR \<notin> set x"
      using no_CR_normalized [of s] set_join_str [of ?ls "[LF]"] by auto
    then show ?thesis
      using set_join_str_subset [of "[LF]" "take m ?ls"] in_set_takeD [of _ m ?ls] by fastforce
  qed
  ultimately show ?thesis by (simp add: shows_prefix_def Let_def)
qed

text \<open>
  C33. The whole log is reachable. Once the near-bottom scrolls cover the lines, the element
  holds the complete normalised output, the status counts all lines, and a further scroll
  changes nothing; \<open>length / 220\<close> scrolls always suffice.
\<close>

theorem lazy_log_complete:
  assumes "length (split_str [LF] (normalize_line_endings s))
      \<le> 220 * Suc (length (filter near_bottom gs))"
  shows "(let v' = scroll_all gs (render_lazy_log s v) in
            log_content v' = normalize_line_endings s
          \<and> (log_status v' = None
             \<or> log_status v' = Some (dec (length (split_str [LF] (normalize_line_endings s)))
                  @ '' lines loaded''))
          \<and> on_scroll g v' = v')"
proof -
  let ?ls = "split_str [LF] (normalize_line_endings s)"
  have "shows_prefix (220 * Suc (length (filter near_bottom gs))) ?ls
      (scroll_all gs (render_lazy_log s v))"
    using shows_prefix_scroll_all [OF shows_prefix_render [of s v], of gs]
    by (simp add: batch_size_def)
  then show ?thesis
    using assms by (auto simp: shows_prefix_def Let_def on_scroll_def status_text_def join_split_str)
qed

definition empty_view :: log_view where
  "empty_view =
     \<lparr>log_content = [], log_status = Some [], log_lines = [], log_rendered = 0,
      log_scrolls = False\<rparr>"

theorem lazy_log_complete_witness:
  "log_content (scroll_all [] (render_lazy_log (''a'' @ [CR, LF] @ ''b'') empty_view))
     = ''a'' @ [LF] @ ''b''"
proof -
  have h: "length (split_str [LF] (normalize_line_endings (''a'' @ [CR, LF] @ ''b'')))
      \<le> 220 * Suc (length (filter near_bottom []))"
    by simp
  show ?thesis
    using lazy_log_complete [OF h, where v = empty_view and g = "(0, 0, 0)"]
    by (simp add: Let_def)
qed

end
