(* ===== verification/Browser.thy ===== *)
theory Browser
  imports Prelude
begin

text \<open>
  The part of the browser that \<open>internal/web/static/app.js\<close> runs on: the dialogs of a page,
  the \<open>modal-open\<close> class of its body, the element the script focused last, and the queue of
  \<open>close\<close> events. The component theories extend the record \<open>page\<close> with their own state.

  \<open>showModal\<close> and \<open>close\<close> follow the HTML standard: \<open>showModal\<close> returns at once on a
  dialog that is modal already and throws on one that is open without being modal;
  \<open>close\<close> does nothing on a closed dialog, and otherwise closes it and queues a task that
  fires the event \<open>close\<close> later. Focus changes that the browser makes on its own are not
  modelled: \<open>focused\<close> is the element of the last \<open>focus()\<close> call of the script.
\<close>

section \<open>The page\<close>

datatype dialog =
  UserCreateDialog | LdapCreateDialog | ConfirmDialog | JobDialog | ResourceDialog
| CancelDialog | NodeStateDialog | PartitionEditorDialog | PartitionDeleteDialog

datatype dialog_state = Closed | NonModal | Modal

datatype element =
  MenuButton | SearchInput | UserCreateTrigger | UsernameInput | UidNumberInput
| ConfirmAccept | JobModalClose | OutputContent | ResourceClose | CancelClose
| NodeReason | PartitionNameInput | PartitionDeleteSubmit | TerminalEmulator
| Node nat  \<comment> \<open>any other element of the document\<close>

record page =
  dialogs :: "dialog \<Rightarrow> dialog_state"
  close_events :: "dialog list"
  modal_open :: bool
  focused :: "element option"

text \<open>
  A handler either runs to its end or throws; what it changed before stays changed.
\<close>

datatype 's outcome = Done (state: 's) | Threw (state: 's)

definition and_then :: "'s outcome \<Rightarrow> ('s \<Rightarrow> 's outcome) \<Rightarrow> 's outcome" where
  "and_then r f = (case r of Done s \<Rightarrow> f s | Threw s \<Rightarrow> Threw s)"

lemma and_then_simps [simp]:
  "and_then (Done s) f = f s" "and_then (Threw s) f = Threw s"
  by (simp_all add: and_then_def)

section \<open>Operations of the page\<close>

definition show_modal :: "dialog \<Rightarrow> 'a page_scheme \<Rightarrow> 'a page_scheme outcome" where
  "show_modal d p =
     (case dialogs p d of
        Modal \<Rightarrow> Done p
      | NonModal \<Rightarrow> Threw p
      | Closed \<Rightarrow> Done (p\<lparr>dialogs := (dialogs p)(d := Modal)\<rparr>))"

definition close_dialog :: "dialog \<Rightarrow> 'a page_scheme \<Rightarrow> 'a page_scheme" where
  "close_dialog d p =
     (if dialogs p d = Closed then p
      else p\<lparr>dialogs := (dialogs p)(d := Closed), close_events := close_events p @ [d]\<rparr>)"

definition is_open :: "dialog \<Rightarrow> 'a page_scheme \<Rightarrow> bool" where
  \<comment> \<open>the \<open>open\<close> attribute\<close>
  "is_open d p \<longleftrightarrow> dialogs p d \<noteq> Closed"

definition close_if_open :: "dialog \<Rightarrow> 'a page_scheme \<Rightarrow> 'a page_scheme" where
  "close_if_open d p = (if is_open d p then close_dialog d p else p)"

definition lock_scroll :: "'a page_scheme \<Rightarrow> 'a page_scheme" where
  "lock_scroll p = p\<lparr>modal_open := True\<rparr>"

definition unlock_scroll :: "'a page_scheme \<Rightarrow> 'a page_scheme" where
  "unlock_scroll p = p\<lparr>modal_open := False\<rparr>"

definition focus_on :: "element \<Rightarrow> 'a page_scheme \<Rightarrow> 'a page_scheme" where
  "focus_on e p = p\<lparr>focused := Some e\<rparr>"

definition focus_opt :: "element option \<Rightarrow> 'a page_scheme \<Rightarrow> 'a page_scheme" where
  "focus_opt e p = (case e of None \<Rightarrow> p | Some x \<Rightarrow> focus_on x p)"

definition blank_page :: page where
  "blank_page = \<lparr>dialogs = (\<lambda>_. Closed), close_events = [], modal_open = False, focused = None\<rparr>"

text \<open>The dialogs are finitely many, so quantifiers over them compute.\<close>

instantiation dialog :: enum
begin

definition enum_dialog :: "dialog list" where
  "enum_dialog =
     [UserCreateDialog, LdapCreateDialog, ConfirmDialog, JobDialog, ResourceDialog,
      CancelDialog, NodeStateDialog, PartitionEditorDialog, PartitionDeleteDialog]"

definition enum_all_dialog :: "(dialog \<Rightarrow> bool) \<Rightarrow> bool" where
  "enum_all_dialog P = list_all P enum_class.enum"

definition enum_ex_dialog :: "(dialog \<Rightarrow> bool) \<Rightarrow> bool" where
  "enum_ex_dialog P = list_ex P enum_class.enum"

instance
proof
  show univ: "(UNIV :: dialog set) = set enum_class.enum"
    by (auto simp: enum_dialog_def intro: dialog.exhaust)
  show "distinct (enum_class.enum :: dialog list)"
    by (simp add: enum_dialog_def)
  show "enum_class.enum_all P \<longleftrightarrow> Ball (UNIV :: dialog set) P" for P
    unfolding enum_all_dialog_def list_all_iff using univ by auto
  show "enum_class.enum_ex P \<longleftrightarrow> Bex (UNIV :: dialog set) P" for P
    unfolding enum_ex_dialog_def list_ex_iff using univ by auto
qed

end

text \<open>While a dialog is modal the rest of the document is inert: it takes no user input.\<close>

definition inert :: "'a page_scheme \<Rightarrow> bool" where
  "inert p \<longleftrightarrow> (\<exists>d. dialogs p d = Modal)"

lemma show_modal_closed [page_simps]:
  "dialogs p d = Closed \<Longrightarrow> show_modal d p = Done (p\<lparr>dialogs := (dialogs p)(d := Modal)\<rparr>)"
  by (simp add: show_modal_def)

lemma show_modal_modal [page_simps]: "dialogs p d = Modal \<Longrightarrow> show_modal d p = Done p"
  by (simp add: show_modal_def)

lemma close_dialog_closed [page_simps]: "dialogs p d = Closed \<Longrightarrow> close_dialog d p = p"
  by (simp add: close_dialog_def)

lemma close_dialog_open [page_simps]:
  "dialogs p d \<noteq> Closed \<Longrightarrow>
     close_dialog d p
       = p\<lparr>dialogs := (dialogs p)(d := Closed), close_events := close_events p @ [d]\<rparr>"
  by (simp add: close_dialog_def)

lemma not_inert [page_simps]:
  "\<not> inert p \<Longrightarrow> (\<forall>d. dialogs p d \<noteq> NonModal) \<Longrightarrow> dialogs p d = Closed"
  by (metis inert_def dialog_state.exhaust)

declare lock_scroll_def [page_simps] unlock_scroll_def [page_simps]
  focus_on_def [page_simps] is_open_def [page_simps]

lemma close_if_open_closed: "dialogs p d = Closed \<Longrightarrow> close_if_open d p = p"
  by (simp add: close_if_open_def is_open_def)

lemma focus_opt_fields [simp]:
  "dialogs (focus_opt e p) = dialogs p"
  "close_events (focus_opt e p) = close_events p"
  "modal_open (focus_opt e p) = modal_open p"
  "page.more (focus_opt e p) = page.more p"
  by (simp_all add: focus_opt_def focus_on_def split: option.splits)

section \<open>Delivering close events\<close>

text \<open>
  The task loop delivers the queued events in order, each to the handler of its dialog. A
  task is one user action followed by the delivery of what it queued: the browser delivers
  a queued \<open>close\<close> event before the next input event.
\<close>

fun deliver_all ::
  "(dialog \<Rightarrow> 'a page_scheme \<Rightarrow> 'a page_scheme) \<Rightarrow> dialog list \<Rightarrow> 'a page_scheme
     \<Rightarrow> 'a page_scheme" where
  "deliver_all handler [] p = p"
| "deliver_all handler (d # ds) p = deliver_all handler ds (handler d p)"

definition settle ::
  "(dialog \<Rightarrow> 'a page_scheme \<Rightarrow> 'a page_scheme) \<Rightarrow> 'a page_scheme \<Rightarrow> 'a page_scheme" where
  "settle handler p = deliver_all handler (close_events p) (p\<lparr>close_events := []\<rparr>)"

fun run_tasks ::
  "('e \<Rightarrow> 'a page_scheme \<Rightarrow> bool) \<Rightarrow> ('e \<Rightarrow> 'a page_scheme \<Rightarrow> 'a page_scheme outcome)
     \<Rightarrow> (dialog \<Rightarrow> 'a page_scheme \<Rightarrow> 'a page_scheme) \<Rightarrow> 'e list \<Rightarrow> 'a page_scheme
     \<Rightarrow> 'a page_scheme" where
  "run_tasks enabled act handler [] p = p"
| "run_tasks enabled act handler (e # es) p =
     run_tasks enabled act handler es
       (if enabled e p then settle handler (state (act e p)) else p)"

lemma settle_idle [page_simps]: "close_events p = [] \<Longrightarrow> settle handler p = p"
  by (cases p) (simp add: settle_def)

lemma settle_one [page_simps]:
  "close_events p = [d] \<Longrightarrow> settle handler p = handler d (p\<lparr>close_events := []\<rparr>)"
  by (simp add: settle_def)

lemma run_tasks_append:
  "run_tasks enabled act handler (es @ es') p
     = run_tasks enabled act handler es' (run_tasks enabled act handler es p)"
  by (induction es arbitrary: p) auto

text \<open>
  Between tasks a page is calm: no event is queued, no dialog is open without being modal,
  at most one is modal, and the scroll lock of the body is set exactly while one is.
\<close>

definition calm :: "'a page_scheme \<Rightarrow> bool" where
  "calm p \<longleftrightarrow>
     close_events p = []
   \<and> (\<forall>d. dialogs p d \<noteq> NonModal)
   \<and> (\<forall>d d'. dialogs p d = Modal \<and> dialogs p d' = Modal \<longrightarrow> d = d')
   \<and> (modal_open p \<longleftrightarrow> inert p)"

lemma calm_blank_page: "calm blank_page"
  by (simp add: calm_def blank_page_def inert_def)

lemma calm_idle: "calm p \<Longrightarrow> close_events p = []"
  by (simp add: calm_def)

lemma calm_closed: "calm p \<Longrightarrow> \<not> inert p \<Longrightarrow> dialogs p d = Closed"
  by (auto simp: calm_def intro: not_inert)

definition served_open :: "dialog \<Rightarrow> 'a page_scheme \<Rightarrow> bool" where
  \<comment> \<open>the page arrives with the \<open>open\<close> attribute on one dialog\<close>
  "served_open d p \<longleftrightarrow>
     dialogs p = (\<lambda>_. Closed)(d := NonModal) \<and> close_events p = [] \<and> \<not> modal_open p"

text \<open>What an action may do to a calm page: nothing, open one dialog, or close it.\<close>

definition same_dialogs :: "'a page_scheme \<Rightarrow> 'a page_scheme \<Rightarrow> bool" where
  "same_dialogs p q \<longleftrightarrow>
     dialogs q = dialogs p \<and> close_events q = close_events p \<and> modal_open q = modal_open p"

definition opened_one :: "dialog set \<Rightarrow> 'a page_scheme \<Rightarrow> 'a page_scheme \<Rightarrow> bool" where
  "opened_one ds p q \<longleftrightarrow>
     (\<exists>d \<in> ds. \<not> inert p \<and> dialogs q = (dialogs p)(d := Modal)
        \<and> close_events q = close_events p \<and> modal_open q)"

definition closed_one :: "dialog set \<Rightarrow> 'a page_scheme \<Rightarrow> 'a page_scheme \<Rightarrow> bool" where
  "closed_one ds p q \<longleftrightarrow>
     (\<exists>d \<in> ds. dialogs p d = Modal \<and> dialogs q = (dialogs p)(d := Closed)
        \<and> close_events q = close_events p @ [d])"

definition well_behaved :: "dialog set \<Rightarrow> 'a page_scheme \<Rightarrow> 'a page_scheme outcome \<Rightarrow> bool" where
  "well_behaved ds p r \<longleftrightarrow>
     (\<exists>q. r = Done q \<and> (same_dialogs p q \<or> opened_one ds p q \<or> closed_one ds p q))"

lemma well_behavedI:
  "r = Done q \<Longrightarrow> same_dialogs p q \<Longrightarrow> well_behaved ds p r"
  "r = Done q \<Longrightarrow> opened_one ds p q \<Longrightarrow> well_behaved ds p r"
  "r = Done q \<Longrightarrow> closed_one ds p q \<Longrightarrow> well_behaved ds p r"
  by (auto simp: well_behaved_def)

lemma well_behaved_close:
  "dialogs p d = Modal \<Longrightarrow> d \<in> ds \<Longrightarrow> well_behaved ds p (Done (close_dialog d p))"
  by (auto simp: well_behaved_def closed_one_def page_simps)

lemma same_dialogs_refl [simp]: "same_dialogs p p"
  by (simp add: same_dialogs_def)

section \<open>The contract of a component that owns dialogs\<close>

text \<open>
  A component gives its user actions, the condition under which the browser lets the user
  take each (a control outside a dialog needs a page that is not inert, one inside needs
  the dialog to be open), and its \<open>close\<close> handlers. In return no handler ever throws, and
  the page is calm after every run of tasks.
\<close>

locale dialog_component =
  fixes dlgs :: "dialog set"
    and enabled :: "'e \<Rightarrow> 'a page_scheme \<Rightarrow> bool"
    and act :: "'e \<Rightarrow> 'a page_scheme \<Rightarrow> 'a page_scheme outcome"
    and on_close :: "dialog \<Rightarrow> 'a page_scheme \<Rightarrow> 'a page_scheme"
  assumes act_law: "calm p \<Longrightarrow> enabled e p \<Longrightarrow> well_behaved dlgs p (act e p)"
    and close_dialogs: "d \<in> dlgs \<Longrightarrow> dialogs (on_close d p) = dialogs p"
    and close_queue: "d \<in> dlgs \<Longrightarrow> close_events (on_close d p) = close_events p"
    and close_unlocks: "d \<in> dlgs \<Longrightarrow> \<not> modal_open (on_close d p)"
begin

lemma never_throws: "calm p \<Longrightarrow> enabled e p \<Longrightarrow> \<exists>q. act e p = Done q"
  using act_law by (auto simp: well_behaved_def)

lemma calm_task:
  assumes "calm p" and "enabled e p"
  shows "calm (settle on_close (state (act e p)))"
proof -
  obtain q where q: "act e p = Done q" "same_dialogs p q \<or> opened_one dlgs p q \<or> closed_one dlgs p q"
    using act_law [OF assms] by (auto simp: well_behaved_def)
  note p = assms(1) [unfolded calm_def]
  from q(2) consider
      (same) "dialogs q = dialogs p" "close_events q = []" "modal_open q = modal_open p"
    | (open_) d where "\<not> inert p" "dialogs q = (dialogs p)(d := Modal)" "close_events q = []"
        "modal_open q"
    | (close_) d where "d \<in> dlgs" "dialogs p d = Modal" "dialogs q = (dialogs p)(d := Closed)"
        "close_events q = [d]"
    using p by (auto simp: same_dialogs_def opened_one_def closed_one_def)
  then have "calm (settle on_close q)"
  proof cases
    case same
    then show ?thesis using p by (simp add: settle_def calm_def inert_def)
  next
    case open_
    then show ?thesis using p by (auto simp: settle_def calm_def inert_def)
  next
    case close_
    let ?q = "on_close d (q\<lparr>close_events := []\<rparr>)"
    have fields: "settle on_close q = ?q" "dialogs ?q = (dialogs p)(d := Closed)"
      "close_events ?q = []" "\<not> modal_open ?q"
      using close_ by (simp_all add: settle_def close_dialogs close_queue close_unlocks)
    moreover have "dialogs p x = Modal \<Longrightarrow> x = d" for x
      using p close_(2) by blast
    ultimately show ?thesis using p by (auto simp: calm_def inert_def)
  qed
  then show ?thesis using q(1) by simp
qed

lemma calm_run: "calm p \<Longrightarrow> calm (run_tasks enabled act on_close es p)"
  by (induction es arbitrary: p) (auto intro: calm_task)

lemma lock_iff_open:
  "calm p \<Longrightarrow> modal_open (run_tasks enabled act on_close es p)
     \<longleftrightarrow> inert (run_tasks enabled act on_close es p)"
  using calm_run by (auto simp: calm_def)

end

end
