(* ===== verification/RequestGuard.thy ===== *)
theory RequestGuard
  imports Prelude
begin

text \<open>
  The contract of numbered requests. The job dialog and the resource monitor start
  asynchronous requests, number them, and look at the number again when an answer arrives:
  only the answer to the latest request may touch what is shown. The locale states what a
  client guarantees for one answer; the lemmas conclude that the order in which answers
  arrive does not matter and that a cancelled request is never seen.
\<close>

fun answer_all :: "(nat \<Rightarrow> 'r \<Rightarrow> 's \<Rightarrow> 's) \<Rightarrow> (nat \<times> 'r) list \<Rightarrow> 's \<Rightarrow> 's" where
  "answer_all f [] s = s"
| "answer_all f (a # rs) s = answer_all f rs (f (fst a) (snd a) s)"

locale numbered_requests =
  fixes current :: "'s \<Rightarrow> nat"
    and shown :: "'s \<Rightarrow> 'v"
    and answer :: "nat \<Rightarrow> 'r \<Rightarrow> 's \<Rightarrow> 's"
    and cancel :: "'s \<Rightarrow> 's"
  assumes current_answer: "current (answer n r s) = current s"
    and stale_answer: "n \<noteq> current s \<Longrightarrow> shown (answer n r s) = shown s"
    and answer_cong: "shown s = shown t \<Longrightarrow> current s = current t \<Longrightarrow>
          shown (answer n r s) = shown (answer n r t)"
    and current_cancel: "current (cancel s) = Suc (current s)"
    and shown_cancel: "shown (cancel s) = shown s"
begin

abbreviation "answers \<equiv> answer_all answer"

lemma current_answers [simp]: "current (answers rs s) = current s"
  by (induction rs arbitrary: s) (auto simp: current_answer)

lemma answers_cong:
  "shown s = shown t \<Longrightarrow> current s = current t \<Longrightarrow> shown (answers rs s) = shown (answers rs t)"
proof (induction rs arbitrary: s t)
  case (Cons a rs)
  have "shown (answers rs (answer (fst a) (snd a) s)) = shown (answers rs (answer (fst a) (snd a) t))"
    by (rule Cons.IH)
      (use Cons.prems in \<open>simp_all add: answer_cong [OF Cons.prems] current_answer\<close>)
  then show ?case by simp
qed simp

text \<open>Only the answers to the current request count.\<close>

lemma shown_answers_current:
  "shown (answers rs s) = shown (answers (filter (\<lambda>a. fst a = current s) rs) s)"
proof (induction rs arbitrary: s)
  case (Cons a rs)
  show ?case
  proof (cases "fst a = current s")
    case True
    then show ?thesis
      using Cons.IH [of "answer (fst a) (snd a) s"] by (simp add: current_answer)
  next
    case False
    then have "shown (answers rs (answer (fst a) (snd a) s)) = shown (answers rs s)"
      by (intro answers_cong) (simp_all add: stale_answer current_answer)
    then show ?thesis using Cons.IH [of s] False by simp
  qed
qed simp

text \<open>After a cancellation no answer to an earlier request is seen.\<close>

lemma shown_after_cancel:
  assumes "\<forall>a \<in> set rs. fst a \<le> current s"
  shows "shown (answers rs (cancel s)) = shown s"
proof -
  have "filter (\<lambda>a. fst a = current (cancel s)) rs = []"
    using assms by (auto simp: filter_empty_conv current_cancel)
  then show ?thesis
    using shown_answers_current [of rs "cancel s"] by (simp add: shown_cancel)
qed

text \<open>Two arrival orders of the same answers show the same, one answer per request.\<close>

lemma arrival_order:
  assumes "distinct (map fst rs)" and "set rs = set rs'" and "distinct (map fst rs')"
  shows "shown (answers rs s) = shown (answers rs' s)"
proof -
  let ?f = "filter (\<lambda>a. fst a = current s)"
  have single: "length (?f qs) \<le> 1" if "distinct (map fst qs)" for qs :: "(nat \<times> 'r) list"
  proof -
    have "distinct (map fst (?f qs))" using that by (simp add: distinct_map_filter)
    moreover have "set (map fst (?f qs)) \<subseteq> {current s}" by auto
    ultimately have "length (map fst (?f qs)) \<le> card {current s}"
      by (metis card_mono distinct_card finite.emptyI finite_insert)
    then show ?thesis by simp
  qed
  have "set (?f rs) = set (?f rs')" using assms(2) by simp
  moreover have "length (?f rs) \<le> 1" "length (?f rs') \<le> 1"
    using single assms(1,3) by blast+
  ultimately have "?f rs = ?f rs'"
    by (cases "?f rs"; cases "?f rs'") auto
  then show ?thesis
    using shown_answers_current [of rs s] shown_answers_current [of rs' s] by simp
qed

end

end
