(* ===== verification/JobOutput.thy ===== *)
theory JobOutput
  imports Browser LazyLog RequestGuard Uri
begin

text \<open>
  The job dialog (\<open>app.js\<close>, lines 122 to 240): it shows a clone of a job's detail template,
  and its output buttons fetch the standard output or error of the job into a panel of the
  clone. Requests are numbered; starting one, opening another job and closing the dialog
  cancel the one before.
\<close>

section \<open>State\<close>

record panel = log_view +
  panel_hidden :: bool
  panel_title :: string

text \<open>
  What \<open>getElementById\<close> finds for the id of a detail template: does its clone contain the
  panel, its title and its content element, and does it contain the status element.
\<close>

record template =
  panel_complete :: bool
  has_status :: bool

text \<open>
  A button is named by the clone it belongs to and its position there; its attributes are
  \<open>data-job-id\<close>, \<open>data-output-stream\<close> and \<open>data-output-label\<close>.
\<close>

type_synonym button = "nat \<times> nat"

record button_attrs =
  attr_job :: string
  attr_stream :: string
  attr_label :: string

record job_page = page +
  templates :: "string \<Rightarrow> template option"
  output_loading :: string               \<comment> \<open>the texts on the dialog's attributes\<close>
  output_error :: string
  output_truncated :: string
  clone :: nat                           \<comment> \<open>number of the clone in the dialog's body\<close>
  clone_complete :: bool
  job_panel :: panel
  job_trigger :: "element option"
  request_id :: nat
  abort_controller :: "nat option"       \<comment> \<open>the request it aborts\<close>
  aborted :: "nat list"
  disabled_buttons :: "button list"
  in_flight :: "(nat \<times> button) list"     \<comment> \<open>requests without an answer yet\<close>
  requested :: "(nat \<times> string) list"     \<comment> \<open>the paths fetched so far\<close>

datatype output_result = Loaded string bool | Failed

section \<open>Operations\<close>

definition cancel_output_request :: "job_page \<Rightarrow> job_page" where
  "cancel_output_request p =
     p\<lparr>request_id := Suc (request_id p),
       aborted := (case abort_controller p of Some r \<Rightarrow> r # aborted p | None \<Rightarrow> aborted p),
       abort_controller := None\<rparr>"

definition set_output :: "string \<Rightarrow> 'a log_view_scheme \<Rightarrow> 'a log_view_scheme" where
  \<comment> \<open>writes the content element and clears the status element\<close>
  "set_output text v = v\<lparr>log_content := text, log_status := map_option (\<lambda>_. []) (log_status v)\<rparr>"

definition click_output :: "nat \<Rightarrow> button_attrs \<Rightarrow> job_page \<Rightarrow> job_page outcome" where
  "click_output b attrs p =
     (if \<not> clone_complete p then Done p
      else
        let p = cancel_output_request p;
            button = (clone p, b);
            request = request_id p
        in Done (p\<lparr>
             disabled_buttons := button # disabled_buttons p,
             abort_controller := Some request,
             job_panel := set_output (output_loading p)
               ((job_panel p)\<lparr>panel_hidden := False, panel_title := attr_label attrs\<rparr>),
             in_flight := (request, button) # in_flight p,
             requested :=
               requested p @ [(request, output_url (attr_job attrs) (attr_stream attrs))]\<rparr>))"

text \<open>The separator between title and truncation note is a middle dot.\<close>

definition middle_dot :: string where
  "middle_dot = [CHR '' '', CHR 0xC2, CHR 0xB7, CHR '' '']"

text \<open>
  The answer to request \<open>r\<close> of a button: the reactions of the promise chain, which run
  without a user event between them. \<open>Loaded\<close> carries the text and the truncation header;
  \<open>Failed\<close> is a failed or aborted fetch or a status that is not ok.
\<close>

definition output_fresh :: "nat \<Rightarrow> job_page \<Rightarrow> bool" where
  "output_fresh r p \<longleftrightarrow> r = request_id p \<and> is_open JobDialog p"

definition show_output :: "string \<Rightarrow> bool \<Rightarrow> job_page \<Rightarrow> job_page" where
  "show_output content truncated p =
     (let panel = job_panel p;
          panel = (if truncated
                   then panel\<lparr>panel_title := panel_title panel @ middle_dot @ output_truncated p\<rparr>
                   else panel)
      in focus_on OutputContent (p\<lparr>job_panel := render_lazy_log content panel\<rparr>))"

definition show_output_error :: "job_page \<Rightarrow> job_page" where
  "show_output_error p = p\<lparr>job_panel := set_output (output_error p) (job_panel p)\<rparr>"

definition finish_output :: "nat \<Rightarrow> button \<Rightarrow> job_page \<Rightarrow> job_page" where
  "finish_output r button p =
     p\<lparr>disabled_buttons := (if fst button = clone p then removeAll button (disabled_buttons p)
                            else disabled_buttons p),
       abort_controller := (if r = request_id p then None else abort_controller p),
       in_flight := filter (\<lambda>(r', b). r' \<noteq> r) (in_flight p)\<rparr>"

definition output_answer :: "nat \<Rightarrow> button \<times> output_result \<Rightarrow> job_page \<Rightarrow> job_page" where
  "output_answer r a p =
     (case a of (button, result) \<Rightarrow>
        finish_output r button
          (if \<not> output_fresh r p then p
           else case result of
               Loaded content truncated \<Rightarrow> show_output content truncated p
             | Failed \<Rightarrow> show_output_error p))"

definition blank_panel :: "template \<Rightarrow> panel" where
  "blank_panel t =
     \<lparr>log_content = [], log_status = (if has_status t then Some [] else None), log_lines = [],
      log_rendered = 0, log_scrolls = False, panel_hidden = True, panel_title = []\<rparr>"

definition open_detail :: "element \<Rightarrow> string \<Rightarrow> job_page \<Rightarrow> job_page outcome" where
  "open_detail trigger template_id p =
     (case templates p template_id of
        None \<Rightarrow> Done p
      | Some t \<Rightarrow>
          let p = cancel_output_request p
          in and_then
               (show_modal JobDialog (lock_scroll
                 (p\<lparr>clone := Suc (clone p), clone_complete := panel_complete t,
                    job_panel := blank_panel t, job_trigger := Some trigger\<rparr>)))
               (\<lambda>p. Done (focus_on JobModalClose p)))"

definition on_job_close :: "dialog \<Rightarrow> job_page \<Rightarrow> job_page" where
  "on_job_close d p = focus_opt (job_trigger p) (unlock_scroll (cancel_output_request p))"

datatype job_event =
  OpenDetail element string
| ClickOutput nat button_attrs
| CloseJob                          \<comment> \<open>the close button, the backdrop or the Escape key\<close>
| ScrollOutput geometry
| OutputAnswer nat button output_result

fun job_act :: "job_event \<Rightarrow> job_page \<Rightarrow> job_page outcome" where
  "job_act (OpenDetail trigger t) p = open_detail trigger t p"
| "job_act (ClickOutput b attrs) p = click_output b attrs p"
| "job_act CloseJob p = Done (close_dialog JobDialog p)"
| "job_act (ScrollOutput g) p = Done (p\<lparr>job_panel := on_scroll g (job_panel p)\<rparr>)"
| "job_act (OutputAnswer r button result) p = Done (output_answer r (button, result) p)"

fun job_enabled :: "job_event \<Rightarrow> job_page \<Rightarrow> bool" where
  "job_enabled (OpenDetail trigger t) p \<longleftrightarrow> \<not> inert p"
| "job_enabled (ClickOutput b attrs) p \<longleftrightarrow>
     dialogs p JobDialog = Modal \<and> (clone p, b) \<notin> set (disabled_buttons p)"
| "job_enabled CloseJob p \<longleftrightarrow> dialogs p JobDialog = Modal"
| "job_enabled (ScrollOutput g) p \<longleftrightarrow> dialogs p JobDialog = Modal"
| "job_enabled (OutputAnswer r button result) p \<longleftrightarrow> (r, button) \<in> set (in_flight p)"

abbreviation run_job :: "job_event list \<Rightarrow> job_page \<Rightarrow> job_page" where
  "run_job \<equiv> run_tasks job_enabled job_act on_job_close"

section \<open>Contracts\<close>

lemma cancel_output_fields [simp]:
  "dialogs (cancel_output_request p) = dialogs p"
  "close_events (cancel_output_request p) = close_events p"
  "modal_open (cancel_output_request p) = modal_open p"
  "request_id (cancel_output_request p) = Suc (request_id p)"
  "abort_controller (cancel_output_request p) = None"
  "job_panel (cancel_output_request p) = job_panel p"
  "clone (cancel_output_request p) = clone p"
  "disabled_buttons (cancel_output_request p) = disabled_buttons p"
  "in_flight (cancel_output_request p) = in_flight p"
  "output_error (cancel_output_request p) = output_error p"
  "output_truncated (cancel_output_request p) = output_truncated p"
  by (simp_all add: cancel_output_request_def)

lemma output_answer_fields [simp]:
  "dialogs (output_answer r a p) = dialogs p"
  "close_events (output_answer r a p) = close_events p"
  "modal_open (output_answer r a p) = modal_open p"
  "request_id (output_answer r a p) = request_id p"
  "clone (output_answer r a p) = clone p"
  "in_flight (output_answer r a p) = filter (\<lambda>(r', b). r' \<noteq> r) (in_flight p)"
  "output_error (output_answer r a p) = output_error p"
  "output_truncated (output_answer r a p) = output_truncated p"
  by (simp_all add: output_answer_def finish_output_def show_output_def show_output_error_def
      focus_on_def Let_def split: prod.splits output_result.splits)

interpretation job_dialog: dialog_component "{JobDialog}" job_enabled job_act on_job_close
proof
  fix p :: job_page and e
  assume p: "calm p" "job_enabled e p"
  show "well_behaved {JobDialog} p (job_act e p)"
  proof (cases e)
    case (OpenDetail trigger t)
    then have "\<not> inert p" using p(2) by simp
    with calm_closed [OF p(1) this, of JobDialog] OpenDetail show ?thesis
      by (auto simp: open_detail_def well_behaved_def same_dialogs_def opened_one_def Let_def
          page_simps split: option.splits)
  next
    case (ClickOutput b attrs)
    then show ?thesis
      by (auto simp: click_output_def well_behaved_def same_dialogs_def Let_def)
  next
    case CloseJob
    then show ?thesis
      using p(2) by (simp add: well_behaved_close)
  qed (auto simp: well_behaved_def same_dialogs_def)
qed (auto simp: on_job_close_def page_simps)

text \<open>
  What an answer may change on the screen: the panel, the request number it is judged by,
  whether the dialog is open, and the texts.
\<close>

definition output_shown :: "job_page \<Rightarrow> panel \<times> dialog_state \<times> string \<times> string" where
  "output_shown p = (job_panel p, dialogs p JobDialog, output_error p, output_truncated p)"

lemma output_answer_panel:
  "job_panel (output_answer r (button, result) p) =
     (if output_fresh r p
      then (case result of
              Loaded content truncated \<Rightarrow> job_panel (show_output content truncated p)
            | Failed \<Rightarrow> job_panel (show_output_error p))
      else job_panel p)"
  by (simp add: output_answer_def finish_output_def split: output_result.splits)

interpretation output_requests:
  numbered_requests request_id output_shown output_answer cancel_output_request
proof
  fix r :: nat and a :: "button \<times> output_result" and p q :: job_page
  obtain button result where a: "a = (button, result)" by (cases a)
  show "request_id (output_answer r a p) = request_id p" by simp
  show "r \<noteq> request_id p \<Longrightarrow> output_shown (output_answer r a p) = output_shown p"
    by (simp add: a output_shown_def output_answer_panel output_fresh_def)
  show "output_shown p = output_shown q \<Longrightarrow> request_id p = request_id q \<Longrightarrow>
      output_shown (output_answer r a p) = output_shown (output_answer r a q)"
    by (auto simp: a output_shown_def output_answer_panel output_fresh_def is_open_def
        show_output_def show_output_error_def focus_on_def Let_def split: output_result.splits)
  show "request_id (cancel_output_request p) = Suc (request_id p)" by simp
  show "output_shown (cancel_output_request p) = output_shown p"
    by (simp add: output_shown_def)
qed

section \<open>Buttons and downloads\<close>

text \<open>
  The bookkeeping invariant. Requests in flight have distinct numbers up to the current
  one; each was aborted, or is the current one and can be aborted through the controller; a
  button of the clone on display is disabled exactly while one request of it is in flight.
\<close>

definition flights_ok :: "job_page \<Rightarrow> bool" where
  "flights_ok p \<longleftrightarrow>
     (\<forall>(r, b) \<in> set (in_flight p). r \<le> request_id p \<and> fst b \<le> clone p
        \<and> (r \<in> set (aborted p) \<or> r = request_id p \<and> abort_controller p = Some r))"

definition buttons_ok :: "job_page \<Rightarrow> bool" where
  "buttons_ok p \<longleftrightarrow>
     (\<forall>b \<in> set (disabled_buttons p). fst b \<le> clone p)
   \<and> (\<forall>b. fst b = clone p \<longrightarrow> (b \<in> set (disabled_buttons p) \<longleftrightarrow> b \<in> snd ` set (in_flight p)))
   \<and> (\<forall>r r' b. fst b = clone p \<longrightarrow> (r, b) \<in> set (in_flight p) \<longrightarrow> (r', b) \<in> set (in_flight p)
        \<longrightarrow> r = r')
   \<and> (\<forall>r b b'. (r, b) \<in> set (in_flight p) \<longrightarrow> (r, b') \<in> set (in_flight p) \<longrightarrow> b = b')"

definition controller_ok :: "job_page \<Rightarrow> bool" where
  "controller_ok p \<longleftrightarrow> (\<forall>r. abort_controller p = Some r \<longrightarrow> r = request_id p)"

definition output_inv :: "job_page \<Rightarrow> bool" where
  "output_inv p \<longleftrightarrow> flights_ok p \<and> buttons_ok p \<and> controller_ok p"

lemmas output_inv_defs = output_inv_def flights_ok_def buttons_ok_def controller_ok_def

lemma output_inv_cong:
  "in_flight q = in_flight p \<Longrightarrow> request_id q = request_id p \<Longrightarrow> clone q = clone p \<Longrightarrow>
   aborted q = aborted p \<Longrightarrow> abort_controller q = abort_controller p \<Longrightarrow>
   disabled_buttons q = disabled_buttons p \<Longrightarrow> output_inv q \<longleftrightarrow> output_inv p"
  by (simp add: output_inv_defs)

lemma flights_okI:
  "(\<And>r b. (r, b) \<in> set (in_flight p) \<Longrightarrow> r \<le> request_id p \<and> fst b \<le> clone p
     \<and> (r \<in> set (aborted p) \<or> r = request_id p \<and> abort_controller p = Some r)) \<Longrightarrow> flights_ok p"
  by (simp add: flights_ok_def split_paired_all)

lemma flights_okD:
  "flights_ok p \<Longrightarrow> (r, b) \<in> set (in_flight p) \<Longrightarrow> r \<le> request_id p \<and> fst b \<le> clone p
     \<and> (r \<in> set (aborted p) \<or> r = request_id p \<and> abort_controller p = Some r)"
  by (auto simp: flights_ok_def)

lemma aborted_cancel:
  "set (aborted (cancel_output_request p)) = set (aborted p) \<union> set_option (abort_controller p)"
  by (simp add: cancel_output_request_def split: option.splits)

lemma output_inv_cancel:
  assumes "output_inv p"
  shows "output_inv (cancel_output_request p)"
proof -
  have "flights_ok (cancel_output_request p)"
  proof (rule flights_okI)
    fix r b assume "(r, b) \<in> set (in_flight (cancel_output_request p))"
    then show "r \<le> request_id (cancel_output_request p) \<and> fst b \<le> clone (cancel_output_request p)
       \<and> (r \<in> set (aborted (cancel_output_request p))
          \<or> r = request_id (cancel_output_request p)
            \<and> abort_controller (cancel_output_request p) = Some r)"
      using assms flights_okD [of p r b] by (auto simp: output_inv_def aborted_cancel)
  qed
  then show ?thesis
    using assms by (simp add: output_inv_def buttons_ok_def controller_ok_def)
qed

lemma output_inv_next_clone:
  assumes "output_inv p" and "clone q = Suc (clone p)" and "in_flight q = in_flight p"
    and "request_id q = request_id p" and "aborted q = aborted p"
    and "abort_controller q = abort_controller p" and "disabled_buttons q = disabled_buttons p"
  shows "output_inv q"
proof -
  have old: "fst b \<le> clone p" if "(r, b) \<in> set (in_flight p)" for r b
    using assms(1) flights_okD that by (auto simp: output_inv_def)
  then have fresh: "b \<notin> snd ` set (in_flight p)" if "fst b = Suc (clone p)" for b
    using that by fastforce
  have disabled: "\<forall>b \<in> set (disabled_buttons p). fst b \<le> clone p"
    using assms(1) by (simp add: output_inv_def buttons_ok_def)
  have "flights_ok q"
    using assms flights_okD [of p] by (intro flights_okI) (auto simp: output_inv_def le_SucI)
  moreover have "controller_ok q"
    using assms by (simp add: output_inv_def controller_ok_def)
  moreover have "buttons_ok q"
    unfolding buttons_ok_def assms(2,3,7)
  proof (intro conjI)
    show "\<forall>b \<in> set (disabled_buttons p). fst b \<le> Suc (clone p)"
      using disabled by auto
    show "\<forall>b. fst b = Suc (clone p) \<longrightarrow>
        (b \<in> set (disabled_buttons p) \<longleftrightarrow> b \<in> snd ` set (in_flight p))"
      using fresh disabled by (metis Suc_n_not_le_n)
    show "\<forall>r r' b. fst b = Suc (clone p) \<longrightarrow> (r, b) \<in> set (in_flight p)
        \<longrightarrow> (r', b) \<in> set (in_flight p) \<longrightarrow> r = r'"
      using fresh by (metis image_eqI snd_conv)
    show "\<forall>r b b'. (r, b) \<in> set (in_flight p) \<longrightarrow> (r, b') \<in> set (in_flight p) \<longrightarrow> b = b'"
      using assms(1) by (simp add: output_inv_def buttons_ok_def)
  qed
  ultimately show ?thesis by (simp add: output_inv_def)
qed

lemma output_inv_click:
  assumes "output_inv p" and "(clone p, b) \<notin> set (disabled_buttons p)"
  shows "output_inv (state (click_output b attrs p))"
proof (cases "clone_complete p")
  case False
  then show ?thesis using assms(1) by (simp add: click_output_def)
next
  case True
  let ?c = "cancel_output_request p" and ?q = "state (click_output b attrs p)"
  have q: "in_flight ?q = (Suc (request_id p), (clone p, b)) # in_flight p"
    "request_id ?q = Suc (request_id p)" "clone ?q = clone p"
    "aborted ?q = aborted ?c" "abort_controller ?q = Some (Suc (request_id p))"
    "disabled_buttons ?q = (clone p, b) # disabled_buttons p"
    using True by (simp_all add: click_output_def Let_def)
  have c: "output_inv ?c" using assms(1) by (rule output_inv_cancel)
  have old: "r \<le> request_id p" if "(r, x) \<in> set (in_flight p)" for r x
    using assms(1) flights_okD that by (auto simp: output_inv_def)
  have unused: "(clone p, b) \<notin> snd ` set (in_flight p)"
    using assms unfolding output_inv_def buttons_ok_def by (metis fst_conv)
  have "flights_ok ?q"
  proof (rule flights_okI)
    fix r x assume "(r, x) \<in> set (in_flight ?q)"
    then show "r \<le> request_id ?q \<and> fst x \<le> clone ?q
        \<and> (r \<in> set (aborted ?q) \<or> r = request_id ?q \<and> abort_controller ?q = Some r)"
      using c flights_okD [of ?c r x] unfolding output_inv_def q by auto
  qed
  moreover have "controller_ok ?q"
    unfolding controller_ok_def q by simp
  moreover have "buttons_ok ?q"
    unfolding buttons_ok_def q
  proof (intro conjI)
    show "\<forall>x \<in> set ((clone p, b) # disabled_buttons p). fst x \<le> clone p"
      using assms(1) by (simp add: output_inv_def buttons_ok_def)
    show "\<forall>x. fst x = clone p \<longrightarrow>
        (x \<in> set ((clone p, b) # disabled_buttons p)
          \<longleftrightarrow> x \<in> snd ` set ((Suc (request_id p), (clone p, b)) # in_flight p))"
      using assms(1) by (simp add: output_inv_def buttons_ok_def)
    show "\<forall>r r' x. fst x = clone p \<longrightarrow>
        (r, x) \<in> set ((Suc (request_id p), (clone p, b)) # in_flight p) \<longrightarrow>
        (r', x) \<in> set ((Suc (request_id p), (clone p, b)) # in_flight p) \<longrightarrow> r = r'"
    proof (intro allI impI)
      fix r r' x
      assume "fst x = clone p"
        "(r, x) \<in> set ((Suc (request_id p), (clone p, b)) # in_flight p)"
        "(r', x) \<in> set ((Suc (request_id p), (clone p, b)) # in_flight p)"
      moreover have "\<not> (s, (clone p, b)) \<in> set (in_flight p)" for s
        using unused by (metis image_eqI snd_conv)
      moreover have "(r, x) \<in> set (in_flight p) \<Longrightarrow> (r', x) \<in> set (in_flight p) \<Longrightarrow>
          fst x = clone p \<Longrightarrow> r = r'"
        using assms(1) unfolding output_inv_def buttons_ok_def by blast
      ultimately show "r = r'" by auto
    qed
    show "\<forall>r x x'. (r, x) \<in> set ((Suc (request_id p), (clone p, b)) # in_flight p) \<longrightarrow>
        (r, x') \<in> set ((Suc (request_id p), (clone p, b)) # in_flight p) \<longrightarrow> x = x'"
    proof (intro allI impI)
      fix r x x'
      assume "(r, x) \<in> set ((Suc (request_id p), (clone p, b)) # in_flight p)"
        "(r, x') \<in> set ((Suc (request_id p), (clone p, b)) # in_flight p)"
      moreover have "\<not> (Suc (request_id p), y) \<in> set (in_flight p)" for y
        using old Suc_n_not_le_n by blast
      moreover have "(r, x) \<in> set (in_flight p) \<Longrightarrow> (r, x') \<in> set (in_flight p) \<Longrightarrow> x = x'"
        using assms(1) unfolding output_inv_def buttons_ok_def by blast
      ultimately show "x = x'" by (metis prod.inject set_ConsD)
    qed
  qed
  ultimately show ?thesis by (simp add: output_inv_def)
qed

lemma output_answer_books:
  "disabled_buttons (output_answer r (b, result) p) =
     (if fst b = clone p then removeAll b (disabled_buttons p) else disabled_buttons p)"
  "abort_controller (output_answer r (b, result) p) =
     (if r = request_id p then None else abort_controller p)"
  "aborted (output_answer r (b, result) p) = aborted p"
  by (simp_all add: output_answer_def finish_output_def show_output_def show_output_error_def
      focus_on_def Let_def split: output_result.splits)

lemma output_inv_answer:
  assumes "output_inv p" and "(r, b) \<in> set (in_flight p)"
  shows "output_inv (output_answer r (b, result) p)"
proof -
  let ?q = "output_answer r (b, result) p"
  have "flights_ok ?q"
    using assms(1) flights_okD [of p]
    by (intro flights_okI) (auto simp: output_inv_def output_answer_books)
  moreover have "controller_ok ?q"
    using assms(1) by (simp add: output_inv_def controller_ok_def output_answer_books)
  moreover have "buttons_ok ?q"
  proof -
    have inv: "buttons_ok p" using assms(1) by (simp add: output_inv_def)
    have uniq: "r' = r" if "(r', b) \<in> set (in_flight p)" "fst b = clone p" for r'
      using inv assms(2) that unfolding buttons_ok_def by blast
    have own: "b' = b" if "(r, b') \<in> set (in_flight p)" for b'
      using inv assms(2) that unfolding buttons_ok_def by blast
    let ?flying = "filter (\<lambda>(r', b). r' \<noteq> r) (in_flight p)"
    have flying: "x \<in> snd ` set ?flying \<longleftrightarrow> x \<in> snd ` set (in_flight p) \<and> x \<noteq> b"
      if "fst x = clone p" for x :: button
    proof (cases "x = b")
      case True
      then show ?thesis using uniq that by auto
    next
      case False
      then show ?thesis using own by force
    qed
    have sub: "set ?flying \<subseteq> set (in_flight p)" by auto
    show ?thesis
      unfolding buttons_ok_def output_answer_fields output_answer_books
    proof (intro conjI)
      show "\<forall>x. fst x = clone p \<longrightarrow>
          (x \<in> set (if fst b = clone p then removeAll b (disabled_buttons p) else disabled_buttons p))
          = (x \<in> snd ` set ?flying)"
      proof (intro allI impI)
        fix x :: button assume x: "fst x = clone p"
        have "x \<in> set (disabled_buttons p) \<longleftrightarrow> x \<in> snd ` set (in_flight p)"
          using inv x unfolding buttons_ok_def by blast
        then show "(x \<in> set (if fst b = clone p then removeAll b (disabled_buttons p)
            else disabled_buttons p)) = (x \<in> snd ` set ?flying)"
          using x by (simp only: flying [OF x]) auto
      qed
      show "\<forall>s s' x. fst x = clone p \<longrightarrow> (s, x) \<in> set ?flying \<longrightarrow> (s', x) \<in> set ?flying \<longrightarrow> s = s'"
        using inv sub unfolding buttons_ok_def by blast
      show "\<forall>s x x'. (s, x) \<in> set ?flying \<longrightarrow> (s, x') \<in> set ?flying \<longrightarrow> x = x'"
        using inv sub unfolding buttons_ok_def by blast
      show "\<forall>x \<in> set (if fst b = clone p then removeAll b (disabled_buttons p) else disabled_buttons p).
          fst x \<le> clone p"
        using inv unfolding buttons_ok_def by simp
    qed
  qed
  ultimately show ?thesis by (simp add: output_inv_def)
qed

section \<open>Runs\<close>

lemma output_inv_close: "output_inv p \<Longrightarrow> output_inv (on_job_close d p)"
  using output_inv_cancel [of p]
  by (simp add: on_job_close_def unlock_scroll_def focus_opt_def focus_on_def output_inv_defs
      split: option.splits)

lemma output_inv_deliver: "output_inv p \<Longrightarrow> output_inv (deliver_all on_job_close ds p)"
  by (induction ds arbitrary: p) (auto intro: output_inv_close)

lemma output_inv_settle: "output_inv p \<Longrightarrow> output_inv (settle on_job_close p)"
  unfolding settle_def
  by (rule output_inv_deliver) (simp add: output_inv_cong [of "p\<lparr>close_events := []\<rparr>" p])

lemma output_inv_open:
  assumes "output_inv p"
  shows "output_inv (state (open_detail trigger t p))"
proof (cases "templates p t")
  case None
  then show ?thesis using assms by (simp add: open_detail_def)
next
  case (Some u)
  let ?q = "state (open_detail trigger t p)" and ?c = "cancel_output_request p"
  have "clone ?q = Suc (clone ?c)" "in_flight ?q = in_flight ?c" "request_id ?q = request_id ?c"
    "aborted ?q = aborted ?c" "abort_controller ?q = abort_controller ?c"
    "disabled_buttons ?q = disabled_buttons ?c"
    using Some by (auto simp: open_detail_def Let_def show_modal_def lock_scroll_def focus_on_def
        and_then_def split: dialog_state.splits)
  then show ?thesis
    using output_inv_next_clone [OF output_inv_cancel [OF assms]] by blast
qed

lemma output_inv_task:
  assumes "output_inv p" and "job_enabled e p"
  shows "output_inv (settle on_job_close (state (job_act e p)))"
proof (rule output_inv_settle, cases e)
  case (OpenDetail trigger t)
  then show "output_inv (state (job_act e p))" using assms(1) output_inv_open by simp
next
  case (ClickOutput b attrs)
  then show "output_inv (state (job_act e p))" using assms output_inv_click by simp
next
  case CloseJob
  then show "output_inv (state (job_act e p))"
    using assms(1) by (simp add: close_dialog_def output_inv_defs)
next
  case (ScrollOutput g)
  then show "output_inv (state (job_act e p))"
    using assms(1) by (simp add: output_inv_defs)
next
  case (OutputAnswer r button result)
  then show "output_inv (state (job_act e p))" using assms output_inv_answer by simp
qed

lemma output_inv_run: "output_inv p \<Longrightarrow> output_inv (run_job es p)"
  by (induction es arbitrary: p) (auto intro: output_inv_task)

text \<open>A page as loaded: nothing requested yet.\<close>

definition fresh_job_page :: "job_page \<Rightarrow> bool" where
  "fresh_job_page p \<longleftrightarrow>
     calm p \<and> in_flight p = [] \<and> disabled_buttons p = [] \<and> abort_controller p = None"

lemma output_inv_fresh: "fresh_job_page p \<Longrightarrow> output_inv p"
  by (simp add: fresh_job_page_def output_inv_defs)

text \<open>
  C11. Answers in any order. However many output requests are outstanding and in whatever
  order they are answered, with text or with failure, the panel ends up as if only the
  answers to the current request had arrived.
\<close>

theorem output_latest_only:
  "output_shown (answer_all output_answer rs p)
     = output_shown (answer_all output_answer (filter (\<lambda>a. fst a = request_id p) rs) p)"
  by (rule output_requests.shown_answers_current)

text \<open>
  After closing. Once the dialog is closed by the user, the answers that are still on
  their way change nothing on the panel.
\<close>

theorem output_closed_unchanged:
  assumes "calm p" and "dialogs p JobDialog = Modal"
    and "\<forall>a \<in> set rs. fst a \<le> request_id p"
  shows "job_panel (answer_all output_answer rs (run_job [CloseJob] p)) = job_panel p"
proof -
  let ?q = "run_job [CloseJob] p"
  have q: "request_id ?q = Suc (request_id p)" "job_panel ?q = job_panel p"
    using assms(1,2)
    by (simp_all add: page_simps calm_idle on_job_close_def focus_opt_def split: option.splits)
  then have "filter (\<lambda>a. fst a = request_id ?q) rs = []"
    using assms(3) by (auto simp: filter_empty_conv)
  then have "output_shown (answer_all output_answer rs ?q) = output_shown ?q"
    using output_requests.shown_answers_current [of rs ?q] by simp
  then show ?thesis
    using q(2) by (simp add: output_shown_def)
qed

text \<open>
  C26. Buttons. In every run from a loaded page a button of the clone on display is disabled
  exactly while its request is in flight, so no button stays disabled after its answer, and
  at most one request in flight is not aborted.
\<close>

theorem output_buttons_and_flights:
  assumes "fresh_job_page p"
  shows "(let q = run_job es p in
            (\<forall>b. (clone q, b) \<in> set (disabled_buttons q)
               \<longleftrightarrow> (clone q, b) \<in> snd ` set (in_flight q))
          \<and> (\<forall>(r, b) \<in> set (in_flight q). \<forall>(r', b') \<in> set (in_flight q).
               r \<notin> set (aborted q) \<longrightarrow> r' \<notin> set (aborted q) \<longrightarrow> r = r'))"
proof -
  let ?q = "run_job es p"
  have inv: "output_inv ?q"
    using assms output_inv_fresh output_inv_run by blast
  have "(clone ?q, b) \<in> set (disabled_buttons ?q) \<longleftrightarrow> (clone ?q, b) \<in> snd ` set (in_flight ?q)" for b
    using inv unfolding output_inv_def buttons_ok_def by simp
  moreover have "r = request_id ?q"
    if "(r, b) \<in> set (in_flight ?q)" "r \<notin> set (aborted ?q)" for r b
    using inv flights_okD [of ?q r b] that by (auto simp: output_inv_def)
  ultimately show ?thesis
    by (simp add: Let_def split_def) (metis prod.collapse)
qed


definition example_template :: template where
  "example_template = \<lparr>panel_complete = True, has_status = True\<rparr>"

definition example_job_page :: job_page where
  "example_job_page =
     page.extend blank_page
       (job_page.fields (\<lambda>t. if t = ''job-1'' then Some example_template else None)
          ''loading'' ''error'' ''truncated'' 0 False (blank_panel example_template) None 0 None
          [] [] [] [])"

definition stdout_button :: button_attrs where
  "stdout_button = \<lparr>attr_job = ''1'', attr_stream = ''stdout'', attr_label = ''out''\<rparr>"

definition stderr_button :: button_attrs where
  "stderr_button = \<lparr>attr_job = ''1'', attr_stream = ''stderr'', attr_label = ''err''\<rparr>"

lemma example_job_page_fresh: "fresh_job_page example_job_page"
  by (simp add: fresh_job_page_def example_job_page_def page.extend_def job_page.fields_def
      calm_def blank_page_def inert_def)

lemma job_task_open:
  assumes "calm p" and "\<not> inert p" and "templates p t = Some u"
  shows "run_job (OpenDetail trigger t # es) p =
    run_job es (focus_on JobModalClose
      ((lock_scroll ((cancel_output_request p)\<lparr>clone := Suc (clone p),
          clone_complete := panel_complete u, job_panel := blank_panel u,
          job_trigger := Some trigger\<rparr>))\<lparr>dialogs := (dialogs p)(JobDialog := Modal)\<rparr>))"
proof -
  have "dialogs p JobDialog = Closed" "close_events p = []"
    using assms calm_closed calm_idle by blast+
  then show ?thesis
    using assms(2,3)
    by (simp add: open_detail_def Let_def page_simps cancel_output_request_def)
qed

definition opened_example :: job_page where
  "opened_example = run_job [OpenDetail (Node 3) ''job-1''] example_job_page"

lemma opened_example_calm: "calm opened_example"
  unfolding opened_example_def
  by (rule job_dialog.calm_run) (use example_job_page_fresh in \<open>simp add: fresh_job_page_def\<close>)

lemma opened_example_eq:
  "opened_example =
     page.extend
       \<lparr>dialogs = (dialogs blank_page)(JobDialog := Modal), close_events = [], modal_open = True,
        focused = Some JobModalClose\<rparr>
       (job_page.fields (\<lambda>t. if t = ''job-1'' then Some example_template else None)
          ''loading'' ''error'' ''truncated'' 1 True (blank_panel example_template) (Some (Node 3))
          1 None [] [] [] [])"
proof -
  have "calm example_job_page" "\<not> inert example_job_page"
    "templates example_job_page ''job-1'' = Some example_template"
    using example_job_page_fresh
    by (simp_all add: fresh_job_page_def example_job_page_def page.extend_def job_page.fields_def
        blank_page_def inert_def)
  from job_task_open [OF this, of "Node 3" "[]"] show ?thesis
    unfolding opened_example_def
    by (simp add: example_job_page_def page.extend_def job_page.fields_def blank_page_def
        cancel_output_request_def lock_scroll_def focus_on_def example_template_def)
qed

lemma opened_example_fields:
  "dialogs opened_example JobDialog = Modal" "clone_complete opened_example"
  "clone opened_example = 1" "disabled_buttons opened_example = []"
  "request_id opened_example = 1" "in_flight opened_example = []"
  "abort_controller opened_example = None" "aborted opened_example = []"
  "requested opened_example = []" "job_panel opened_example = blank_panel example_template"
  "output_loading opened_example = ''loading''" "output_error opened_example = ''error''"
  "output_truncated opened_example = ''truncated''"
  by (simp_all add: opened_example_eq page.extend_def job_page.fields_def)

theorem output_closed_unchanged_witness:
  "job_panel (answer_all output_answer [(1, ((1, 0), Loaded ''late'' False))]
       (run_job [CloseJob] opened_example)) = blank_panel example_template"
proof -
  have "\<forall>a \<in> set [(1, ((1, 0), Loaded ''late'' False))]. fst a \<le> request_id opened_example"
    by (simp add: opened_example_fields)
  then show ?thesis
    using output_closed_unchanged [OF opened_example_calm opened_example_fields(1)]
    by (simp only: opened_example_fields)
qed

theorem output_buttons_and_flights_witness:
  "(clone opened_example, 0) \<in> set (disabled_buttons opened_example)
     \<longleftrightarrow> (clone opened_example, 0) \<in> snd ` set (in_flight opened_example)"
  using output_buttons_and_flights [OF example_job_page_fresh, of "[OpenDetail (Node 3) ''job-1'']"]
  unfolding Let_def opened_example_def [symmetric] by blast

section \<open>What a click on an output button does\<close>

declare job_act.simps [simp del]

lemma job_task_click:
  assumes "calm p" and "dialogs p JobDialog = Modal" and "(clone p, b) \<notin> set (disabled_buttons p)"
  shows "run_job (ClickOutput b attrs # es) p = run_job es (state (click_output b attrs p))"
proof -
  have "close_events (state (click_output b attrs p)) = []"
    using calm_idle [OF assms(1)] by (simp add: click_output_def Let_def)
  then show ?thesis
    using assms(2,3) by (simp add: job_act.simps settle_idle)
qed

lemma click_output_fields:
  assumes "clone_complete p"
  shows "dialogs (state (click_output b attrs p)) = dialogs p"
    and "close_events (state (click_output b attrs p)) = close_events p"
    and "request_id (state (click_output b attrs p)) = Suc (request_id p)"
    and "clone (state (click_output b attrs p)) = clone p"
    and "in_flight (state (click_output b attrs p)) = (Suc (request_id p), clone p, b) # in_flight p"
    and "disabled_buttons (state (click_output b attrs p)) = (clone p, b) # disabled_buttons p"
    and "requested (state (click_output b attrs p)) =
      requested p @ [(Suc (request_id p), output_url (attr_job attrs) (attr_stream attrs))]"
    and "job_panel (state (click_output b attrs p)) = set_output (output_loading p)
      ((job_panel p)\<lparr>panel_hidden := False, panel_title := attr_label attrs\<rparr>)"
    and "output_error (state (click_output b attrs p)) = output_error p"
    and "output_truncated (state (click_output b attrs p)) = output_truncated p"
  using assms by (simp_all add: click_output_def cancel_output_request_def Let_def)

lemma job_task_answer:
  assumes "close_events p = []" and "(r, button) \<in> set (in_flight p)"
  shows "run_job (OutputAnswer r button result # es) p
    = run_job es (output_answer r (button, result) p)"
  using assms by (simp add: job_act.simps settle_idle)

lemma set_output_fields [simp]:
  "log_content (set_output t v) = t" "log_lines (set_output t v) = log_lines v"
  "log_rendered (set_output t v) = log_rendered v" "log_scrolls (set_output t v) = log_scrolls v"
  "log_status (set_output t v) = map_option (\<lambda>_. []) (log_status v)"
  "panel_title (set_output t w) = panel_title w" "panel_hidden (set_output t w) = panel_hidden w"
  by (simp_all add: set_output_def)

lemma requested_answer [simp]: "requested (output_answer r a p) = requested p"
  by (simp add: output_answer_def finish_output_def show_output_def show_output_error_def
      focus_on_def Let_def split: prod.splits output_result.splits)

lemma render_lazy_log_fields [simp]:
  "log_content (render_lazy_log s v)
     = join_str [LF] (take batch_size (split_str [LF] (normalize_line_endings s)))"
  "panel_title (render_lazy_log s w) = panel_title w"
  "panel_hidden (render_lazy_log s w) = panel_hidden w"
  by (auto simp: render_lazy_log_def render_next_batch_def Let_def min_def)


lemma output_answer_shown:
  assumes "output_fresh r p"
  shows "job_panel (output_answer r (b, Loaded text tr) p) =
      render_lazy_log text
        (if tr then (job_panel p)\<lparr>panel_title :=
             panel_title (job_panel p) @ middle_dot @ output_truncated p\<rparr>
         else job_panel p)"
    and "focused (output_answer r (b, Loaded text tr) p) = Some OutputContent"
    and "job_panel (output_answer r (b, Failed) p) = set_output (output_error p) (job_panel p)"
  using assms
  by (simp_all add: output_answer_def finish_output_def show_output_def show_output_error_def
      focus_on_def Let_def)

text \<open>
  A download that is answered. The click on an enabled output button requests the path
  of that job and stream, shows the panel under the button's label, and its answer fills in
  the first batch of the text, marks a truncated log in the title and moves the focus to it;
  a failed answer shows the dialog's error text instead. Either way the button is enabled
  again and no request can be aborted any more.
\<close>

theorem output_click_answered:
  assumes "calm p" and "dialogs p JobDialog = Modal" and "clone_complete p"
    and "(clone p, b) \<notin> set (disabled_buttons p)"
  shows "(let r = Suc (request_id p);
              q = run_job [ClickOutput b attrs, OutputAnswer r (clone p, b) result] p
          in requested q
               = requested p @ [(r, output_url (attr_job attrs) (attr_stream attrs))]
           \<and> \<not> panel_hidden (job_panel q)
           \<and> (case result of
                Loaded text truncated \<Rightarrow>
                  panel_title (job_panel q) = attr_label attrs
                    @ (if truncated then middle_dot @ output_truncated p else [])
                \<and> log_content (job_panel q)
                    = join_str [LF] (take 220 (split_str [LF] (normalize_line_endings text)))
                \<and> focused q = Some OutputContent
              | Failed \<Rightarrow>
                  panel_title (job_panel q) = attr_label attrs
                \<and> log_content (job_panel q) = output_error p)
           \<and> (clone p, b) \<notin> set (disabled_buttons q)
           \<and> abort_controller q = None)"
proof -
  let ?r = "Suc (request_id p)" and ?c = "state (click_output b attrs p)"
  note c = click_output_fields [OF assms(3), of b attrs]
  have q: "run_job [ClickOutput b attrs, OutputAnswer ?r (clone p, b) result] p
      = output_answer ?r ((clone p, b), result) ?c"
    using calm_idle [OF assms(1)]
    by (simp add: job_task_click [OF assms(1,2,4)] job_task_answer c del: run_tasks.simps(2))
  have fresh: "output_fresh ?r ?c"
    using assms(2) by (simp add: output_fresh_def is_open_def c)
  show ?thesis
    unfolding Let_def q
    by (cases result)
      (simp_all add: output_answer_books c output_answer_shown [OF fresh] batch_size_def)
qed

theorem output_click_answered_witness:
  "log_content (job_panel (run_job
       [ClickOutput 0 stdout_button, OutputAnswer 2 (1, 0) (Loaded (''a'' @ [CR] @ ''b'') True)]
       opened_example)) = ''a'' @ [LF] @ ''b''
 \<and> requested (run_job
       [ClickOutput 0 stdout_button, OutputAnswer 2 (1, 0) (Loaded (''a'' @ [CR] @ ''b'') True)]
       opened_example) = [(2, ''/slurm/jobs/1/output/stdout'')]"
proof -
  have b: "(clone opened_example, 0) \<notin> set (disabled_buttons opened_example)"
    by (simp add: opened_example_fields)
  have u: "output_url ''1'' ''stdout'' = ''/slurm/jobs/1/output/stdout''"
    by code_simp
  show ?thesis
    using output_click_answered [OF opened_example_calm opened_example_fields(1,2) b,
        of stdout_button "Loaded (''a'' @ [CR] @ ''b'') True"]
    by (simp add: Let_def opened_example_fields stdout_button_def u numeral_2_eq_2)
qed

text \<open>
  A stale log under a new title. The click on another output button leaves the
  \<open>onscroll\<close> handler of the log shown before in place. While the new request is under way,
  and also after it has failed, a scroll near the bottom writes the next batch of the old
  log under the new title, over the loading or the error text.
\<close>

theorem stale_log_under_new_title:
  assumes "calm p" and "dialogs p JobDialog = Modal" and "clone_complete p"
    and "(clone p, b) \<notin> set (disabled_buttons p)" and "log_scrolls (job_panel p)"
    and "log_rendered (job_panel p) < length (log_lines (job_panel p))" and "near_bottom g"
    and "es = [] \<or> es = [OutputAnswer (Suc (request_id p)) (clone p, b) Failed]"
  shows "(let q = run_job (ClickOutput b attrs # es @ [ScrollOutput g]) p in
            panel_title (job_panel q) = attr_label attrs
          \<and> log_content (job_panel q)
              = join_str [LF] (take (log_rendered (job_panel p) + 220) (log_lines (job_panel p))))"
proof -
  let ?r = "Suc (request_id p)" and ?c = "state (click_output b attrs p)"
  note c = click_output_fields [OF assms(3), of b attrs]
  have idle: "close_events ?c = []"
    using calm_idle [OF assms(1)] by (simp add: c)
  have fresh: "output_fresh ?r ?c"
    using assms(2) by (simp add: output_fresh_def is_open_def c)
  define m where "m = run_job es ?c"
  have m: "close_events m = []" "dialogs m JobDialog = Modal" "log_scrolls (job_panel m)"
    "log_rendered (job_panel m) = log_rendered (job_panel p)"
    "log_lines (job_panel m) = log_lines (job_panel p)"
    "panel_title (job_panel m) = attr_label attrs"
    using assms(2,5,8) idle
    by (auto simp: m_def job_task_answer c output_answer_shown [OF fresh]
        simp del: run_tasks.simps(2))
  have "run_job (ClickOutput b attrs # es @ [ScrollOutput g]) p = run_job [ScrollOutput g] m"
    by (simp only: job_task_click [OF assms(1,2,4)] run_tasks_append m_def)
  also have "\<dots> = m\<lparr>job_panel := render_next_batch (job_panel m)\<rparr>"
    using m assms(6,7) by (simp add: job_act.simps settle_idle on_scroll_def)
  finally show ?thesis
    using m by (simp add: render_next_batch_def Let_def batch_size_def min_def)
qed

definition long_log_page :: job_page where
  \<comment> \<open>a log of 221 lines is on display, its first batch rendered\<close>
  "long_log_page = opened_example\<lparr>job_panel := (blank_panel example_template)
     \<lparr>log_lines := replicate 221 ''old'', log_rendered := 220, log_scrolls := True\<rparr>\<rparr>"

theorem stale_log_under_new_title_witness:
  "panel_title (job_panel (run_job
       [ClickOutput 1 stderr_button, OutputAnswer 2 (1, 1) Failed, ScrollOutput (100, 50, 40)]
       long_log_page)) = ''err''
 \<and> log_content (job_panel (run_job
       [ClickOutput 1 stderr_button, OutputAnswer 2 (1, 1) Failed, ScrollOutput (100, 50, 40)]
       long_log_page)) = join_str [LF] (replicate 221 ''old'')"
proof -
  have h: "calm long_log_page" "dialogs long_log_page JobDialog = Modal"
    "clone_complete long_log_page" "(clone long_log_page, 1) \<notin> set (disabled_buttons long_log_page)"
    "log_scrolls (job_panel long_log_page)"
    "log_rendered (job_panel long_log_page) < length (log_lines (job_panel long_log_page))"
    "near_bottom (100, 50, 40)"
    using opened_example_calm
    by (simp_all add: long_log_page_def opened_example_fields calm_def inert_def)
  have "request_id long_log_page = 1" "clone long_log_page = 1"
    "log_lines (job_panel long_log_page) = replicate 221 ''old''"
    "log_rendered (job_panel long_log_page) = 220"
    by (simp_all add: long_log_page_def opened_example_fields)
  then show ?thesis
    using stale_log_under_new_title [OF h, of "[OutputAnswer 2 (1, 1) Failed]" stderr_button]
    by (simp add: Let_def stderr_button_def numeral_2_eq_2)
qed

end
