(* ===== verification/Format.thy ===== *)
theory Format
  imports Complex_Main Prelude
begin

text \<open>
  The texts of the resource monitor (\<open>app.js\<close>, lines 262 to 278): CPU times in the format of
  \<open>sstat\<close>, memory sizes in binary units, and \<open>Number.prototype.toFixed\<close>.

  The figures come from 64-bit integers of the server that are never negative, so they are
  natural numbers here; a quotient is an exact rational. JavaScript computes the quotients of
  \<open>formatDuration\<close> and \<open>formatBytes\<close> without rounding error that could show as long as the
  figures stay below \<open>2 ^ 53\<close>.
\<close>

section \<open>formatDuration\<close>

definition clock_text :: "nat list \<Rightarrow> string" where
  "clock_text vs = join_str '':'' (map (\<lambda>v. pad2 (dec v)) vs)"

definition format_duration :: "nat \<Rightarrow> string" where
  "format_duration seconds =
     (let days = seconds div 86400;
          remaining = seconds mod 86400;
          hours = remaining div 3600;
          minutes = (remaining mod 3600) div 60;
          secs = remaining mod 60;
          clock = clock_text [hours, minutes, secs]
      in if days > 0 then dec days @ ''-'' @ clock else clock)"

section \<open>toFixed\<close>

text \<open>
  \<open>x.toFixed(f)\<close> for \<open>|x| < 10 ^ 21\<close>: the integer \<open>n\<close> with \<open>n / 10 ^ f\<close> closest to \<open>|x|\<close>,
  the larger one of two, written with \<open>f\<close> digits after the point.
\<close>

definition fixed_int :: "nat \<Rightarrow> rat \<Rightarrow> nat" where
  "fixed_int f x = nat \<lfloor>\<bar>x\<bar> * 10 ^ f + 1 / 2\<rfloor>"

definition to_fixed :: "nat \<Rightarrow> rat \<Rightarrow> string" where
  "to_fixed f x =
     (let n = fixed_int f x;
          frac = dec (n mod 10 ^ f)
      in (if x < 0 then ''-'' else [])
         @ (if f = 0 then dec n
            else dec (n div 10 ^ f) @ ''.'' @ replicate (f - length frac) CHR ''0'' @ frac))"

lemma fixed_int_close: "\<bar>of_nat (fixed_int f x) / 10 ^ f - \<bar>x\<bar>\<bar> \<le> 1 / (2 * 10 ^ f)"
proof -
  let ?y = "\<bar>x\<bar> * 10 ^ f"
  have "0 \<le> \<lfloor>?y + 1 / 2\<rfloor>" by simp
  then have n: "of_nat (fixed_int f x) = (of_int \<lfloor>?y + 1 / 2\<rfloor> :: rat)"
    by (simp add: fixed_int_def)
  have "\<bar>of_nat (fixed_int f x) - ?y\<bar> \<le> 1 / 2"
    unfolding n by linarith
  moreover have "of_nat (fixed_int f x) / 10 ^ f - \<bar>x\<bar> = (of_nat (fixed_int f x) - ?y) / 10 ^ f"
    by (simp add: diff_divide_distrib)
  ultimately show ?thesis
    by (simp add: abs_divide divide_le_eq)
qed

lemma fixed_int_scaled:
  assumes "0 \<le> x" and "0 < c"
  shows "\<bar>of_nat (fixed_int f x) * c / 10 ^ f - x * c\<bar> \<le> c / (2 * 10 ^ f)"
proof -
  have "\<bar>of_nat (fixed_int f x) / 10 ^ f - x\<bar> * c \<le> 1 / (2 * 10 ^ f) * c"
    using fixed_int_close [of f x] assms by (intro mult_right_mono) simp_all
  then show ?thesis
    using assms(2) by (simp add: abs_mult_pos' algebra_simps)
qed

lemma fixed_int_mono: "0 \<le> x \<Longrightarrow> x \<le> y \<Longrightarrow> fixed_int f x \<le> fixed_int f y"
  by (simp add: fixed_int_def nat_mono floor_mono mult_right_mono)

lemma fixed_int_of_nat [simp]: "fixed_int f (of_nat n) = n * 10 ^ f"
proof -
  have "\<lfloor>(of_nat (n * 10 ^ f) :: rat) + 1 / 2\<rfloor> = int (n * 10 ^ f)"
    by linarith
  then have "\<lfloor>\<bar>of_nat n :: rat\<bar> * 10 ^ f + 1 / 2\<rfloor> = int (n * 10 ^ f)"
    by (simp only: abs_of_nat of_nat_mult of_nat_power of_nat_numeral)
  then show ?thesis by (simp only: fixed_int_def nat_int)
qed

section \<open>formatBytes\<close>

text \<open>
  \<open>Math.log\<close> is approximated as the implementation chooses, so it is a parameter. The
  theorems ask of it what the code relies on: the quotient of the logarithms, rounded down,
  is the number of the largest power of 1024 that does not exceed the size.
\<close>

definition byte_units :: "string list" where
  "byte_units = [''B'', ''KiB'', ''MiB'', ''GiB'', ''TiB'', ''PiB'']"

definition js_index :: "string list \<Rightarrow> int \<Rightarrow> string" where
  \<comment> \<open>an element out of range is \<open>undefined\<close>, which concatenates as that word\<close>
  "js_index xs i = (if 0 \<le> i \<and> i < int (length xs) then xs ! nat i else ''undefined'')"

definition byte_unit :: "(nat \<Rightarrow> rat) \<Rightarrow> nat \<Rightarrow> int" where
  "byte_unit math_log bytes =
     min \<lfloor>math_log bytes / math_log 1024\<rfloor> (int (length byte_units) - 1)"

definition byte_value :: "(nat \<Rightarrow> rat) \<Rightarrow> nat \<Rightarrow> rat" where
  "byte_value math_log bytes = of_nat bytes / 1024 powi (byte_unit math_log bytes)"

definition format_bytes :: "(nat \<Rightarrow> rat) \<Rightarrow> nat \<Rightarrow> string" where
  "format_bytes math_log bytes =
     (if bytes = 0 then ''0 B''
      else
        let unit = byte_unit math_log bytes;
            value = byte_value math_log bytes
        in (if value \<ge> 10 \<or> unit = 0 then to_fixed 0 value else to_fixed 1 value)
           @ '' '' @ js_index byte_units unit)"

definition log_exact :: "(nat \<Rightarrow> rat) \<Rightarrow> nat \<Rightarrow> bool" where
  "log_exact math_log bytes \<longleftrightarrow>
     (\<exists>k. 1024 ^ k \<le> bytes \<and> bytes < 1024 ^ Suc k
        \<and> \<lfloor>math_log bytes / math_log 1024\<rfloor> = int k)"

lemma byte_unit_exact:
  assumes "1024 ^ k \<le> bytes" and "bytes < 1024 ^ Suc k"
    and "\<lfloor>math_log bytes / math_log 1024\<rfloor> = int k"
  shows "byte_unit math_log bytes = int (min k 5)"
    and "byte_value math_log bytes = of_nat bytes / 1024 ^ min k 5"
proof -
  show unit: "byte_unit math_log bytes = int (min k 5)"
    using assms(3) by (simp add: byte_unit_def byte_units_def)
  show "byte_value math_log bytes = of_nat bytes / 1024 ^ min k 5"
    unfolding byte_value_def unit power_int_of_nat by (rule refl)
qed

text \<open>
  Memory sizes. A size is printed in the largest unit it reaches, PiB at most: the number
  in front of the unit is at least 1 and below 1024 for the units below PiB, it has one
  decimal exactly when it is below 10 and the unit is not the byte, and it is never further
  than half of its last digit from the size.
\<close>

theorem format_bytes_accurate:
  assumes "0 < bytes" and "log_exact math_log bytes"
  shows "(let u = nat (byte_unit math_log bytes);
              v = byte_value math_log bytes;
              f = (if v \<ge> 10 \<or> u = 0 then 0 else 1)
          in v = of_nat bytes / 1024 ^ u
           \<and> format_bytes math_log bytes = to_fixed f v @ '' '' @ byte_units ! u
           \<and> u \<le> 5 \<and> 1 \<le> v \<and> (u < 5 \<longrightarrow> v < 1024)
           \<and> \<bar>of_nat (fixed_int f v) * 1024 ^ u / 10 ^ f - (of_nat bytes :: rat)\<bar>
               \<le> 1024 ^ u / (2 * 10 ^ f))"
proof -
  obtain k where k: "1024 ^ k \<le> bytes" "bytes < 1024 ^ Suc k"
    "\<lfloor>math_log bytes / math_log 1024\<rfloor> = int k"
    using assms(2) unfolding log_exact_def by blast
  define u where "u = min k 5"
  let ?v = "of_nat bytes / 1024 ^ u :: rat"
  let ?f = "if ?v \<ge> 10 \<or> u = 0 then 0 else 1 :: nat"
  note e = byte_unit_exact [OF k, folded u_def]
  have unit: "js_index byte_units (int u) = byte_units ! u"
    by (simp add: js_index_def byte_units_def u_def)
  have printed: "format_bytes math_log bytes = to_fixed ?f ?v @ '' '' @ byte_units ! u"
    using assms(1) unfolding format_bytes_def e Let_def unit by simp
  have "(1024 :: nat) ^ u \<le> 1024 ^ k" by (rule power_increasing) (simp_all add: u_def)
  then have "of_nat (1024 ^ u) \<le> (of_nat bytes :: rat)"
    using k(1) by (meson of_nat_le_iff order_trans)
  then have low: "1 \<le> ?v" by simp
  have high: "?v < 1024" if "u < 5"
  proof -
    have "of_nat bytes < (of_nat (1024 ^ Suc k) :: rat)"
      using k(2) of_nat_less_iff by blast
    moreover have "u = k" using that by (simp add: u_def)
    ultimately show ?thesis by (simp add: divide_less_eq)
  qed
  have close: "\<bar>of_nat (fixed_int ?f ?v) * 1024 ^ u / 10 ^ ?f - of_nat bytes\<bar>
      \<le> (1024 ^ u / (2 * 10 ^ ?f) :: rat)"
    using fixed_int_scaled [of ?v "1024 ^ u" ?f] low by (simp del: if_split)
  have u5: "u \<le> 5" by (simp add: u_def)
  have "nat (byte_unit math_log bytes) = u" by (simp only: e(1) nat_int)
  then show ?thesis
    unfolding Let_def e(2) using printed low high close u5 by simp
qed

theorem format_bytes_accurate_witness:
  "log_exact (\<lambda>b. if b < 1024 then 0 else 1) 1536
 \<and> format_bytes (\<lambda>b. if b < 1024 then 0 else 1) 1536 = ''1.5 KiB''"
proof -
  let ?log = "\<lambda>b::nat. if b < 1024 then 0 else 1 :: rat"
  have h: "log_exact ?log 1536"
    unfolding log_exact_def by (rule exI [of _ 1]) simp
  have u: "byte_unit ?log 1536 = 1"
    by (simp add: byte_unit_def byte_units_def)
  have v: "byte_value ?log 1536 = 3 / 2"
    by (simp add: byte_value_def u)
  have n: "fixed_int 1 (3 / 2) = 15"
  proof -
    have "\<lfloor>31 / 2 :: rat\<rfloor> = 15" by (simp add: floor_eq_iff)
    then show ?thesis by (simp add: fixed_int_def)
  qed
  have "to_fixed 1 (3 / 2) = ''1.5''"
    by (simp add: to_fixed_def n [simplified] dec.simps)
  then show ?thesis
    using h format_bytes_accurate [OF _ h] by (simp add: u v Let_def byte_units_def)
qed

end
