(* ===== verification/Chart.thy ===== *)
theory Chart
  imports Format
begin

text \<open>
  The two line charts of the resource monitor (\<open>app.js\<close>, lines 280 to 310 and 342 to 348).
  A series is a list of times (milliseconds) with a value; \<open>None\<close> is a value that is not
  finite, which the charts leave out. Coordinates are exact rationals: the rounding of
  floating-point arithmetic before \<open>toFixed\<close> is not modelled.
\<close>

section \<open>chartPoints\<close>

type_synonym series = "(int \<times> rat option) list"

definition finite_values :: "series \<Rightarrow> (int \<times> rat) list" where
  "finite_values samples = map (\<lambda>s. (fst s, the (snd s))) (filter (\<lambda>s. snd s \<noteq> None) samples)"

definition largest :: "rat list \<Rightarrow> rat" where
  \<comment> \<open>\<open>reduce\<close> with \<open>Math.max\<close> from 0\<close>
  "largest vs = foldl max 0 vs"

definition scale_maximum :: "(int \<times> rat) list \<Rightarrow> rat" where
  \<comment> \<open>\<open>|| 1\<close>\<close>
  "scale_maximum vals = (let m = largest (map snd vals) in if m = 0 then 1 else m)"

definition chart_x :: "(int \<times> rat) list \<Rightarrow> nat \<Rightarrow> int \<Rightarrow> rat" where
  "chart_x vals index t =
     (let first_time = fst (hd vals);
          last_time = fst (last vals);
          time_range = (if last_time > first_time then last_time - first_time else 0)
      in if time_range \<noteq> 0 then 52 + of_int ((t - first_time) * 652) / of_int time_range
         else if length vals = 1 then 378
         else 52 + of_nat (index * 652) / of_nat (length vals - 1))"

definition chart_y :: "(int \<times> rat) list \<Rightarrow> rat \<Rightarrow> rat" where
  "chart_y vals v = 120 - v * 100 / scale_maximum vals"

definition chart_coords :: "series \<Rightarrow> (rat \<times> rat) list" where
  "chart_coords samples =
     (let vals = finite_values samples
      in map (\<lambda>i. (chart_x vals i (fst (vals ! i)), chart_y vals (snd (vals ! i))))
           [0..<length vals])"

definition chart_points :: "series \<Rightarrow> string" where
  "chart_points samples =
     join_str '' '' (map (\<lambda>(x, y). to_fixed 1 x @ '','' @ to_fixed 1 y) (chart_coords samples))"

section \<open>chartMaximum and renderResourceChart\<close>

definition chart_maximum :: "series \<Rightarrow> rat" where
  "chart_maximum samples =
     foldl (\<lambda>m s. case snd s of Some v \<Rightarrow> max m v | None \<Rightarrow> m) 0 samples"

text \<open>The dash is U+2014.\<close>

definition em_dash :: string where
  "em_dash = [CHR 0xE2, CHR 0x80, CHR 0x94]"

record chart =
  chart_line :: string
  axis_maximum :: string
  description :: string

definition render_resource_chart :: "series \<Rightarrow> (rat \<Rightarrow> string) \<Rightarrow> string \<Rightarrow> chart" where
  "render_resource_chart samples formatter empty_label =
     (let maximum = chart_maximum samples;
          has_samples = list_ex (\<lambda>s. snd s \<noteq> None) samples
      in \<lparr>chart_line = chart_points samples,
          axis_maximum = (if has_samples then formatter maximum else em_dash),
          description = (if has_samples then formatter maximum else empty_label)\<rparr>)"

section \<open>Samples of the job\<close>

record sample =
  cpu :: nat          \<comment> \<open>total CPU seconds\<close>
  memory :: nat       \<comment> \<open>bytes\<close>
  time :: int

definition elapsed_seconds :: "sample \<Rightarrow> sample \<Rightarrow> rat" where
  "elapsed_seconds previous s = of_int (time s - time previous) / 1000"

definition cores_between :: "sample \<Rightarrow> sample \<Rightarrow> rat option" where
  "cores_between previous s =
     (let elapsed = elapsed_seconds previous s;
          delta = int (cpu s) - int (cpu previous)
      in if elapsed > 0 \<and> delta \<ge> 0 then Some (of_int delta / elapsed) else None)"

definition cpu_series :: "sample list \<Rightarrow> series" where
  "cpu_series history =
     map (\<lambda>i. if i = 0 then (time (history ! i), None)
              else (time (history ! i), cores_between (history ! (i - 1)) (history ! i)))
       [0..<length history]"

definition memory_series :: "sample list \<Rightarrow> series" where
  "memory_series history = map (\<lambda>s. (time s, Some (of_nat (memory s)))) history"

section \<open>Lemmas\<close>

lemma length_chart_coords: "length (chart_coords samples) = length (finite_values samples)"
  by (simp add: chart_coords_def Let_def)

lemma set_finite_values: "(t, v) \<in> set (finite_values samples) \<longleftrightarrow> (t, Some v) \<in> set samples"
  by (force simp: finite_values_def)

lemma foldl_max_ge: "m \<le> foldl max m vs" for m :: rat
  by (induction vs arbitrary: m) (auto, metis max.bounded_iff order_trans)

lemma foldl_max_upper: "v \<in> set vs \<Longrightarrow> v \<le> foldl max m vs" for m :: rat
proof (induction vs arbitrary: m)
  case (Cons a vs)
  have "max m a \<le> foldl max (max m a) vs" by (rule foldl_max_ge)
  then show ?case using Cons by auto
qed simp

lemma foldl_max_mem: "foldl max m vs = m \<or> foldl max m vs \<in> set vs" for m :: rat
proof (induction vs arbitrary: m)
  case (Cons a vs)
  show ?case using Cons.IH [of "max m a"] by (auto simp: max_def split: if_splits)
qed simp

lemma largest_upper: "v \<in> set vs \<Longrightarrow> v \<le> largest vs"
  by (simp add: largest_def foldl_max_upper)

lemma largest_nonneg: "0 \<le> largest vs"
  by (simp add: largest_def foldl_max_ge)

lemma scale_maximum_pos: "0 < scale_maximum vals"
  using largest_nonneg [of "map snd vals"] by (auto simp: scale_maximum_def Let_def)

lemma scale_maximum_upper: "(t, v) \<in> set vals \<Longrightarrow> v \<le> scale_maximum vals"
  using largest_upper [of v "map snd vals"] by (force simp: scale_maximum_def Let_def)

lemma chart_maximum_largest: "chart_maximum samples = largest (map snd (finite_values samples))"
proof -
  have "foldl (\<lambda>m s. case snd s of Some v \<Rightarrow> max m v | None \<Rightarrow> m) m samples
      = foldl max m (map snd (finite_values samples))" for m
    by (induction samples arbitrary: m) (auto simp: finite_values_def split: option.splits)
  then show ?thesis by (simp add: chart_maximum_def largest_def)
qed

lemma chart_y_bounds:
  assumes "(t, v) \<in> set vals" and "0 \<le> v"
  shows "20 \<le> chart_y vals v \<and> chart_y vals v \<le> 120"
proof -
  have "v * 100 / scale_maximum vals \<le> 100"
    using scale_maximum_upper [OF assms(1)] scale_maximum_pos [of vals]
    by (simp add: pos_divide_le_eq)
  moreover have "0 \<le> v * 100 / scale_maximum vals"
    using assms(2) scale_maximum_pos [of vals] by simp
  ultimately show ?thesis by (simp add: chart_y_def)
qed

lemma chart_x_mono:
  assumes "i \<le> j" and "t \<le> t'"
  shows "chart_x vals i t \<le> chart_x vals j t'"
proof -
  have time: "of_int ((t - c) * 652) / of_int r \<le> (of_int ((t' - c) * 652) / of_int r :: rat)"
    if "0 < r" for c r :: int
    using assms(2) that by (intro divide_right_mono) simp_all
  have index: "of_nat (i * 652) / of_nat m \<le> (of_nat (j * 652) / of_nat m :: rat)" for m
    using assms(1) by (intro divide_right_mono) simp_all
  show ?thesis
  proof (cases "fst (last vals) > fst (hd vals)")
    case True
    then show ?thesis
      using time [of "fst (last vals) - fst (hd vals)" "fst (hd vals)"]
      unfolding chart_x_def Let_def by simp
  next
    case False
    then show ?thesis using index unfolding chart_x_def Let_def by simp
  qed
qed

lemma chart_x_first:
  assumes "vals \<noteq> []"
  shows "52 \<le> chart_x vals 0 (fst (vals ! 0))"
  using assms by (simp add: chart_x_def Let_def hd_conv_nth)

lemma chart_x_last:
  assumes "vals \<noteq> []"
  shows "chart_x vals (length vals - 1) (fst (vals ! (length vals - 1))) \<le> 704"
proof (cases "fst (last vals) > fst (hd vals)")
  case True
  then have "of_int ((fst (last vals) - fst (hd vals)) * 652)
      / of_int (fst (last vals) - fst (hd vals)) = (652 :: rat)"
    by (simp add: field_simps)
  then show ?thesis
    using True assms by (simp add: chart_x_def Let_def last_conv_nth)
next
  case False
  show ?thesis
  proof (cases "length vals = 1")
    case True
    then show ?thesis using False by (simp add: chart_x_def Let_def)
  next
    case len: False
    then have "0 < length vals - 1" using assms by (cases vals) auto
    then have "of_nat ((length vals - 1) * 652) / of_nat (length vals - 1) = (652 :: rat)"
      by (simp add: field_simps)
    then show ?thesis using False len by (simp add: chart_x_def Let_def)
  qed
qed

lemma sorted_finite_values:
  assumes "sorted (map fst samples)"
  shows "sorted (map fst (finite_values samples))"
proof -
  have "map fst (finite_values samples) = map fst (filter (\<lambda>s. snd s \<noteq> None) samples)"
    by (simp add: finite_values_def)
  then show ?thesis using assms by (simp add: sorted_filter)
qed


text \<open>
  The line stays in the plot. For samples in time order with values that are not
  negative, the chart has one point per finite sample, in the order of the samples; every
  point lies in the plot area between the axes (52 to 704 across, 20 to 120 down), and no
  point is left of the one before it.
\<close>

theorem chart_line_in_plot:
  assumes "sorted (map fst samples)" and "\<forall>s \<in> set samples. \<forall>v. snd s = Some v \<longrightarrow> 0 \<le> v"
  shows "length (chart_coords samples) = length (filter (\<lambda>s. snd s \<noteq> None) samples)
       \<and> (\<forall>(x, y) \<in> set (chart_coords samples). 52 \<le> x \<and> x \<le> 704 \<and> 20 \<le> y \<and> y \<le> 120)
       \<and> sorted (map fst (chart_coords samples))"
proof (intro conjI ballI)
  let ?vals = "finite_values samples"
  have times: "fst (?vals ! i) \<le> fst (?vals ! j)" if "i \<le> j" "j < length ?vals" for i j
    using sorted_finite_values [OF assms(1)] that
    by (simp add: sorted_iff_nth_mono)
  show "length (chart_coords samples) = length (filter (\<lambda>s. snd s \<noteq> None) samples)"
    by (simp add: length_chart_coords) (simp add: finite_values_def)
  show "sorted (map fst (chart_coords samples))"
    by (auto simp: chart_coords_def Let_def sorted_iff_nth_mono intro!: chart_x_mono times)
  fix p assume "p \<in> set (chart_coords samples)"
  then obtain i where i: "i < length ?vals"
    and p: "p = (chart_x ?vals i (fst (?vals ! i)), chart_y ?vals (snd (?vals ! i)))"
    by (auto simp: chart_coords_def Let_def)
  have ne: "?vals \<noteq> []" using i by auto
  have "52 \<le> chart_x ?vals i (fst (?vals ! i))"
    using chart_x_first [OF ne] chart_x_mono [of 0 i "fst (?vals ! 0)" "fst (?vals ! i)" ?vals]
      times [of 0 i] i by simp
  moreover have "chart_x ?vals i (fst (?vals ! i)) \<le> 704"
  proof -
    have "chart_x ?vals i (fst (?vals ! i))
        \<le> chart_x ?vals (length ?vals - 1) (fst (?vals ! (length ?vals - 1)))"
      using i by (intro chart_x_mono times) auto
    then show ?thesis using chart_x_last [OF ne] by linarith
  qed
  moreover have "(fst (?vals ! i), snd (?vals ! i)) \<in> set ?vals" using i by simp
  moreover from this have "0 \<le> snd (?vals ! i)"
    using assms(2) set_finite_values [of "fst (?vals ! i)" "snd (?vals ! i)" samples] by force
  ultimately show "case p of (x, y) \<Rightarrow> 52 \<le> x \<and> x \<le> 704 \<and> 20 \<le> y \<and> y \<le> 120"
    using chart_y_bounds unfolding p by blast
qed

theorem chart_line_in_plot_witness:
  "chart_coords [(0, Some 1), (500, None), (1000, Some 4)] = [(52, 95), (704, 20)]
 \<and> sorted (map fst (chart_coords [(0, Some 1), (500, None), (1000, Some 4)]))"
proof
  show "chart_coords [(0, Some 1), (500, None), (1000, Some 4)] = [(52, 95), (704, 20)]"
    by (simp add: chart_coords_def finite_values_def chart_x_def chart_y_def scale_maximum_def
        largest_def Let_def upt_rec)
  show "sorted (map fst (chart_coords [(0, Some 1), (500, None), (1000, Some 4)]))"
    using chart_line_in_plot [of "[(0, Some 1), (500, None), (1000, Some 4)]"] by auto
qed

text \<open>
  The scale. When some value is positive, the axis maximum is the largest value of the
  series, a point with that value touches the top of the plot, and only points with that
  value do.
\<close>

theorem chart_peak_on_top:
  assumes "(t, Some v) \<in> set samples" and "0 < v"
  shows "(\<exists>s \<in> set samples. snd s = Some (chart_maximum samples))
       \<and> (\<forall>s \<in> set samples. \<forall>w. snd s = Some w \<longrightarrow> w \<le> chart_maximum samples)
       \<and> (\<forall>i < length (chart_coords samples).
            snd (chart_coords samples ! i) = 20
              \<longleftrightarrow> snd (finite_values samples ! i) = chart_maximum samples)"
proof -
  let ?vals = "finite_values samples" and ?m = "chart_maximum samples"
  have mem: "v \<in> set (map snd ?vals)"
    using assms(1) set_finite_values [of t v samples] by force
  then have pos: "0 < ?m"
    using largest_upper [OF mem] assms(2) by (simp add: chart_maximum_largest)
  then have scale: "scale_maximum ?vals = ?m"
    by (simp add: scale_maximum_def chart_maximum_largest)
  have "?m \<in> set (map snd ?vals)"
    using pos foldl_max_mem [of 0 "map snd ?vals"] by (simp add: chart_maximum_largest largest_def)
  then obtain t' where "(t', ?m) \<in> set ?vals" by auto
  then have "(t', Some ?m) \<in> set samples" by (simp add: set_finite_values)
  then have top: "\<exists>s \<in> set samples. snd s = Some ?m" by force
  have "w \<le> ?m" if "s \<in> set samples" "snd s = Some w" for s w
  proof -
    have "(fst s, w) \<in> set ?vals" using that by (metis set_finite_values prod.collapse)
    then have "w \<in> set (map snd ?vals)" by force
    then show ?thesis using largest_upper by (simp add: chart_maximum_largest)
  qed
  moreover have "snd (chart_coords samples ! i) = 20 \<longleftrightarrow> snd (?vals ! i) = ?m"
    if "i < length (chart_coords samples)" for i
  proof -
    have "snd (chart_coords samples ! i) = chart_y ?vals (snd (?vals ! i))"
      using that by (simp add: length_chart_coords) (simp add: chart_coords_def Let_def)
    moreover have "120 - w * 100 / ?m = 20 \<longleftrightarrow> w = ?m" for w
    proof -
      have "w * 100 / ?m = 100 \<longleftrightarrow> w = ?m" using pos by (simp add: field_simps)
      then show ?thesis by linarith
    qed
    ultimately show ?thesis by (simp add: chart_y_def scale)
  qed
  ultimately show ?thesis using top by blast
qed

theorem chart_peak_on_top_witness:
  "chart_maximum [(0, Some 1), (500, None), (1000, Some 4)] = 4
 \<and> (\<exists>s \<in> set [(0 :: int, Some 1), (500, None), (1000, Some 4)].
      snd s = Some (chart_maximum [(0, Some 1), (500, None), (1000, Some 4)]))"
proof
  show "chart_maximum [(0, Some 1), (500, None), (1000, Some 4)] = 4"
    by (simp add: chart_maximum_def)
  show "\<exists>s \<in> set [(0 :: int, Some 1), (500, None), (1000, Some 4)].
      snd s = Some (chart_maximum [(0, Some 1), (500, None), (1000, Some 4)])"
  proof -
    have "(0, Some 1) \<in> set [(0, Some 1), (500, None), (1000, Some 4)]" by simp
    from chart_peak_on_top [OF this zero_less_one] show ?thesis by blast
  qed
qed

lemma cpu_series_nonneg: "s \<in> set (cpu_series history) \<Longrightarrow> snd s = Some v \<Longrightarrow> 0 \<le> v"
  by (auto simp: cpu_series_def cores_between_def Let_def split: if_splits)

lemma memory_series_nonneg: "s \<in> set (memory_series history) \<Longrightarrow> snd s = Some v \<Longrightarrow> 0 \<le> v"
  by (auto simp: memory_series_def)

lemma cpu_series_times: "map fst (cpu_series history) = map time history"
  by (rule nth_equalityI) (auto simp: cpu_series_def)

lemma memory_series_times: "map fst (memory_series history) = map time history"
  by (simp add: memory_series_def comp_def)


lemma cores_between_weighted:
  assumes "time a < time b" and "cpu a \<le> cpu b"
  shows "\<exists>v. cores_between a b = Some v \<and> v * (of_int (time b - time a) / 1000) = of_nat (cpu b) - of_nat (cpu a)"
  using assms by (auto simp: cores_between_def elapsed_seconds_def Let_def)

text \<open>
  C35. The CPU chart accounts for the CPU time. For samples with increasing times and a CPU
  counter that never falls, every sample but the first has a value, and the values, each
  multiplied with the thousandth part of the milliseconds since the sample before, add up to the CPU time between the first and the last
  sample.
\<close>

theorem cpu_series_accounts:
  assumes "h \<noteq> []" and "sorted_wrt (<) (map time h)" and "sorted (map cpu h)"
  shows "(\<forall>i. 0 < i \<longrightarrow> i < length h \<longrightarrow> snd (cpu_series h ! i) \<noteq> None)
       \<and> (\<Sum>i \<leftarrow> [1..<length h].
            the (snd (cpu_series h ! i)) * (of_int (time (h ! i) - time (h ! (i - 1))) / 1000))
         = of_nat (cpu (last h)) - of_nat (cpu (hd h))"
proof -
  have step: "\<exists>v. snd (cpu_series h ! i) = Some v
      \<and> v * (of_int (time (h ! i) - time (h ! (i - 1))) / 1000) = of_nat (cpu (h ! i)) - of_nat (cpu (h ! (i - 1)))"
    if "0 < i" "i < length h" for i
  proof -
    have "time (h ! (i - 1)) < time (h ! i)" "cpu (h ! (i - 1)) \<le> cpu (h ! i)"
      using assms(2,3) that by (simp_all add: sorted_wrt_iff_nth_less sorted_iff_nth_mono)
    from cores_between_weighted [OF this] show ?thesis
      using that by (simp add: cpu_series_def)
  qed
  have "(\<Sum>i \<leftarrow> [1..<Suc n]. the (snd (cpu_series h ! i)) * (of_int (time (h ! i) - time (h ! (i - 1))) / 1000))
      = of_nat (cpu (h ! n)) - of_nat (cpu (h ! 0))" if "n < length h" for n
    using that
  proof (induction n)
    case (Suc n)
    obtain v where "snd (cpu_series h ! Suc n) = Some v"
      "v * (of_int (time (h ! Suc n) - time (h ! n)) / 1000) = of_nat (cpu (h ! Suc n)) - of_nat (cpu (h ! n))"
      using step [of "Suc n"] Suc.prems by auto
    then show ?case using Suc by (simp add: diff_divide_distrib)
  qed simp
  from this [of "length h - 1"] show ?thesis
    using assms(1) step by (auto simp: last_conv_nth hd_conv_nth)
qed

theorem cpu_series_accounts_witness:
  "let h = [\<lparr>cpu = 10, memory = 0, time = 0\<rparr>, \<lparr>cpu = 40, memory = 0, time = 5000\<rparr>]
   in the (snd (cpu_series h ! 1)) * 5 = 30 \<and> snd (cpu_series h ! 1) = Some 6"
proof -
  let ?h = "[\<lparr>cpu = 10, memory = 0, time = 0\<rparr>, \<lparr>cpu = 40, memory = 0, time = 5000\<rparr>]"
  have "snd (cpu_series ?h ! 1) \<noteq> None" "the (snd (cpu_series ?h ! 1)) * 5 = 30"
    using cpu_series_accounts [of ?h] by (simp_all add: numeral_2_eq_2)
  then show ?thesis by (auto simp: Let_def)
qed

end
