(* ===== verification/ResourceMonitor.thy ===== *)
theory ResourceMonitor
  imports Browser Chart RequestGuard Uri
begin

text \<open>
  The live resource monitor of a job (\<open>app.js\<close>, lines 242 to 258 and 312 to 415). While its
  dialog is open the page samples the usage of one job: a request, its rendering into texts,
  table and charts, a pause of five seconds, the next request. Requests are numbered;
  opening another job, starting a poll and closing the dialog cancel the request and the
  timer before.
\<close>

section \<open>Data of the server\<close>

record step =
  step_name :: string
  ave_cpu :: string
  total_cpu :: string
  ave_rss :: string
  max_rss :: string
  max_vm_size :: string

record usage =
  sampled_at :: string
  total_cpu_seconds :: nat
  max_rss_bytes :: nat
  steps :: "step list"

text \<open>
  \<open>UsageFailed\<close> is a failed fetch, a status that is not ok or an answer that is no JSON;
  \<open>UsageAborted\<close> is the rejection with the \<open>AbortError\<close>.
\<close>

datatype resource_result = UsageLoaded usage | UsageFailed | UsageAborted

text \<open>
  Functions of the host: \<open>Date.parse\<close> (\<open>None\<close> for \<open>NaN\<close>), \<open>toLocaleTimeString\<close> of a date
  text, and \<open>Math.log\<close>.
\<close>

record browser_env =
  date_parse :: "string \<Rightarrow> int option"
  locale_time :: "string \<Rightarrow> string"
  math_log :: "nat \<Rightarrow> rat"

section \<open>State\<close>

record resource_labels =
  label_empty :: string
  label_error :: string
  label_loading :: string
  label_sampled :: string
  label_cpu :: string
  label_memory :: string

record resource_view =
  cpu_text :: string
  memory_text :: string
  sampled_text :: string
  cpu_rate :: string
  memory_current :: string
  cpu_chart :: chart
  memory_chart :: chart
  usage_table :: "string list list"

record resource_page = page +
  labels :: resource_labels
  resource_timer :: "nat option"
  resource_controller :: "nat option"      \<comment> \<open>the request it aborts\<close>
  resource_request :: nat
  resource_job :: string
  resource_trigger :: "element option"
  resource_history :: "sample list"
  resource_status :: string
  content_hidden :: bool
  job_label :: string
  resource_view :: resource_view
  timers :: "nat list"                     \<comment> \<open>handles of the timers that will still fire\<close>
  next_handle :: nat
  fetches :: "nat list"                    \<comment> \<open>requests without an answer yet\<close>
  cancelled :: "nat list"                  \<comment> \<open>requests aborted\<close>
  fetched :: "(nat \<times> string) list"         \<comment> \<open>the paths requested so far\<close>

section \<open>Operations\<close>

definition cancel_resource_polling :: "resource_page \<Rightarrow> resource_page" where
  "cancel_resource_polling p =
     p\<lparr>resource_request := Suc (resource_request p),
       timers := (case resource_timer p of Some h \<Rightarrow> removeAll h (timers p) | None \<Rightarrow> timers p),
       cancelled :=
         (case resource_controller p of Some r \<Rightarrow> r # cancelled p | None \<Rightarrow> cancelled p),
       resource_timer := None,
       resource_controller := None\<rparr>"

definition slice_last :: "nat \<Rightarrow> 'a list \<Rightarrow> 'a list" where
  \<comment> \<open>\<open>xs.slice(-n)\<close>\<close>
  "slice_last n xs = drop (length xs - n) xs"

definition or_dash :: "string \<Rightarrow> string" where
  "or_dash s = (if s = [] then em_dash else s)"

definition step_row :: "step \<Rightarrow> string list" where
  "step_row s =
     [step_name s, or_dash (ave_cpu s), or_dash (total_cpu s), or_dash (ave_rss s),
      or_dash (max_rss s), or_dash (max_vm_size s)]"

definition cores_text :: "rat \<Rightarrow> string" where
  "cores_text v = to_fixed (if v \<ge> 10 then 0 else 1) v"

definition sample_of :: "browser_env \<Rightarrow> int \<Rightarrow> usage \<Rightarrow> sample" where
  \<comment> \<open>\<open>now\<close> is \<open>Date.now()\<close>\<close>
  "sample_of env now u =
     \<lparr>cpu = total_cpu_seconds u, memory = max_rss_bytes u,
      time = (case date_parse env (sampled_at u) of Some t \<Rightarrow> t | None \<Rightarrow> now)\<rparr>"

definition view_of ::
  "browser_env \<Rightarrow> resource_labels \<Rightarrow> usage \<Rightarrow> sample list \<Rightarrow> resource_view" where
  "view_of env ls u history =
     (let sampled = locale_time env (sampled_at u);
          memory = format_bytes (math_log env) (max_rss_bytes u);
          cpu_samples = cpu_series history
      in \<lparr>cpu_text = format_duration (total_cpu_seconds u),
          memory_text = memory,
          sampled_text = sampled,
          cpu_rate = (case snd (last cpu_samples) of Some v \<Rightarrow> cores_text v | None \<Rightarrow> em_dash),
          memory_current = memory,
          cpu_chart = render_resource_chart cpu_samples cores_text (label_empty ls),
          memory_chart = render_resource_chart (memory_series history)
            (\<lambda>v. format_bytes (math_log env) (nat \<lfloor>v\<rfloor>)) (label_empty ls),
          usage_table = map step_row (steps u)\<rparr>)"

definition summary_text :: "resource_labels \<Rightarrow> resource_view \<Rightarrow> string" where
  "summary_text ls v =
     label_sampled ls @ '' '' @ sampled_text v @ ''; ''
     @ label_cpu ls @ '' '' @ cpu_text v @ ''; ''
     @ label_memory ls @ '' '' @ memory_text v"

definition render_resource_usage ::
  "browser_env \<Rightarrow> int \<Rightarrow> usage \<Rightarrow> resource_page \<Rightarrow> resource_page" where
  "render_resource_usage env now u p =
     (let history = slice_last 24 (resource_history p @ [sample_of env now u]);
          v = view_of env (labels p) u history
      in p\<lparr>resource_history := history, resource_view := v,
           resource_status :=
             (if steps u \<noteq> [] then summary_text (labels p) v else label_empty (labels p)),
           content_hidden := False\<rparr>)"

definition poll_resource_usage :: "resource_page \<Rightarrow> resource_page" where
  "poll_resource_usage p =
     (let p = cancel_resource_polling p;
          r = resource_request p
      in p\<lparr>resource_controller := Some r, fetches := r # fetches p,
           fetched := fetched p @ [(r, resources_url (resource_job p))]\<rparr>)"

definition resource_fresh :: "nat \<Rightarrow> resource_page \<Rightarrow> bool" where
  "resource_fresh r p \<longleftrightarrow> r = resource_request p \<and> is_open ResourceDialog p"

definition show_usage :: "browser_env \<Rightarrow> int \<times> resource_result \<Rightarrow> resource_page \<Rightarrow> resource_page" where
  "show_usage env a p =
     (case snd a of
        UsageLoaded u \<Rightarrow> render_resource_usage env (fst a) u p
      | UsageFailed \<Rightarrow> p\<lparr>resource_status := label_error (labels p)\<rparr>
      | UsageAborted \<Rightarrow> p)"

definition schedule_poll :: "resource_page \<Rightarrow> resource_page" where
  \<comment> \<open>\<open>window.setTimeout(pollResourceUsage, 5000)\<close>\<close>
  "schedule_poll p =
     p\<lparr>resource_controller := None, resource_timer := Some (next_handle p),
       timers := next_handle p # timers p, next_handle := Suc (next_handle p)\<rparr>"

text \<open>
  The answer to request \<open>r\<close>: the reactions of the promise chain of \<open>pollResourceUsage\<close>.
\<close>

definition resource_answer ::
  "browser_env \<Rightarrow> nat \<Rightarrow> int \<times> resource_result \<Rightarrow> resource_page \<Rightarrow> resource_page" where
  "resource_answer env r a p =
     (let p = p\<lparr>fetches := removeAll r (fetches p)\<rparr>
      in if \<not> resource_fresh r p then p else schedule_poll (show_usage env a p))"

definition open_resource :: "element \<Rightarrow> string \<Rightarrow> resource_page \<Rightarrow> resource_page outcome" where
  "open_resource trigger job p =
     and_then
       (show_modal ResourceDialog (lock_scroll
         (p\<lparr>resource_trigger := Some trigger, resource_job := job, resource_history := [],
            content_hidden := True, resource_status := label_loading (labels p),
            job_label := ''#'' @ job\<rparr>)))
       (\<lambda>p. Done (poll_resource_usage (focus_on ResourceClose p)))"

definition on_resource_close :: "dialog \<Rightarrow> resource_page \<Rightarrow> resource_page" where
  "on_resource_close d p =
     (let p = cancel_resource_polling p
      in focus_opt (resource_trigger p) (unlock_scroll (p\<lparr>resource_history := []\<rparr>)))"

datatype resource_event =
  OpenResource element string
| CloseResource
| ResourceAnswer nat int resource_result
| TimerFires nat

fun resource_act ::
  "browser_env \<Rightarrow> resource_event \<Rightarrow> resource_page \<Rightarrow> resource_page outcome" where
  "resource_act env (OpenResource trigger job) p = open_resource trigger job p"
| "resource_act env CloseResource p = Done (close_dialog ResourceDialog p)"
| "resource_act env (ResourceAnswer r now result) p = Done (resource_answer env r (now, result) p)"
| "resource_act env (TimerFires h) p =
     Done (poll_resource_usage (p\<lparr>timers := removeAll h (timers p)\<rparr>))"

fun resource_enabled :: "resource_event \<Rightarrow> resource_page \<Rightarrow> bool" where
  "resource_enabled (OpenResource trigger job) p \<longleftrightarrow> \<not> inert p"
| "resource_enabled CloseResource p \<longleftrightarrow> dialogs p ResourceDialog = Modal"
| "resource_enabled (ResourceAnswer r now result) p \<longleftrightarrow> r \<in> set (fetches p)"
| "resource_enabled (TimerFires h) p \<longleftrightarrow> h \<in> set (timers p)"

abbreviation run_resource ::
  "browser_env \<Rightarrow> resource_event list \<Rightarrow> resource_page \<Rightarrow> resource_page" where
  "run_resource env \<equiv> run_tasks resource_enabled (resource_act env) on_resource_close"

section \<open>What the operations keep\<close>

lemma cancel_resource_fields [simp]:
  "dialogs (cancel_resource_polling p) = dialogs p"
  "close_events (cancel_resource_polling p) = close_events p"
  "modal_open (cancel_resource_polling p) = modal_open p"
  "labels (cancel_resource_polling p) = labels p"
  "resource_request (cancel_resource_polling p) = Suc (resource_request p)"
  "resource_timer (cancel_resource_polling p) = None"
  "resource_controller (cancel_resource_polling p) = None"
  "resource_job (cancel_resource_polling p) = resource_job p"
  "resource_trigger (cancel_resource_polling p) = resource_trigger p"
  "resource_history (cancel_resource_polling p) = resource_history p"
  "resource_status (cancel_resource_polling p) = resource_status p"
  "content_hidden (cancel_resource_polling p) = content_hidden p"
  "job_label (cancel_resource_polling p) = job_label p"
  "resource_view (cancel_resource_polling p) = resource_view p"
  "next_handle (cancel_resource_polling p) = next_handle p"
  "fetches (cancel_resource_polling p) = fetches p"
  "fetched (cancel_resource_polling p) = fetched p"
  by (simp_all add: cancel_resource_polling_def)

lemma poll_fields [simp]:
  "dialogs (poll_resource_usage p) = dialogs p"
  "close_events (poll_resource_usage p) = close_events p"
  "modal_open (poll_resource_usage p) = modal_open p"
  "resource_request (poll_resource_usage p) = Suc (resource_request p)"
  "resource_timer (poll_resource_usage p) = None"
  "resource_controller (poll_resource_usage p) = Some (Suc (resource_request p))"
  "resource_history (poll_resource_usage p) = resource_history p"
  "resource_status (poll_resource_usage p) = resource_status p"
  "fetches (poll_resource_usage p) = Suc (resource_request p) # fetches p"
  "timers (poll_resource_usage p) = timers (cancel_resource_polling p)"
  "cancelled (poll_resource_usage p) = cancelled (cancel_resource_polling p)"
  by (simp_all add: poll_resource_usage_def Let_def)

lemma show_usage_fields [simp]:
  "dialogs (show_usage env a p) = dialogs p"
  "close_events (show_usage env a p) = close_events p"
  "modal_open (show_usage env a p) = modal_open p"
  "labels (show_usage env a p) = labels p"
  "resource_request (show_usage env a p) = resource_request p"
  "resource_timer (show_usage env a p) = resource_timer p"
  "resource_controller (show_usage env a p) = resource_controller p"
  "timers (show_usage env a p) = timers p"
  "next_handle (show_usage env a p) = next_handle p"
  "fetches (show_usage env a p) = fetches p"
  "cancelled (show_usage env a p) = cancelled p"
  by (auto simp: show_usage_def render_resource_usage_def Let_def split: resource_result.splits)

lemma answer_fields [simp]:
  "dialogs (resource_answer env r a p) = dialogs p"
  "close_events (resource_answer env r a p) = close_events p"
  "modal_open (resource_answer env r a p) = modal_open p"
  "labels (resource_answer env r a p) = labels p"
  "resource_request (resource_answer env r a p) = resource_request p"
  "fetches (resource_answer env r a p) = removeAll r (fetches p)"
  "cancelled (resource_answer env r a p) = cancelled p"
  by (simp_all add: resource_answer_def schedule_poll_def Let_def)

interpretation resource_dialog:
  dialog_component "{ResourceDialog}" resource_enabled "resource_act env" on_resource_close
  for env
proof
  fix p :: resource_page and e
  assume p: "calm p" "resource_enabled e p"
  show "well_behaved {ResourceDialog} p (resource_act env e p)"
  proof (cases e)
    case (OpenResource trigger job)
    then have "\<not> inert p" using p(2) by simp
    with calm_closed [OF p(1) this, of ResourceDialog] OpenResource show ?thesis
      by (simp add: open_resource_def well_behaved_def opened_one_def page_simps)
  next
    case CloseResource
    then show ?thesis using p(2) by (simp add: well_behaved_close)
  qed (auto simp: well_behaved_def same_dialogs_def)
qed (auto simp: on_resource_close_def Let_def page_simps)

text \<open>What an answer may change on the screen.\<close>

definition resource_shown ::
  "resource_page \<Rightarrow>
     (sample list \<times> string \<times> bool \<times> resource_view) \<times> resource_labels \<times> dialog_state" where
  "resource_shown p =
     ((resource_history p, resource_status p, content_hidden p, resource_view p),
      labels p, dialogs p ResourceDialog)"

lemma resource_answer_stale:
  "\<not> resource_fresh r p \<Longrightarrow> resource_answer env r a p = p\<lparr>fetches := removeAll r (fetches p)\<rparr>"
  by (simp add: resource_answer_def resource_fresh_def is_open_def)

lemma resource_answer_fresh:
  "resource_fresh r p \<Longrightarrow>
     resource_answer env r a p
       = schedule_poll (show_usage env a (p\<lparr>fetches := removeAll r (fetches p)\<rparr>))"
  by (simp add: resource_answer_def resource_fresh_def is_open_def)

lemma shown_fresh:
  "resource_fresh r p \<Longrightarrow>
     resource_shown (resource_answer env r a p) = resource_shown (show_usage env a p)"
  by (cases "snd a")
    (simp_all add: resource_answer_fresh schedule_poll_def resource_shown_def show_usage_def
      render_resource_usage_def Let_def)

lemma shown_stale:
  "\<not> resource_fresh r p \<Longrightarrow> resource_shown (resource_answer env r a p) = resource_shown p"
  by (simp add: resource_answer_stale resource_shown_def)

lemma show_usage_loaded:
  "resource_history (show_usage env (now, UsageLoaded u) p)
     = slice_last 24 (resource_history p @ [sample_of env now u])"
  "resource_view (show_usage env (now, UsageLoaded u) p)
     = view_of env (labels p) u (slice_last 24 (resource_history p @ [sample_of env now u]))"
  "resource_status (show_usage env (now, UsageLoaded u) p)
     = (if steps u \<noteq> []
        then summary_text (labels p)
          (view_of env (labels p) u (slice_last 24 (resource_history p @ [sample_of env now u])))
        else label_empty (labels p))"
  "\<not> content_hidden (show_usage env (now, UsageLoaded u) p)"
  by (simp_all add: show_usage_def render_resource_usage_def Let_def)

lemma show_usage_other:
  "resource_history (show_usage env (now, UsageFailed) p) = resource_history p"
  "resource_view (show_usage env (now, UsageFailed) p) = resource_view p"
  "resource_status (show_usage env (now, UsageFailed) p) = label_error (labels p)"
  "content_hidden (show_usage env (now, UsageFailed) p) = content_hidden p"
  "show_usage env (now, UsageAborted) p = p"
  by (simp_all add: show_usage_def)

lemma show_usage_cong:
  "resource_shown p = resource_shown q \<Longrightarrow>
     resource_shown (show_usage env a p) = resource_shown (show_usage env a q)"
proof -
  assume "resource_shown p = resource_shown q"
  then have eqs: "resource_history p = resource_history q" "resource_status p = resource_status q"
    "content_hidden p = content_hidden q" "resource_view p = resource_view q"
    "labels p = labels q" "dialogs p ResourceDialog = dialogs q ResourceDialog"
    by (simp_all add: resource_shown_def)
  obtain now result where a: "a = (now, result)" by (cases a)
  show ?thesis
    unfolding a resource_shown_def
    by (cases result) (simp_all only: show_usage_loaded show_usage_other eqs show_usage_fields)
qed

interpretation resource_requests:
  numbered_requests resource_request resource_shown "resource_answer env" cancel_resource_polling
  for env
proof
  fix r :: nat and a :: "int \<times> resource_result" and p q :: resource_page
  show "resource_request (resource_answer env r a p) = resource_request p" by simp
  show "r \<noteq> resource_request p \<Longrightarrow> resource_shown (resource_answer env r a p) = resource_shown p"
    by (simp add: shown_stale resource_fresh_def)
  show "resource_shown p = resource_shown q \<Longrightarrow> resource_request p = resource_request q \<Longrightarrow>
      resource_shown (resource_answer env r a p) = resource_shown (resource_answer env r a q)"
  proof -
    assume h: "resource_shown p = resource_shown q" "resource_request p = resource_request q"
    then have "resource_fresh r p \<longleftrightarrow> resource_fresh r q"
      by (simp add: resource_fresh_def is_open_def resource_shown_def)
    then show ?thesis
      by (metis h(1) shown_fresh shown_stale show_usage_cong)
  qed
  show "resource_request (cancel_resource_polling p) = Suc (resource_request p)" by simp
  show "resource_shown (cancel_resource_polling p) = resource_shown p"
    by (simp add: resource_shown_def)
qed


section \<open>Serial polling\<close>

text \<open>
  The bookkeeping between tasks: the timer in the variable is the only one armed, the
  request of the controller is the only one in flight that is not aborted, and there is
  never both.
\<close>

definition polling_books :: "resource_page \<Rightarrow> bool" where
  "polling_books p \<longleftrightarrow>
     timers p = (case resource_timer p of None \<Rightarrow> [] | Some h \<Rightarrow> [h])
   \<and> (\<forall>r \<in> set (fetches p). r \<le> resource_request p
        \<and> (r \<in> set (cancelled p) \<or> resource_controller p = Some r))
   \<and> (\<forall>r. resource_controller p = Some r \<longrightarrow> r = resource_request p \<and> r \<in> set (fetches p))
   \<and> (\<forall>r \<in> set (cancelled p). r < resource_request p)
   \<and> (resource_timer p = None \<or> resource_controller p = None)"

definition polling_live :: "resource_page \<Rightarrow> bool" where
  "polling_live p \<longleftrightarrow>
     (dialogs p ResourceDialog = Modal
        \<longleftrightarrow> resource_timer p \<noteq> None \<or> resource_controller p \<noteq> None)
   \<and> length (resource_history p) \<le> 24
   \<and> (dialogs p ResourceDialog \<noteq> Modal \<longrightarrow> resource_history p = [])"

definition polling_inv :: "resource_page \<Rightarrow> bool" where
  "polling_inv p \<longleftrightarrow> calm p \<and> polling_books p \<and> polling_live p"

lemma set_cancelled_cancel:
  "set (cancelled (cancel_resource_polling p))
     = set (cancelled p) \<union> set_option (resource_controller p)"
  by (simp add: cancel_resource_polling_def split: option.splits)

lemma timers_cancel:
  "polling_books p \<Longrightarrow> timers (cancel_resource_polling p) = []"
  by (auto simp: polling_books_def cancel_resource_polling_def split: option.splits)

lemma polling_books_cancel:
  assumes "polling_books p"
  shows "polling_books (cancel_resource_polling p)"
  unfolding polling_books_def timers_cancel [OF assms] set_cancelled_cancel cancel_resource_fields
  using assms unfolding polling_books_def by (auto intro: le_SucI less_SucI)

lemma polling_books_poll:
  assumes "polling_books (cancel_resource_polling p)"
  shows "polling_books (poll_resource_usage p)"
  unfolding polling_books_def poll_fields
  using assms unfolding polling_books_def cancel_resource_fields
  by (auto intro: le_SucI)

lemma polling_books_cong:
  "timers q = timers p \<Longrightarrow> resource_timer q = resource_timer p \<Longrightarrow> fetches q = fetches p \<Longrightarrow>
   cancelled q = cancelled p \<Longrightarrow> resource_controller q = resource_controller p \<Longrightarrow>
   resource_request q = resource_request p \<Longrightarrow> polling_books q \<longleftrightarrow> polling_books p"
  by (simp add: polling_books_def)


lemma polling_books_fire:
  assumes "polling_books p" and "h \<in> set (timers p)"
  shows "polling_books (poll_resource_usage (p\<lparr>timers := removeAll h (timers p)\<rparr>))"
proof -
  have h: "resource_timer p = Some h" "timers p = [h]"
    using assms by (auto simp: polling_books_def split: option.splits)
  then have "cancel_resource_polling (p\<lparr>timers := removeAll h (timers p)\<rparr>)
      = cancel_resource_polling p"
    by (simp add: cancel_resource_polling_def split: option.split)
  then show ?thesis
    using polling_books_poll polling_books_cancel [OF assms(1)] by metis
qed

lemma polling_books_answer:
  assumes "polling_books p" and "r \<in> set (fetches p)"
    and "resource_controller p \<noteq> None \<Longrightarrow> is_open ResourceDialog p"
  shows "polling_books (resource_answer env r a p)"
proof (cases "resource_fresh r p")
  case False
  then have "resource_controller p \<noteq> Some r"
    using assms by (auto simp: polling_books_def resource_fresh_def)
  then show ?thesis
    using assms(1) unfolding resource_answer_stale [OF False] polling_books_def by auto
next
  case True
  then have "resource_controller p = Some r"
    using assms(1,2) by (force simp: polling_books_def resource_fresh_def)
  moreover from this have "resource_timer p = None"
    using assms(1) by (auto simp: polling_books_def)
  ultimately show ?thesis
    using assms(1) unfolding resource_answer_fresh [OF True] polling_books_def schedule_poll_def
    by auto
qed

lemma length_slice_last [simp]: "length (slice_last n xs) \<le> n"
  by (simp add: slice_last_def)

lemma history_answer:
  "resource_history (resource_answer env r (now, result) p) =
     (if resource_fresh r p
      then (case result of
              UsageLoaded u \<Rightarrow> slice_last 24 (resource_history p @ [sample_of env now u])
            | _ \<Rightarrow> resource_history p)
      else resource_history p)"
proof (cases "resource_fresh r p")
  case True
  then show ?thesis
    by (cases result) (simp_all add: resource_answer_fresh schedule_poll_def show_usage_loaded
        show_usage_other)
qed (simp add: resource_answer_stale)

text \<open>The tasks of the component, as the state after the queued event.\<close>

abbreviation resource_task :: "browser_env \<Rightarrow> resource_event \<Rightarrow> resource_page \<Rightarrow> resource_page" where
  "resource_task env e p \<equiv> settle on_resource_close (state (resource_act env e p))"

lemma task_open_resource:
  assumes "calm p" and "\<not> inert p"
  shows "resource_task env (OpenResource trigger job) p =
    poll_resource_usage (focus_on ResourceClose
      ((lock_scroll (p\<lparr>resource_trigger := Some trigger, resource_job := job,
          resource_history := [], content_hidden := True,
          resource_status := label_loading (labels p), job_label := ''#'' @ job\<rparr>))
       \<lparr>dialogs := (dialogs p)(ResourceDialog := Modal)\<rparr>))"
  using calm_closed [OF assms, of ResourceDialog] calm_idle [OF assms(1)]
  by (simp add: open_resource_def page_simps)

lemma task_close_resource:
  assumes "calm p" and "dialogs p ResourceDialog = Modal"
  shows "resource_task env CloseResource p =
    on_resource_close ResourceDialog (p\<lparr>dialogs := (dialogs p)(ResourceDialog := Closed)\<rparr>)"
proof -
  have "p\<lparr>dialogs := (dialogs p)(ResourceDialog := Closed), close_events := []\<rparr>
      = p\<lparr>dialogs := (dialogs p)(ResourceDialog := Closed)\<rparr>"
    using calm_idle [OF assms(1)] by (cases p) simp
  moreover have "resource_task env CloseResource p = on_resource_close ResourceDialog
      (p\<lparr>dialogs := (dialogs p)(ResourceDialog := Closed), close_events := []\<rparr>)"
    using assms calm_idle [OF assms(1)] by (simp add: page_simps)
  ultimately show ?thesis by (simp only:)
qed

lemma task_resource_answer:
  "calm p \<Longrightarrow> resource_task env (ResourceAnswer r now result) p
     = resource_answer env r (now, result) p"
  by (simp add: settle_idle calm_idle)

lemma task_timer:
  "calm p \<Longrightarrow> resource_task env (TimerFires h) p
     = poll_resource_usage (p\<lparr>timers := removeAll h (timers p)\<rparr>)"
  by (simp add: settle_idle calm_idle)

declare resource_act.simps [simp del]

lemma polling_inv_task:
  assumes "polling_inv p" and "resource_enabled e p"
  shows "polling_inv (resource_task env e p)"
proof -
  have p: "calm p" "polling_books p" "polling_live p"
    using assms(1) by (simp_all add: polling_inv_def)
  have "calm (resource_task env e p)"
    using p(1) assms(2) by (rule resource_dialog.calm_task)
  moreover have "polling_books (resource_task env e p) \<and> polling_live (resource_task env e p)"
  proof (cases e)
    case (OpenResource trigger job)
    with assms(2) have "\<not> inert p" by simp
    let ?q = "focus_on ResourceClose
      ((lock_scroll (p\<lparr>resource_trigger := Some trigger, resource_job := job,
          resource_history := [], content_hidden := True,
          resource_status := label_loading (labels p), job_label := ''#'' @ job\<rparr>))
       \<lparr>dialogs := (dialogs p)(ResourceDialog := Modal)\<rparr>)"
    have "polling_books ?q \<longleftrightarrow> polling_books p"
      by (rule polling_books_cong) (simp_all add: page_simps)
    then have "polling_books ?q" using p(2) by blast
    then show ?thesis
      unfolding OpenResource task_open_resource [OF p(1) \<open>\<not> inert p\<close>]
      by (simp add: polling_books_poll polling_books_cancel polling_live_def page_simps)
  next
    case CloseResource
    with assms(2) have "dialogs p ResourceDialog = Modal" by simp
    note q = task_close_resource [OF p(1) this, of env]
    let ?p = "p\<lparr>dialogs := (dialogs p)(ResourceDialog := Closed)\<rparr>"
    have "polling_books (cancel_resource_polling ?p)"
      using p(2) by (intro polling_books_cancel) (simp add: polling_books_cong [of ?p p])
    then have "polling_books (on_resource_close ResourceDialog ?p)"
      by (simp add: on_resource_close_def Let_def focus_opt_def focus_on_def unlock_scroll_def
          polling_books_def split: option.splits)
    then show ?thesis
      unfolding CloseResource q
      by (auto simp: polling_live_def on_resource_close_def Let_def focus_opt_def page_simps
          split: option.splits)
  next
    case (ResourceAnswer r now result)
    with assms(2) have r: "r \<in> set (fetches p)" by simp
    have "polling_books (resource_answer env r (now, result) p)"
      using p r by (intro polling_books_answer) (auto simp: polling_live_def is_open_def)
    moreover have "polling_live (resource_answer env r (now, result) p)"
    proof (cases "resource_fresh r p")
      case True
      then have "dialogs p ResourceDialog = Modal"
        using p(1) by (auto simp: resource_fresh_def is_open_def calm_def intro: dialog_state.exhaust)
      moreover have "length (resource_history (resource_answer env r (now, result) p)) \<le> 24"
        using p(3) by (simp add: history_answer polling_live_def split: resource_result.splits)
      ultimately show ?thesis
        by (simp add: polling_live_def) (simp add: resource_answer_fresh True schedule_poll_def)
    next
      case False
      then show ?thesis
        using p(3) by (simp add: polling_live_def resource_answer_stale)
    qed
    ultimately show ?thesis
      unfolding ResourceAnswer task_resource_answer [OF p(1)] by simp
  next
    case (TimerFires h)
    with assms(2) have h: "h \<in> set (timers p)" by simp
    then have "dialogs p ResourceDialog = Modal"
      using p(2,3) by (auto simp: polling_books_def polling_live_def split: option.splits)
    then show ?thesis
      unfolding TimerFires task_timer [OF p(1)]
      using polling_books_fire [OF p(2) h] p(3) by (simp add: polling_live_def)
  qed
  ultimately show ?thesis by (simp add: polling_inv_def)
qed

lemma polling_inv_run: "polling_inv p \<Longrightarrow> polling_inv (run_resource env es p)"
  by (induction es arbitrary: p) (auto intro: polling_inv_task)


text \<open>A page as loaded: no monitor was opened yet.\<close>

definition fresh_resource_page :: "resource_page \<Rightarrow> bool" where
  "fresh_resource_page p \<longleftrightarrow>
     calm p \<and> \<not> inert p \<and> resource_timer p = None \<and> resource_controller p = None
   \<and> timers p = [] \<and> fetches p = [] \<and> cancelled p = [] \<and> resource_history p = []"

lemma polling_inv_fresh: "fresh_resource_page p \<Longrightarrow> polling_inv p"
  by (auto simp: fresh_resource_page_def polling_inv_def polling_books_def polling_live_def inert_def)

text \<open>
  C12. Serial sampling. In every run of the monitor, while its dialog is open there is
  exactly one thing under way, a request that is not aborted or the timer of the next one,
  so sampling neither stops nor overlaps; while the dialog is closed there is nothing.
\<close>

theorem polling_serial:
  assumes "fresh_resource_page p"
  shows "(let q = run_resource env es p in
            length (timers q) + card {r \<in> set (fetches q). r \<notin> set (cancelled q)}
              = (if dialogs q ResourceDialog = Modal then 1 else 0))"
proof -
  let ?q = "run_resource env es p"
  let ?live = "{r \<in> set (fetches ?q). r \<notin> set (cancelled ?q)}"
  have inv: "polling_books ?q" "polling_live ?q"
    using polling_inv_run [OF polling_inv_fresh [OF assms], of env es]
    by (simp_all add: polling_inv_def)
  have live: "?live = set_option (resource_controller ?q)"
    using inv(1) unfolding polling_books_def by fastforce
  show ?thesis
    unfolding Let_def live
    using inv by (cases "resource_timer ?q"; cases "resource_controller ?q")
      (auto simp: polling_books_def polling_live_def)
qed

text \<open>
  Answers in any order. Whatever answers arrive, and in whatever order, samples, status,
  figures and charts end up as if only the answers to the current request had arrived.
\<close>

theorem resource_latest_only:
  "resource_shown (answer_all (resource_answer env) rs p)
     = resource_shown (answer_all (resource_answer env) (filter (\<lambda>a. fst a = resource_request p) rs) p)"
  by (rule resource_requests.shown_answers_current)

section \<open>Rounds of sampling\<close>

fun poll_rounds :: "browser_env \<Rightarrow> (int \<times> usage) list \<Rightarrow> resource_page \<Rightarrow> resource_page" where
  "poll_rounds env [] p = p"
| "poll_rounds env ((now, u) # us) p =
     poll_rounds env us
       (run_resource env
          [ResourceAnswer (resource_request p) now (UsageLoaded u), TimerFires (next_handle p)] p)"

definition sampling :: "resource_page \<Rightarrow> bool" where
  "sampling p \<longleftrightarrow>
     polling_inv p \<and> dialogs p ResourceDialog = Modal
   \<and> resource_controller p = Some (resource_request p)"

lemma slice_last_snoc: "slice_last (Suc n) (slice_last (Suc n) xs @ [x]) = slice_last (Suc n) (xs @ [x])"
proof (cases "length xs \<le> Suc n")
  case True
  then show ?thesis by (simp add: slice_last_def)
next
  case False
  then have "length xs = Suc n + (length xs - Suc n)" by simp
  then obtain k where "length xs = Suc n + k" by blast
  then show ?thesis by (simp add: slice_last_def)
qed

lemma sampling_facts:
  assumes "sampling p"
  shows "calm p" and "resource_request p \<in> set (fetches p)"
    and "resource_fresh (resource_request p) p" and "timers p = []"
proof -
  have p: "calm p" "polling_books p" "dialogs p ResourceDialog = Modal"
    "resource_controller p = Some (resource_request p)"
    using assms by (simp_all add: sampling_def polling_inv_def)
  then show "calm p" "resource_fresh (resource_request p) p"
    by (simp_all add: resource_fresh_def is_open_def)
  show "resource_request p \<in> set (fetches p)"
    using p(2,4) unfolding polling_books_def by blast
  have "resource_timer p = None" using p(2,4) unfolding polling_books_def by auto
  then show "timers p = []" using p(2) by (simp add: polling_books_def)
qed

lemma answer_then_timer:
  assumes "sampling p"
  shows "run_resource env [ResourceAnswer (resource_request p) now result, TimerFires (next_handle p)] p
    = poll_resource_usage ((resource_answer env (resource_request p) (now, result) p)\<lparr>timers := []\<rparr>)"
proof -
  note p = sampling_facts [OF assms]
  let ?q = "resource_answer env (resource_request p) (now, result) p"
  have q: "timers ?q = [next_handle p]"
    using p(4) by (simp add: resource_answer_fresh [OF p(3)] schedule_poll_def)
  have "calm ?q"
    using polling_inv_task [of p "ResourceAnswer (resource_request p) now result" env] assms p(2)
    by (simp add: task_resource_answer [OF p(1)] sampling_def polling_inv_def)
  then show ?thesis
    using p(2) q by (simp add: task_resource_answer [OF p(1)] task_timer)
qed

lemma sampling_round:
  fixes env :: browser_env and now :: int and result :: resource_result
  assumes "sampling p"
  defines "q \<equiv> run_resource env
    [ResourceAnswer (resource_request p) now result, TimerFires (next_handle p)] p"
  shows "sampling q"
    and "resource_history q = (case result of
      UsageLoaded u \<Rightarrow> slice_last 24 (resource_history p @ [sample_of env now u])
    | _ \<Rightarrow> resource_history p)"
    and "resource_job q = resource_job p"
    and "fetched q = fetched p @ [(resource_request q, resources_url (resource_job p))]"
    and "resource_status q
      = resource_status (resource_answer env (resource_request p) (now, result) p)"
    and "resource_view q = resource_view (resource_answer env (resource_request p) (now, result) p)"
proof -
  note p = sampling_facts [OF assms(1)]
  let ?a = "resource_answer env (resource_request p) (now, result) p"
  have q: "q = poll_resource_usage (?a\<lparr>timers := []\<rparr>)"
    unfolding q_def by (rule answer_then_timer [OF assms(1)])
  have keep: "resource_job ?a = resource_job p" "fetched ?a = fetched p"
    by (simp_all add: resource_answer_fresh [OF p(3)] schedule_poll_def show_usage_def
        render_resource_usage_def Let_def split: resource_result.splits)
  have "polling_inv q"
    unfolding q_def by (rule polling_inv_run) (use assms(1) in \<open>simp add: sampling_def\<close>)
  moreover have "dialogs q ResourceDialog = Modal"
    using assms(1) by (simp add: q sampling_def)
  ultimately show "sampling q" by (simp add: sampling_def q)
  show "resource_history q = (case result of
      UsageLoaded u \<Rightarrow> slice_last 24 (resource_history p @ [sample_of env now u])
    | _ \<Rightarrow> resource_history p)"
    using p(3) by (simp add: q history_answer)
  show "resource_job q = resource_job p"
    using keep by (simp add: q poll_resource_usage_def Let_def)
  show "fetched q = fetched p @ [(resource_request q, resources_url (resource_job p))]"
    using keep by (simp add: q poll_resource_usage_def Let_def)
  show "resource_status q = resource_status ?a"
    by (simp add: q)
  show "resource_view q = resource_view ?a"
    by (simp add: q poll_resource_usage_def Let_def)
qed

lemma poll_rounds_history:
  assumes "sampling p" and "resource_history p = slice_last 24 xs"
  shows "resource_history (poll_rounds env us p)
      = slice_last 24 (xs @ map (\<lambda>(now, u). sample_of env now u) us)
    \<and> map snd (fetched (poll_rounds env us p))
      = map snd (fetched p) @ replicate (length us) (resources_url (resource_job p))
    \<and> dialogs (poll_rounds env us p) ResourceDialog = Modal"
  using assms
proof (induction us arbitrary: p xs)
  case Nil
  then show ?case by (simp add: sampling_def)
next
  case (Cons a us)
  obtain now u where a: "a = (now, u)" by (cases a)
  let ?q = "run_resource env
    [ResourceAnswer (resource_request p) now (UsageLoaded u), TimerFires (next_handle p)] p"
  note q = sampling_round [OF Cons.prems(1), where env = env and now = now and result = "UsageLoaded u"]
  have "resource_history ?q = slice_last 24 (xs @ [sample_of env now u])"
    using q(2) Cons.prems(2) slice_last_snoc [of 23] by simp
  from Cons.IH [OF q(1) this] show ?case
    unfolding a poll_rounds.simps using q(3,4) by simp
qed

lemma sampling_open:
  fixes env :: browser_env and trigger :: element and job :: string
  assumes "fresh_resource_page p"
  defines "q \<equiv> run_resource env [OpenResource trigger job] p"
  shows "sampling q" and "resource_history q = []" and "resource_job q = job"
    and "fetched q = fetched p @ [(resource_request q, resources_url job)]"
proof -
  have p: "calm p" "\<not> inert p" using assms(1) by (simp_all add: fresh_resource_page_def)
  have q: "q = resource_task env (OpenResource trigger job) p"
    using p(2) by (simp add: q_def)
  have "polling_inv q"
    unfolding q_def using polling_inv_run polling_inv_fresh [OF assms(1)] by blast
  then show "sampling q"
    unfolding sampling_def by (simp add: q task_open_resource [OF p] page_simps)
  show "resource_history q = []" "resource_job q = job"
    "fetched q = fetched p @ [(resource_request q, resources_url job)]"
    by (simp_all add: q task_open_resource [OF p] page_simps poll_resource_usage_def Let_def)
qed

text \<open>
  The window of samples. After opening the monitor of a job and any number of rounds of
  answer and timer, the samples on display are the last 24 of those the server sent since
  the opening, oldest first, and every request went to the resources of that job.
\<close>

theorem history_window:
  assumes "fresh_resource_page p"
  shows "(let q = poll_rounds env us (run_resource env [OpenResource trigger job] p);
              samples = map (\<lambda>(now, u). sample_of env now u) us
          in resource_history q = drop (length samples - 24) samples
           \<and> map snd (fetched q)
               = map snd (fetched p) @ replicate (Suc (length us)) (resources_url job)
           \<and> dialogs q ResourceDialog = Modal)"
proof -
  note q = sampling_open [OF assms, where env = env and trigger = trigger and job = job]
  have "resource_history (run_resource env [OpenResource trigger job] p) = slice_last 24 []"
    using q(2) by (simp add: slice_last_def)
  from poll_rounds_history [OF q(1) this, of env us] show ?thesis
    unfolding Let_def q(3,4) by (simp add: slice_last_def replicate_app_Cons_same)
qed


text \<open>
  A failing server. A round whose request fails shows the error text and keeps the
  samples, figures and charts as they were; the monitor goes on: the timer has fired and a
  new request for the same job is in flight.
\<close>

theorem failure_keeps_sampling:
  assumes "fresh_resource_page p"
  shows "(let q = poll_rounds env us (run_resource env [OpenResource trigger job] p);
              answered = resource_answer env (resource_request q) (now, UsageFailed) q;
              q' = run_resource env
                [ResourceAnswer (resource_request q) now UsageFailed, TimerFires (next_handle q)] q
          in resource_status q' = label_error (labels q)
           \<and> resource_history q' = resource_history q
           \<and> resource_view q' = resource_view q
           \<and> timers answered = [next_handle q]
           \<and> resource_request q' \<in> set (fetches q')
           \<and> fetched q' = fetched q @ [(resource_request q', resources_url job)])"
proof -
  have rounds: "sampling (poll_rounds env us x) \<and> resource_job (poll_rounds env us x) = resource_job x"
    if "sampling x" for x
    using that
  proof (induction us arbitrary: x)
    case (Cons a us)
    obtain n u where a: "a = (n, u)" by (cases a)
    show ?case
      unfolding a poll_rounds.simps
      using sampling_round(1,3) [OF Cons.prems, where env = env and now = n and result = "UsageLoaded u"]
        Cons.IH by metis
  qed simp
  note o = sampling_open [OF assms, where env = env and trigger = trigger and job = job]
  define q where "q = poll_rounds env us (run_resource env [OpenResource trigger job] p)"
  have s: "sampling q" and job: "resource_job q = job"
    using rounds [OF o(1)] o(3) by (simp_all add: q_def)
  note r = sampling_round [OF s, where env = env and now = now and result = UsageFailed]
  note f = sampling_facts [OF s]
  have shown: "resource_status (resource_answer env (resource_request q) (now, UsageFailed) q)
      = label_error (labels q)"
    "resource_view (resource_answer env (resource_request q) (now, UsageFailed) q) = resource_view q"
    "timers (resource_answer env (resource_request q) (now, UsageFailed) q) = [next_handle q]"
    using f(4) by (simp_all add: resource_answer_fresh [OF f(3)] schedule_poll_def show_usage_other)
  show ?thesis
    unfolding Let_def q_def [symmetric]
    using r(2,4,5,6) sampling_facts(2) [OF r(1)] shown job
    by (simp only: resource_result.case simp_thms)
qed

text \<open>
  Closing. When the user closes the monitor, no timer is armed, every request still in
  flight is aborted, the samples are dropped and the focus returns to the control that
  opened it; answers that still arrive change nothing and start nothing.
\<close>

theorem closing_stops_sampling:
  assumes "fresh_resource_page p"
    and "dialogs (run_resource env es p) ResourceDialog = Modal"
    and "resource_trigger (run_resource env es p) = Some trigger"
    and "\<forall>a \<in> set rs. fst a \<le> resource_request (run_resource env es p)"
  shows "(let q = run_resource env (es @ [CloseResource]) p in
            timers q = [] \<and> set (fetches q) \<subseteq> set (cancelled q) \<and> resource_history q = []
          \<and> focused q = Some trigger \<and> \<not> modal_open q
          \<and> resource_shown (answer_all (resource_answer env) rs q) = resource_shown q)"
proof -
  let ?m = "run_resource env es p"
  let ?q = "run_resource env [CloseResource] ?m"
  have inv: "polling_inv ?m" "polling_inv ?q"
    using polling_inv_run polling_inv_fresh [OF assms(1)] by blast+
  then have calm: "calm ?m" by (simp add: polling_inv_def)
  have q: "?q = on_resource_close ResourceDialog
      (?m\<lparr>dialogs := (dialogs ?m)(ResourceDialog := Closed)\<rparr>)"
    using assms(2) task_close_resource [OF calm assms(2), of env] by simp
  have fields: "dialogs ?q ResourceDialog = Closed" "resource_timer ?q = None"
    "resource_controller ?q = None" "resource_history ?q = []" "focused ?q = Some trigger"
    "\<not> modal_open ?q" "resource_request ?q = Suc (resource_request ?m)"
    unfolding q using assms(3)
    by (simp_all add: on_resource_close_def Let_def focus_opt_def page_simps)
  have books: "polling_books ?q" using inv(2) by (simp add: polling_inv_def)
  have "filter (\<lambda>a. fst a = resource_request ?q) rs = []"
    using assms(4) fields(7) by (auto simp: filter_empty_conv)
  then have "resource_shown (answer_all (resource_answer env) rs ?q) = resource_shown ?q"
    using resource_requests.shown_answers_current [of env rs ?q] by simp
  moreover have "timers ?q = []" "set (fetches ?q) \<subseteq> set (cancelled ?q)"
    using books fields(2,3) by (auto simp: polling_books_def)
  ultimately show ?thesis
    unfolding Let_def run_tasks_append using fields by blast
qed

section \<open>Witnesses\<close>

definition plain_env :: browser_env where
  "plain_env =
     \<lparr>date_parse = (\<lambda>s. None), locale_time = (\<lambda>s. s), math_log = (\<lambda>b. if b < 1024 then 0 else 1)\<rparr>"

definition example_resource_page :: resource_page where
  "example_resource_page =
     page.extend blank_page
       (resource_page.fields
          \<lparr>label_empty = ''no data'', label_error = ''error'', label_loading = ''loading'',
           label_sampled = ''at'', label_cpu = ''CPU'', label_memory = ''memory''\<rparr>
          None None 0 [] None [] [] True []
          \<lparr>cpu_text = [], memory_text = [], sampled_text = [], cpu_rate = [], memory_current = [],
           cpu_chart = \<lparr>chart_line = [], axis_maximum = [], description = []\<rparr>,
           memory_chart = \<lparr>chart_line = [], axis_maximum = [], description = []\<rparr>,
           usage_table = []\<rparr>
          [] 1 [] [] [])"

definition example_usage :: usage where
  "example_usage = \<lparr>sampled_at = ''noon'', total_cpu_seconds = 90, max_rss_bytes = 2048, steps = []\<rparr>"

lemma example_resource_fresh: "fresh_resource_page example_resource_page"
  by (simp add: fresh_resource_page_def example_resource_page_def page.extend_def
      resource_page.fields_def calm_blank_page calm_def blank_page_def inert_def)

lemma example_opened:
  "dialogs (run_resource plain_env [OpenResource (Node 1) ''7''] example_resource_page) ResourceDialog
     = Modal"
  "resource_trigger (run_resource plain_env [OpenResource (Node 1) ''7''] example_resource_page)
     = Some (Node 1)"
  "resource_request (run_resource plain_env [OpenResource (Node 1) ''7''] example_resource_page) = 1"
proof -
  have p: "calm example_resource_page" "\<not> inert example_resource_page"
    using example_resource_fresh by (simp_all add: fresh_resource_page_def)
  show "dialogs (run_resource plain_env [OpenResource (Node 1) ''7''] example_resource_page)
      ResourceDialog = Modal"
    "resource_trigger (run_resource plain_env [OpenResource (Node 1) ''7''] example_resource_page)
      = Some (Node 1)"
    "resource_request (run_resource plain_env [OpenResource (Node 1) ''7''] example_resource_page) = 1"
    using p by (simp_all add: task_open_resource [OF p] page_simps)
      (simp_all add: poll_resource_usage_def cancel_resource_polling_def example_resource_page_def
        page.extend_def resource_page.fields_def Let_def)
qed

theorem polling_serial_witness:
  "(let q = run_resource plain_env [OpenResource (Node 1) ''7''] example_resource_page in
      length (timers q) + card {r \<in> set (fetches q). r \<notin> set (cancelled q)} = 1)"
  using polling_serial [OF example_resource_fresh, of plain_env "[OpenResource (Node 1) ''7'']"]
  unfolding Let_def example_opened(1) by simp

theorem history_window_witness:
  "resource_history (poll_rounds plain_env [(1000, example_usage), (6000, example_usage)]
       (run_resource plain_env [OpenResource (Node 1) ''7''] example_resource_page))
     = [\<lparr>cpu = 90, memory = 2048, time = 1000\<rparr>, \<lparr>cpu = 90, memory = 2048, time = 6000\<rparr>]"
proof -
  have "sample_of plain_env n example_usage = \<lparr>cpu = 90, memory = 2048, time = n\<rparr>" for n
    by (simp add: sample_of_def plain_env_def example_usage_def)
  then show ?thesis
    using history_window [OF example_resource_fresh, of plain_env
        "[(1000, example_usage), (6000, example_usage)]" "Node 1" "''7''"]
    unfolding Let_def by simp
qed

theorem failure_keeps_sampling_witness:
  "(let q = poll_rounds plain_env [(1000, example_usage)]
          (run_resource plain_env [OpenResource (Node 1) ''7''] example_resource_page)
    in resource_history (run_resource plain_env
         [ResourceAnswer (resource_request q) 2000 UsageFailed, TimerFires (next_handle q)] q)
       = resource_history q)"
  using failure_keeps_sampling [OF example_resource_fresh, of plain_env "[(1000, example_usage)]"
      "Node 1" "''7''" 2000]
  unfolding Let_def by blast

theorem closing_stops_sampling_witness:
  "(let q = run_resource plain_env ([OpenResource (Node 1) ''7''] @ [CloseResource])
          example_resource_page
    in timers q = [] \<and> focused q = Some (Node 1)
     \<and> resource_shown (answer_all (resource_answer plain_env)
           [(1, (2000, UsageLoaded example_usage))] q) = resource_shown q)"
proof -
  have "\<forall>a \<in> set [(1, (2000, UsageLoaded example_usage))].
      fst a \<le> resource_request
        (run_resource plain_env [OpenResource (Node 1) ''7''] example_resource_page)"
    by (simp only: example_opened(3)) simp
  from closing_stops_sampling [OF example_resource_fresh example_opened(1,2) this]
  show ?thesis unfolding Let_def by blast
qed

end
