(* ===== verification/Confirm.thy ===== *)
theory Confirm
  imports Browser
begin

text \<open>
  Confirmation of dangerous operations (\<open>app.js\<close>, lines 68 to 120). A form that carries
  \<open>data-confirm\<close> is held back on submission; the question is asked in the dialog
  \<open>#confirm-modal\<close>, or by \<open>window.confirm\<close> where the page lacks the dialog; an accepted
  form gets the hidden input \<open>confirmed=true\<close> and is submitted again.
\<close>

section \<open>State\<close>

record form =
  form_question :: string                       \<comment> \<open>the attribute \<open>data-confirm\<close>\<close>
  form_confirmed :: bool                        \<comment> \<open>\<open>dataset.confirmed === 'true'\<close>\<close>
  form_inputs :: "(string \<times> string) list"       \<comment> \<open>name and value of the inputs\<close>

text \<open>
  A submitter is the button of the submission with the name and value it contributes to
  the form data set, if it has a name.
\<close>

type_synonym submitter = "element \<times> (string \<times> string) option"

record confirm_page = page +
  forms :: "nat \<Rightarrow> form"
  has_modal :: bool
  has_message :: bool
  has_accept :: bool
  has_request_submit :: bool                    \<comment> \<open>the browser knows \<open>requestSubmit\<close>\<close>
  attached :: "element \<Rightarrow> bool"                 \<comment> \<open>\<open>document.body.contains\<close>\<close>
  message :: string
  pending_form :: "nat option"
  pending_trigger :: "element option"
  sent :: "(nat \<times> (string \<times> string) list) list" \<comment> \<open>submissions that left the page\<close>

section \<open>Operations\<close>

definition update_form :: "nat \<Rightarrow> (form \<Rightarrow> form) \<Rightarrow> confirm_page \<Rightarrow> confirm_page" where
  "update_form f g p = p\<lparr>forms := (forms p)(f := g (forms p f))\<rparr>"

definition append_confirmed_input :: "form \<Rightarrow> form" where
  "append_confirmed_input fm =
     (if ''confirmed'' \<in> fst ` set (form_inputs fm) then fm
      else fm\<lparr>form_inputs := form_inputs fm @ [(''confirmed'', ''true'')]\<rparr>)"

definition mark_confirmed :: "form \<Rightarrow> form" where
  "mark_confirmed fm = (append_confirmed_input fm)\<lparr>form_confirmed := True\<rparr>"

text \<open>
  What the browser sends: the inputs of the form and, when there is one, the entry of the
  submitter. \<open>form.submit()\<close> and \<open>form.requestSubmit()\<close> without argument have none.
\<close>

definition form_data :: "form \<Rightarrow> submitter option \<Rightarrow> (string \<times> string) list" where
  "form_data fm sub =
     form_inputs fm
     @ (case sub of Some (_, Some entry) \<Rightarrow> [entry] | _ \<Rightarrow> [])"

definition send :: "nat \<Rightarrow> submitter option \<Rightarrow> confirm_page \<Rightarrow> confirm_page" where
  "send f sub p = p\<lparr>sent := sent p @ [(f, form_data (forms p f) sub)]\<rparr>"

definition dialog_usable :: "confirm_page \<Rightarrow> bool" where
  "dialog_usable p \<longleftrightarrow> has_modal p \<and> has_message p \<and> has_accept p"

definition or_else :: "'a option \<Rightarrow> 'a option \<Rightarrow> 'a option" where
  "or_else a b = (case a of Some x \<Rightarrow> Some x | None \<Rightarrow> b)"

text \<open>
  The \<open>submit\<close> event of form \<open>f\<close>, and the default action when the listener lets it
  through. \<open>active\<close> is \<open>document.activeElement\<close>, \<open>answer\<close> what \<open>window.confirm\<close> returns.
\<close>

definition on_submit ::
  "nat \<Rightarrow> submitter option \<Rightarrow> element option \<Rightarrow> bool \<Rightarrow> confirm_page \<Rightarrow> confirm_page outcome" where
  "on_submit f sub active answer p =
     (if form_confirmed (forms p f) then Done (send f sub p)
      else if \<not> dialog_usable p then
        (if \<not> answer then Done p
         else Done (send f None (update_form f mark_confirmed p)))
      else
        and_then
          (show_modal ConfirmDialog (lock_scroll
            (p\<lparr>pending_form := Some f,
               pending_trigger := or_else (map_option fst sub) active,
               message := form_question (forms p f)\<rparr>)))
          (\<lambda>p. Done (focus_on ConfirmAccept p)))"

text \<open>
  The click on accept. \<open>valid\<close> is the outcome of the constraint validation that
  \<open>requestSubmit\<close> runs before it fires the \<open>submit\<close> event.
\<close>

definition on_accept :: "bool \<Rightarrow> confirm_page \<Rightarrow> confirm_page outcome" where
  "on_accept valid p =
     (case pending_form p of
        None \<Rightarrow> Done p
      | Some f \<Rightarrow>
          let q = close_dialog ConfirmDialog (update_form f mark_confirmed p)
          in if has_request_submit q
             then (if valid then on_submit f None None False q else Done q)
             else Done (send f None q))"

definition on_confirm_close :: "dialog \<Rightarrow> confirm_page \<Rightarrow> confirm_page" where
  "on_confirm_close d p =
     (let q = unlock_scroll p;
          q = (case pending_trigger q of
                 Some t \<Rightarrow> (if attached q t then focus_on t q else q)
               | None \<Rightarrow> q)
      in q\<lparr>pending_form := None, pending_trigger := None\<rparr>)"

datatype confirm_event =
  Submit nat "submitter option" "element option" bool
| Accept bool
| Dismiss   \<comment> \<open>backdrop, a \<open>[data-confirm-close]\<close> control, or the Escape key\<close>

fun confirm_act :: "confirm_event \<Rightarrow> confirm_page \<Rightarrow> confirm_page outcome" where
  "confirm_act (Submit f sub active answer) p = on_submit f sub active answer p"
| "confirm_act (Accept valid) p = on_accept valid p"
| "confirm_act Dismiss p = Done (close_dialog ConfirmDialog p)"

text \<open>
  The listeners of the dialog exist when the page has the dialog and its accept button;
  the forms stand outside of every dialog.
\<close>

fun confirm_enabled :: "confirm_event \<Rightarrow> confirm_page \<Rightarrow> bool" where
  "confirm_enabled (Submit f sub active answer) p \<longleftrightarrow> \<not> inert p"
| "confirm_enabled (Accept valid) p \<longleftrightarrow>
     has_modal p \<and> has_accept p \<and> dialogs p ConfirmDialog = Modal"
| "confirm_enabled Dismiss p \<longleftrightarrow>
     has_modal p \<and> has_accept p \<and> dialogs p ConfirmDialog = Modal"

abbreviation run_confirm :: "confirm_event list \<Rightarrow> confirm_page \<Rightarrow> confirm_page" where
  "run_confirm \<equiv> run_tasks confirm_enabled confirm_act on_confirm_close"

abbreviation confirm_task :: "confirm_event \<Rightarrow> confirm_page \<Rightarrow> confirm_page" where
  "confirm_task e p \<equiv> settle on_confirm_close (state (confirm_act e p))"

section \<open>The contract of the dialog\<close>

lemmas confirm_defs =
  on_submit_def on_accept_def on_confirm_close_def update_form_def send_def Let_def

lemma on_submit_asks:
  assumes "calm p" and "\<not> inert p" and "\<not> form_confirmed (forms p f)" and "dialog_usable p"
  shows "on_submit f sub active answer p =
    Done (focus_on ConfirmAccept
      (p\<lparr>pending_form := Some f, pending_trigger := or_else (map_option fst sub) active,
         message := form_question (forms p f), modal_open := True,
         dialogs := (dialogs p)(ConfirmDialog := Modal)\<rparr>))"
  using assms calm_closed [OF assms(1,2), of ConfirmDialog]
  by (simp add: on_submit_def page_simps)

lemma on_submit_confirmed:
  "form_confirmed (forms p f) \<Longrightarrow> on_submit f sub active answer p = Done (send f sub p)"
  by (simp add: on_submit_def)

lemma mark_confirmed_confirmed [simp]: "form_confirmed (mark_confirmed fm)"
  by (simp add: mark_confirmed_def)

lemma mark_confirmed_question [simp]: "form_question (mark_confirmed fm) = form_question fm"
  by (simp add: mark_confirmed_def append_confirmed_input_def)

lemma same_dialogs_send [simp]: "same_dialogs p (send f sub q) = same_dialogs p q"
  by (simp add: same_dialogs_def send_def)

lemma same_dialogs_update [simp]: "same_dialogs p (update_form f g p)"
  by (simp add: same_dialogs_def update_form_def)

lemma well_behaved_submit:
  assumes "calm p" and "\<not> inert p"
  shows "well_behaved {ConfirmDialog} p (on_submit f sub active answer p)"
proof (cases "form_confirmed (forms p f) \<or> \<not> dialog_usable p")
  case True
  then show ?thesis by (auto simp: on_submit_def well_behaved_def)
next
  case False
  with assms show ?thesis
    by (auto simp: on_submit_asks well_behaved_def opened_one_def focus_on_def)
qed

lemma on_accept_pending:
  assumes "pending_form p = Some f"
  shows "on_accept valid p =
    Done (let q = close_dialog ConfirmDialog (update_form f mark_confirmed p)
          in if has_request_submit p \<and> \<not> valid then q else send f None q)"
proof -
  let ?q = "close_dialog ConfirmDialog (update_form f mark_confirmed p)"
  have "form_confirmed (forms ?q f)" "has_request_submit ?q = has_request_submit p"
    by (simp_all add: close_dialog_def update_form_def)
  then show ?thesis
    using assms by (simp add: on_accept_def Let_def on_submit_confirmed)
qed

lemma well_behaved_accept:
  assumes "dialogs p ConfirmDialog = Modal"
  shows "well_behaved {ConfirmDialog} p (on_accept valid p)"
proof (cases "pending_form p")
  case None
  then show ?thesis by (auto simp: on_accept_def well_behaved_def)
next
  case (Some f)
  with assms show ?thesis
    by (auto simp: on_accept_pending well_behaved_def closed_one_def Let_def send_def update_form_def
        page_simps)
qed

interpretation confirmation:
  dialog_component "{ConfirmDialog}" confirm_enabled confirm_act on_confirm_close
proof
  fix p :: confirm_page and e
  assume "calm p" "confirm_enabled e p"
  then show "well_behaved {ConfirmDialog} p (confirm_act e p)"
    by (cases e) (simp_all add: well_behaved_submit well_behaved_accept well_behaved_close)
qed (auto simp: on_confirm_close_def Let_def page_simps split: option.splits)

section \<open>What a task does\<close>

lemma task_submit_asks:
  assumes "calm p" and "\<not> inert p" and "\<not> form_confirmed (forms p f)" and "dialog_usable p"
  shows "confirm_task (Submit f sub active answer) p =
    focus_on ConfirmAccept
      (p\<lparr>pending_form := Some f, pending_trigger := or_else (map_option fst sub) active,
         message := form_question (forms p f), modal_open := True,
         dialogs := (dialogs p)(ConfirmDialog := Modal)\<rparr>)"
  using assms by (simp add: on_submit_asks settle_idle focus_on_def calm_idle)

lemma task_submit_let_through:
  assumes "calm p" and "form_confirmed (forms p f)"
  shows "confirm_task (Submit f sub active answer) p = send f sub p"
  using assms by (simp add: on_submit_confirmed settle_idle send_def calm_idle)

lemma task_submit_fallback:
  assumes "calm p" and "\<not> form_confirmed (forms p f)" and "\<not> dialog_usable p"
  shows "confirm_task (Submit f sub active answer) p =
    (if answer then send f None (update_form f mark_confirmed p) else p)"
  using assms by (simp add: on_submit_def settle_idle send_def update_form_def calm_idle)

lemma close_fields [simp]:
  "forms (on_confirm_close d p) = forms p"
  "sent (on_confirm_close d p) = sent p"
  "pending_form (on_confirm_close d p) = None"
  "pending_trigger (on_confirm_close d p) = None"
  "message (on_confirm_close d p) = message p"
  "has_request_submit (on_confirm_close d p) = has_request_submit p"
  "dialogs (on_confirm_close d p) = dialogs p"
  by (auto simp: on_confirm_close_def Let_def page_simps split: option.splits)

lemma task_accept_fields:
  assumes "calm p" and "dialogs p ConfirmDialog = Modal" and "pending_form p = Some f"
  shows "forms (confirm_task (Accept valid) p) = (forms p)(f := mark_confirmed (forms p f))"
    and "sent (confirm_task (Accept valid) p) =
      sent p @ (if has_request_submit p \<and> \<not> valid then []
                else [(f, form_data (mark_confirmed (forms p f)) None)])"
    and "dialogs (confirm_task (Accept valid) p) = (dialogs p)(ConfirmDialog := Closed)"
  using assms
  by (simp_all add: on_accept_pending Let_def update_form_def send_def page_simps calm_idle)

lemma task_dismiss_fields:
  assumes "calm p" and "dialogs p ConfirmDialog = Modal"
  shows "forms (confirm_task Dismiss p) = forms p"
    and "sent (confirm_task Dismiss p) = sent p"
    and "dialogs (confirm_task Dismiss p) = (dialogs p)(ConfirmDialog := Closed)"
  using assms by (simp_all add: page_simps calm_idle)

declare confirm_act.simps [simp del]

section \<open>No submission without the user's consent\<close>

text \<open>
  Consent to form \<open>f\<close>: a click on accept while the dialog shows the question of \<open>f\<close> and
  holds \<open>f\<close>; without a usable dialog, a submission of \<open>f\<close> that \<open>window.confirm\<close> affirms.
\<close>

fun consents :: "nat \<Rightarrow> confirm_event \<Rightarrow> confirm_page \<Rightarrow> bool" where
  "consents f (Accept valid) p \<longleftrightarrow>
     dialogs p ConfirmDialog = Modal \<and> pending_form p = Some f
   \<and> message p = form_question (forms p f)"
| "consents f (Submit f' sub active answer) p \<longleftrightarrow> f' = f \<and> answer \<and> \<not> dialog_usable p"
| "consents f Dismiss p \<longleftrightarrow> False"

definition asks_pending :: "confirm_page \<Rightarrow> bool" where
  "asks_pending p \<longleftrightarrow>
     (dialogs p ConfirmDialog = Modal \<longrightarrow>
        (\<exists>f. pending_form p = Some f \<and> message p = form_question (forms p f)))"

definition marks_ok :: "confirm_page \<Rightarrow> bool" where
  "marks_ok p \<longleftrightarrow>
     (\<forall>f. (form_confirmed (forms p f) \<longrightarrow> (''confirmed'', ''true'') \<in> set (form_inputs (forms p f)))
        \<and> (\<not> form_confirmed (forms p f) \<longrightarrow> ''confirmed'' \<notin> fst ` set (form_inputs (forms p f))))
   \<and> (\<forall>(f, d) \<in> set (sent p). form_confirmed (forms p f) \<and> (''confirmed'', ''true'') \<in> set d)"

lemma mark_confirmed_inputs:
  "''confirmed'' \<notin> fst ` set (form_inputs fm) \<or> (''confirmed'', ''true'') \<in> set (form_inputs fm) \<Longrightarrow>
     (''confirmed'', ''true'') \<in> set (form_inputs (mark_confirmed fm))"
  by (auto simp: mark_confirmed_def append_confirmed_input_def)

lemma set_form_data: "set (form_inputs fm) \<subseteq> set (form_data fm sub)"
  by (auto simp: form_data_def)

lemma marks_ok_mark:
  assumes "marks_ok p"
  shows "marks_ok (update_form f mark_confirmed p)"
proof -
  have "(''confirmed'', ''true'') \<in> set (form_inputs (mark_confirmed (forms p f)))"
    using assms mark_confirmed_inputs [of "forms p f"] by (meson marks_ok_def)
  then show ?thesis
    using assms by (auto simp: marks_ok_def update_form_def)
qed

lemma marks_ok_send:
  assumes "marks_ok p" and "form_confirmed (forms p f)"
  shows "marks_ok (send f sub p)"
  using assms set_form_data [of "forms p f" sub] by (auto simp: marks_ok_def send_def)

lemma marks_ok_fields:
  "forms q = forms p \<Longrightarrow> sent q = sent p \<Longrightarrow> marks_ok q \<longleftrightarrow> marks_ok p"
  by (simp add: marks_ok_def)

lemma marks_ok_mark_send:
  "marks_ok p \<Longrightarrow> marks_ok (send f sub (update_form f mark_confirmed p))"
  by (rule marks_ok_send [OF marks_ok_mark]) (simp_all add: update_form_def)

text \<open>One enabled task: what it preserves, and which forms it may mark or send.\<close>

lemma submit_task_cases:
  assumes "calm p" and "\<not> inert p"
  obtains
    (through) "form_confirmed (forms p f)" "confirm_task (Submit f sub active answer) p = send f sub p"
  | (ask) "dialog_usable p" "\<not> form_confirmed (forms p f)"
      "forms (confirm_task (Submit f sub active answer) p) = forms p"
      "sent (confirm_task (Submit f sub active answer) p) = sent p"
      "pending_form (confirm_task (Submit f sub active answer) p) = Some f"
      "message (confirm_task (Submit f sub active answer) p) = form_question (forms p f)"
  | (yes) "\<not> dialog_usable p" "answer" "\<not> form_confirmed (forms p f)"
      "confirm_task (Submit f sub active answer) p = send f None (update_form f mark_confirmed p)"
  | (no) "confirm_task (Submit f sub active answer) p = p"
proof (cases "form_confirmed (forms p f)")
  case True
  then show ?thesis using that(1) task_submit_let_through assms(1) by blast
next
  case unmarked: False
  show ?thesis
  proof (cases "dialog_usable p")
    case True
    then show ?thesis
      using that(2) unmarked task_submit_asks [OF assms unmarked True]
      by (simp add: focus_on_def)
  next
    case False
    then show ?thesis
      using that(3,4) unmarked task_submit_fallback [OF assms(1) unmarked False]
      by (cases answer) simp_all
  qed
qed

lemma submit_task_marks:
  assumes "calm p" and "\<not> inert p" and "marks_ok p"
  shows "marks_ok (confirm_task (Submit f sub active answer) p)"
  using assms(1,2)
proof (cases rule: submit_task_cases [where f = f and sub = sub and active = active
      and answer = answer])
  case through
  then show ?thesis using assms(3) by (simp only: marks_ok_send)
next
  case ask
  then show ?thesis using assms(3) marks_ok_fields by blast
next
  case yes
  then show ?thesis using assms(3) by (simp only: marks_ok_mark_send)
next
  case no
  then show ?thesis using assms(3) by simp
qed

lemma submit_task_asks:
  assumes "calm p" and "\<not> inert p"
  shows "asks_pending (confirm_task (Submit f sub active answer) p)"
proof -
  have closed: "dialogs p ConfirmDialog = Closed"
    using assms calm_closed by blast
  from assms show ?thesis
  proof (cases rule: submit_task_cases [where f = f and sub = sub and active = active
        and answer = answer])
    case ask
    then show ?thesis by (simp add: asks_pending_def)
  next
    case through
    then show ?thesis using closed by (simp only:) (simp add: asks_pending_def send_def)
  next
    case yes
    then show ?thesis using closed
      by (simp only:) (simp add: asks_pending_def send_def update_form_def)
  next
    case no
    then show ?thesis using closed by (simp add: asks_pending_def)
  qed
qed

lemma confirm_task_marks:
  assumes "calm p" and "confirm_enabled e p" and "asks_pending p" and "marks_ok p"
  shows "marks_ok (confirm_task e p)"
proof (cases e)
  case (Submit f sub active answer)
  then show ?thesis using submit_task_marks assms by simp
next
  case (Accept valid)
  with assms(2,3) obtain f where f: "dialogs p ConfirmDialog = Modal" "pending_form p = Some f"
    by (auto simp: asks_pending_def)
  let ?q = "update_form f mark_confirmed p"
  have "marks_ok ?q" "marks_ok (send f None ?q)"
    using assms(4) marks_ok_mark marks_ok_mark_send by blast+
  moreover have "\<exists>r \<in> {?q, send f None ?q}.
      forms (confirm_task e p) = forms r \<and> sent (confirm_task e p) = sent r"
    using task_accept_fields [OF assms(1) f, of valid] Accept
    by (simp add: update_form_def send_def)
  ultimately show ?thesis
    using marks_ok_fields by blast
next
  case Dismiss
  with assms(2) have "dialogs p ConfirmDialog = Modal" by simp
  then show ?thesis
    using task_dismiss_fields [OF assms(1)] assms(4) Dismiss marks_ok_fields by metis
qed

lemma confirm_task_asks:
  assumes "calm p" and "confirm_enabled e p" and "asks_pending p"
  shows "asks_pending (confirm_task e p)"
proof (cases e)
  case (Submit f sub active answer)
  then show ?thesis using submit_task_asks assms by simp
next
  case (Accept valid)
  with assms(2,3) obtain f where f: "dialogs p ConfirmDialog = Modal" "pending_form p = Some f"
    by (auto simp: asks_pending_def)
  then have "dialogs (confirm_task e p) ConfirmDialog = Closed"
    using task_accept_fields(3) [OF assms(1) f] Accept by simp
  then show ?thesis by (simp add: asks_pending_def)
next
  case Dismiss
  with assms(2) have "dialogs p ConfirmDialog = Modal" by simp
  then have "dialogs (confirm_task e p) ConfirmDialog = Closed"
    using task_dismiss_fields(3) [OF assms(1)] Dismiss by simp
  then show ?thesis by (simp add: asks_pending_def)
qed

lemma confirm_task_new_marks:
  assumes "calm p" and "confirm_enabled e p" and "asks_pending p"
    and "form_confirmed (forms (confirm_task e p) f)"
  shows "form_confirmed (forms p f) \<or> consents f e p"
proof (cases e)
  case (Submit g sub active answer)
  then have ni: "\<not> inert p" using assms(2) by simp
  from assms(1) ni show ?thesis
    using assms(4) unfolding Submit
    by (cases rule: submit_task_cases [where f = g and sub = sub and active = active
        and answer = answer])
      (auto simp: send_def update_form_def split: if_splits)
next
  case (Accept valid)
  with assms(2,3) obtain g where g: "dialogs p ConfirmDialog = Modal" "pending_form p = Some g"
    "message p = form_question (forms p g)"
    by (auto simp: asks_pending_def)
  then show ?thesis
    using task_accept_fields(1) [OF assms(1) g(1,2)] assms(4) Accept by (auto split: if_splits)
next
  case Dismiss
  with assms(2) have "dialogs p ConfirmDialog = Modal" by simp
  then show ?thesis
    using task_dismiss_fields(1) [OF assms(1)] assms(4) Dismiss by simp
qed

definition gate_ok :: "confirm_page \<Rightarrow> bool" where
  "gate_ok p \<longleftrightarrow> calm p \<and> asks_pending p \<and> marks_ok p"

lemma gate_ok_task:
  "gate_ok p \<Longrightarrow> confirm_enabled e p \<Longrightarrow> gate_ok (confirm_task e p)"
  unfolding gate_ok_def
  using confirmation.calm_task confirm_task_asks confirm_task_marks by blast

lemma gate_ok_run: "gate_ok p \<Longrightarrow> gate_ok (run_confirm es p)"
  by (induction es arbitrary: p) (auto intro: gate_ok_task)

lemma marked_by_consent:
  assumes "gate_ok p" and "form_confirmed (forms (run_confirm es p) f)"
    and "\<not> form_confirmed (forms p f)"
  shows "\<exists>es1 e es2. es = es1 @ e # es2 \<and> confirm_enabled e (run_confirm es1 p)
           \<and> consents f e (run_confirm es1 p)"
  using assms(2)
proof (induction es rule: rev_induct)
  case Nil
  then show ?case using assms(3) by simp
next
  case (snoc e es)
  let ?q = "run_confirm es p"
  show ?case
  proof (cases "form_confirmed (forms ?q f)")
    case True
    then show ?thesis using snoc.IH by fastforce
  next
    case False
    with snoc.prems have "confirm_enabled e ?q" and "form_confirmed (forms (confirm_task e ?q) f)"
      by (auto simp: run_tasks_append split: if_splits)
    moreover have "calm ?q" "asks_pending ?q"
      using gate_ok_run [OF assms(1)] by (auto simp: gate_ok_def)
    ultimately show ?thesis
      using confirm_task_new_marks False by blast
  qed
qed

text \<open>The page as loaded: no form confirmed or sent yet, no dialog open.\<close>

definition fresh_confirm_page :: "confirm_page \<Rightarrow> bool" where
  "fresh_confirm_page p \<longleftrightarrow>
     calm p \<and> \<not> inert p \<and> sent p = []
   \<and> (\<forall>f. \<not> form_confirmed (forms p f) \<and> ''confirmed'' \<notin> fst ` set (form_inputs (forms p f)))"

lemma gate_ok_fresh: "fresh_confirm_page p \<Longrightarrow> gate_ok p"
  using calm_closed [of p ConfirmDialog]
  by (auto simp: fresh_confirm_page_def gate_ok_def asks_pending_def marks_ok_def)

text \<open>
  C4. The confirmation gate. Whatever the user does on a freshly loaded page, a form that
  asks for confirmation leaves the page only after a consent to that very form: an accept
  click while the dialog displays the form's own question, or an affirmed
  \<open>window.confirm\<close> where the page has no usable dialog. The data sent carries
  \<open>confirmed=true\<close>, which the server can check.
\<close>

theorem no_submission_without_consent:
  assumes "fresh_confirm_page p" and "(f, data) \<in> set (sent (run_confirm es p))"
  shows "(\<exists>es1 e es2. es = es1 @ e # es2 \<and> confirm_enabled e (run_confirm es1 p)
            \<and> consents f e (run_confirm es1 p))
       \<and> (''confirmed'', ''true'') \<in> set data"
proof -
  have ok: "gate_ok p" using assms(1) by (rule gate_ok_fresh)
  then have "marks_ok (run_confirm es p)"
    using gate_ok_run by (auto simp: gate_ok_def)
  then have "form_confirmed (forms (run_confirm es p) f)"
    and "(''confirmed'', ''true'') \<in> set data"
    using assms(2) by (auto simp: marks_ok_def)
  then show ?thesis
    using marked_by_consent [OF ok] assms(1) by (auto simp: fresh_confirm_page_def)
qed

text \<open>
  The hypotheses hold on a page with one form, and the accepted form is sent.
\<close>

definition example_form :: form where
  "example_form =
     \<lparr>form_question = ''Resume?'', form_confirmed = False, form_inputs = [(''name'', ''n1'')]\<rparr>"

definition example_page :: confirm_page where
  "example_page = page.extend blank_page
     (confirm_page.fields (\<lambda>_. example_form) True True True True (\<lambda>_. True) [] None None [])"

definition resume_button :: submitter where
  "resume_button = (Node 7, Some (''state'', ''resume''))"

lemma example_page_fields [simp]:
  "calm example_page" "\<not> inert example_page" "sent example_page = []"
  "forms example_page f = example_form" "dialog_usable example_page"
  "has_request_submit example_page"
  by (simp_all add: example_page_def page.extend_def confirm_page.fields_def blank_page_def
      calm_def inert_def dialog_usable_def)

lemma fresh_example_page: "fresh_confirm_page example_page"
  by (simp add: fresh_confirm_page_def example_form_def)

section \<open>What an accepted form sends\<close>

text \<open>
  The submitter is lost. When a submission by a button is held back and then accepted in
  the dialog, the data that leaves the page is the inputs of the form with
  \<open>confirmed=true\<close>, whatever button started it: \<open>requestSubmit\<close> and \<open>submit\<close> are called
  without the button, so its own name and value are never sent.
\<close>

theorem accepted_data_without_submitter:
  assumes "calm p" and "\<not> inert p" and "dialog_usable p" and "\<not> form_confirmed (forms p f)"
  shows "sent (run_confirm [Submit f sub active answer, Accept True] p)
       = sent p @ [(f, form_inputs (append_confirmed_input (forms p f)))]"
proof -
  let ?q = "confirm_task (Submit f sub active answer) p"
  have q: "calm ?q" "dialogs ?q ConfirmDialog = Modal" "pending_form ?q = Some f"
    "forms ?q = forms p" "sent ?q = sent p" "has_modal ?q" "has_accept ?q"
    using confirmation.calm_task [OF assms(1), of "Submit f sub active answer"] assms
    by (simp_all add: task_submit_asks focus_on_def dialog_usable_def)
  have "run_confirm [Submit f sub active answer, Accept True] p = confirm_task (Accept True) ?q"
    using q(2,6,7) assms(2) by simp
  then show ?thesis
    using task_accept_fields(2) [OF q(1-3), of True] q(4,5)
    by (simp add: form_data_def mark_confirmed_def)
qed

theorem accepted_data_without_submitter_witness:
  "sent (run_confirm [Submit 1 (Some resume_button) None False, Accept True] example_page)
     = [(1, [(''name'', ''n1''), (''confirmed'', ''true'')])]"
proof -
  have h: "\<not> form_confirmed (forms example_page 1)" by (simp add: example_form_def)
  show ?thesis
    using accepted_data_without_submitter [OF example_page_fields(1,2,5) h,
        of "Some resume_button" None False]
    by (simp add: append_confirmed_input_def example_form_def)
qed

lemma example_run_sends:
  "(1, [(''name'', ''n1''), (''confirmed'', ''true'')])
     \<in> set (sent (run_confirm [Submit 1 None None False, Accept True] example_page))"
  by (simp add: confirm_act.simps example_page_def page.extend_def confirm_page.fields_def
      blank_page_def on_submit_def on_accept_def dialog_usable_def lock_scroll_def example_form_def
      show_modal_def focus_on_def settle_def inert_def close_dialog_def update_form_def
      mark_confirmed_def append_confirmed_input_def send_def form_data_def on_confirm_close_def
      unlock_scroll_def or_else_def Let_def)

theorem no_submission_without_consent_witness:
  "consents 1 (Accept True) (run_confirm [Submit 1 None None False] example_page)
 \<and> (\<exists>es1 e es2. [Submit 1 None None False, Accept True] = es1 @ e # es2
      \<and> confirm_enabled e (run_confirm es1 example_page)
      \<and> consents 1 e (run_confirm es1 example_page))"
proof
  show "consents 1 (Accept True) (run_confirm [Submit 1 None None False] example_page)"
    using task_submit_asks [OF example_page_fields(1,2), of 1 None None False]
    by (simp add: example_form_def focus_on_def)
  show "\<exists>es1 e es2. [Submit 1 None None False, Accept True] = es1 @ e # es2
      \<and> confirm_enabled e (run_confirm es1 example_page)
      \<and> consents 1 e (run_confirm es1 example_page)"
    using no_submission_without_consent [OF fresh_example_page example_run_sends] by blast
qed

text \<open>
  Backing out. Dismissing the question (backdrop, close control or Escape) sends nothing
  and leaves every form as it was, forgets the held form, closes the dialog, unlocks the
  scrolling, and gives the focus back to the control that started the submission when that
  control is still in the document.
\<close>

theorem dismiss_restores:
  assumes "calm p" and "\<not> inert p" and "dialog_usable p" and "\<not> form_confirmed (forms p f)"
    and "attached p button"
  shows "(let q = run_confirm [Submit f (Some (button, entry)) active answer, Dismiss] p in
            sent q = sent p \<and> forms q = forms p \<and> dialogs q = dialogs p \<and> calm q
          \<and> pending_form q = None \<and> \<not> modal_open q \<and> focused q = Some button)"
proof -
  let ?ev = "Submit f (Some (button, entry)) active answer"
  let ?q = "confirm_task ?ev p"
  have closed: "dialogs p ConfirmDialog = Closed"
    using assms(1,2) by (rule calm_closed)
  have q: "?q = focus_on ConfirmAccept
      (p\<lparr>pending_form := Some f, pending_trigger := Some button,
         message := form_question (forms p f), modal_open := True,
         dialogs := (dialogs p)(ConfirmDialog := Modal)\<rparr>)"
    using task_submit_asks [OF assms(1,2,4,3)] by (simp add: or_else_def)
  have r: "run_confirm [?ev, Dismiss] p = confirm_task Dismiss ?q"
    using assms(2,3) by (simp add: q focus_on_def dialog_usable_def)
  have "calm (confirm_task Dismiss ?q)"
    by (rule confirmation.calm_task)
      (use confirmation.calm_task [OF assms(1), of ?ev] assms(2,3) q
        in \<open>simp_all add: focus_on_def dialog_usable_def\<close>)
  then show ?thesis
    unfolding r using assms(5) closed calm_idle [OF assms(1)]
    by (simp add: q confirm_act.simps(3) page_simps on_confirm_close_def Let_def fun_upd_idem)
qed

theorem dismiss_restores_witness:
  "focused (run_confirm [Submit 1 (Some resume_button) None False, Dismiss] example_page)
     = Some (Node 7)"
proof -
  have h: "\<not> form_confirmed (forms example_page 1)" "attached example_page (Node 7)"
    by (simp_all add: example_form_def example_page_def page.extend_def confirm_page.fields_def)
  show ?thesis
    using dismiss_restores [OF example_page_fields(1,2,5) h,
        of "Some (''state'', ''resume'')" None False]
    by (simp add: resume_button_def Let_def)
qed

end
