(* ===== verification/UserDialogs.thy ===== *)
theory UserDialogs
  imports Browser
begin

text \<open>
  The dialogs of the page of platform accounts (\<open>app.js\<close>, lines 14 to 59): the dialog that
  creates an account is opened by its trigger, and the server can ask for either dialog to
  be open from the start, with the attributes \<open>open\<close> and \<open>data-platform-...-create-open\<close>; the
  script then closes it and shows it again as a modal dialog.
\<close>

section \<open>State and operations\<close>

record user_page = page +
  aria_expanded :: bool               \<comment> \<open>\<open>aria-expanded\<close> of the trigger\<close>
  has_username_input :: bool
  has_uid_input :: bool
  user_listeners :: bool              \<comment> \<open>trigger and account dialog exist\<close>
  ldap_listeners :: bool              \<comment> \<open>the LDAP dialog exists and carries its attribute\<close>

definition open_platform_user_create_modal :: "user_page \<Rightarrow> user_page outcome" where
  "open_platform_user_create_modal p =
     and_then (show_modal UserCreateDialog (close_if_open UserCreateDialog p))
       (\<lambda>p. let p = (lock_scroll p)\<lparr>aria_expanded := True\<rparr>
            in Done (if has_username_input p then focus_on UsernameInput p else p))"

definition show_ldap_create_modal :: "user_page \<Rightarrow> user_page outcome" where
  "show_ldap_create_modal p =
     and_then (show_modal LdapCreateDialog (close_if_open LdapCreateDialog p))
       (\<lambda>p. let p = lock_scroll p
            in Done (if has_uid_input p then focus_on UidNumberInput p else p))"

definition on_user_close :: "dialog \<Rightarrow> user_page \<Rightarrow> user_page" where
  "on_user_close d p =
     (if d = UserCreateDialog
      then focus_on UserCreateTrigger ((unlock_scroll p)\<lparr>aria_expanded := False\<rparr>)
      else unlock_scroll p)"

text \<open>The part of the script that runs while the page loads.\<close>

definition load_user_page :: "bool \<Rightarrow> user_page \<Rightarrow> user_page outcome" where
  "load_user_page user_attribute p =
     and_then
       (if user_listeners p \<and> user_attribute then open_platform_user_create_modal p else Done p)
       (\<lambda>p. if ldap_listeners p then show_ldap_create_modal p else Done p)"

datatype user_event =
  ClickUserCreate
| CloseUserCreate    \<comment> \<open>a close button, the backdrop or the Escape key\<close>
| CloseLdapCreate    \<comment> \<open>the backdrop or the Escape key\<close>

fun user_act :: "user_event \<Rightarrow> user_page \<Rightarrow> user_page outcome" where
  "user_act ClickUserCreate p = open_platform_user_create_modal p"
| "user_act CloseUserCreate p = Done (close_dialog UserCreateDialog p)"
| "user_act CloseLdapCreate p = Done (close_dialog LdapCreateDialog p)"

fun user_enabled :: "user_event \<Rightarrow> user_page \<Rightarrow> bool" where
  "user_enabled ClickUserCreate p \<longleftrightarrow> user_listeners p \<and> \<not> inert p"
| "user_enabled CloseUserCreate p \<longleftrightarrow> user_listeners p \<and> dialogs p UserCreateDialog = Modal"
| "user_enabled CloseLdapCreate p \<longleftrightarrow> ldap_listeners p \<and> dialogs p LdapCreateDialog = Modal"

abbreviation run_user :: "user_event list \<Rightarrow> user_page \<Rightarrow> user_page" where
  "run_user \<equiv> run_tasks user_enabled user_act on_user_close"

section \<open>The contract of the dialogs\<close>

lemma open_user_closed:
  assumes "dialogs p UserCreateDialog = Closed"
  shows "\<exists>q. open_platform_user_create_modal p = Done q \<and> modal_open q \<and> aria_expanded q
     \<and> dialogs q = (dialogs p)(UserCreateDialog := Modal) \<and> close_events q = close_events p
     \<and> user_listeners q = user_listeners p"
  using assms
  by (simp add: open_platform_user_create_modal_def close_if_open_closed page_simps Let_def)

interpretation user_dialogs:
  dialog_component "{UserCreateDialog, LdapCreateDialog}" user_enabled user_act on_user_close
proof
  fix p :: user_page and e
  assume p: "calm p" "user_enabled e p"
  show "well_behaved {UserCreateDialog, LdapCreateDialog} p (user_act e p)"
  proof (cases e)
    case ClickUserCreate
    then have "\<not> inert p" using p(2) by simp
    with open_user_closed [OF calm_closed [OF p(1) this]] ClickUserCreate show ?thesis
      by (auto simp: well_behaved_def opened_one_def)
  qed (use p(2) in \<open>simp_all add: well_behaved_close\<close>)
qed (auto simp: on_user_close_def page_simps)

section \<open>The state of the trigger\<close>

definition trigger_agrees :: "user_page \<Rightarrow> bool" where
  "trigger_agrees p \<longleftrightarrow> (aria_expanded p \<longleftrightarrow> dialogs p UserCreateDialog = Modal)"

lemma trigger_agrees_task:
  assumes "calm p" and "trigger_agrees p" and "user_enabled e p"
  shows "trigger_agrees (settle on_user_close (state (user_act e p)))"
proof (cases e)
  case ClickUserCreate
  then have "\<not> inert p" using assms(3) by simp
  from open_user_closed [OF calm_closed [OF assms(1) this]] obtain q where
    "open_platform_user_create_modal p = Done q" "aria_expanded q"
    "dialogs q = (dialogs p)(UserCreateDialog := Modal)" "close_events q = []"
    using calm_idle [OF assms(1)] by auto
  then show ?thesis
    using ClickUserCreate by (simp add: trigger_agrees_def settle_idle)
next
  case CloseUserCreate
  then show ?thesis
    using assms calm_idle [OF assms(1)]
    by (simp add: page_simps trigger_agrees_def on_user_close_def)
next
  case CloseLdapCreate
  then show ?thesis
    using assms calm_idle [OF assms(1)]
    by (simp add: page_simps trigger_agrees_def on_user_close_def)
qed

lemma trigger_agrees_run:
  "calm p \<Longrightarrow> trigger_agrees p \<Longrightarrow> trigger_agrees (run_user es p)"
  by (induction es arbitrary: p) (auto intro: trigger_agrees_task user_dialogs.calm_task)

text \<open>
  The trigger tells the truth. In every run of user actions from a calm page whose
  trigger is collapsed and whose dialog is closed, \<open>aria-expanded\<close> of the trigger is true
  exactly while the account dialog is open, and the page scrolls exactly while no dialog is.
\<close>

theorem trigger_expanded_iff_open:
  assumes "calm p" and "dialogs p UserCreateDialog = Closed" and "\<not> aria_expanded p"
  shows "(aria_expanded (run_user es p) \<longleftrightarrow> is_open UserCreateDialog (run_user es p))
       \<and> (modal_open (run_user es p) \<longleftrightarrow> inert (run_user es p))"
proof
  have "trigger_agrees (run_user es p)"
    using assms by (intro trigger_agrees_run) (simp_all add: trigger_agrees_def)
  moreover have "dialogs (run_user es p) UserCreateDialog \<noteq> NonModal"
    using user_dialogs.calm_run [OF assms(1), of es] by (simp add: calm_def)
  ultimately show "aria_expanded (run_user es p) \<longleftrightarrow> is_open UserCreateDialog (run_user es p)"
    unfolding trigger_agrees_def is_open_def by (metis dialog_state.distinct(3) dialog_state.exhaust)
  show "modal_open (run_user es p) \<longleftrightarrow> inert (run_user es p)"
    using assms(1) by (rule user_dialogs.lock_iff_open)
qed

section \<open>Dialogs the server opens\<close>

text \<open>
  A dialog the server opens. On a page that arrives with the account dialog open, the
  script shows it as a modal dialog, locks the scrolling and expands the trigger. But the
  \<open>close\<close> call that comes first has queued its event; once that is delivered the dialog is
  still open, while the scrolling is unlocked and the trigger says collapsed. The LDAP
  dialog loses the scroll lock in the same way.
\<close>

theorem served_open_loses_lock:
  assumes "served_open d p"
    and "d = UserCreateDialog \<and> user_listeners p \<and> user_attribute \<and> \<not> ldap_listeners p
       \<or> d = LdapCreateDialog \<and> ldap_listeners p \<and> \<not> user_attribute"
  shows "(let q = state (load_user_page user_attribute p);
              q' = settle on_user_close q
          in dialogs q d = Modal \<and> modal_open q
           \<and> dialogs q' d = Modal \<and> \<not> modal_open q'
           \<and> (d = UserCreateDialog \<longrightarrow> aria_expanded q \<and> \<not> aria_expanded q'))"
proof -
  have p: "close_events p = []" using assms(1) by (simp add: served_open_def)
  show ?thesis
    using assms(2)
  proof (elim disjE conjE)
    assume d: "d = UserCreateDialog" and l: "user_listeners p" "user_attribute" "\<not> ldap_listeners p"
    have c: "dialogs p UserCreateDialog = NonModal" using assms(1) d by (simp add: served_open_def)
    have "load_user_page user_attribute p = open_platform_user_create_modal p"
      using l c p by (simp add: load_user_page_def open_platform_user_create_modal_def
          close_if_open_def page_simps Let_def)
    then show ?thesis
      using c p unfolding d
      by (simp add: open_platform_user_create_modal_def close_if_open_def page_simps Let_def
          on_user_close_def)
  next
    assume d: "d = LdapCreateDialog" and l: "ldap_listeners p" "\<not> user_attribute"
    have c: "dialogs p LdapCreateDialog = NonModal" using assms(1) d by (simp add: served_open_def)
    have "load_user_page user_attribute p = show_ldap_create_modal p"
      using l by (simp add: load_user_page_def)
    then show ?thesis
      using c p unfolding d
      by (simp add: show_ldap_create_modal_def close_if_open_def page_simps Let_def
          on_user_close_def)
  qed
qed

definition example_user_page :: user_page where
  "example_user_page =
     page.extend
       \<lparr>dialogs = (\<lambda>_. Closed)(UserCreateDialog := NonModal), close_events = [],
        modal_open = False, focused = None\<rparr>
       (user_page.fields False True True True False)"

theorem served_open_loses_lock_witness:
  "dialogs (settle on_user_close (state (load_user_page True example_user_page)))
     UserCreateDialog = Modal
 \<and> \<not> modal_open (settle on_user_close (state (load_user_page True example_user_page)))"
proof -
  have "served_open UserCreateDialog example_user_page"
    "UserCreateDialog = UserCreateDialog \<and> user_listeners example_user_page \<and> True
       \<and> \<not> ldap_listeners example_user_page
     \<or> UserCreateDialog = LdapCreateDialog \<and> ldap_listeners example_user_page \<and> \<not> True"
    by (simp_all add: served_open_def example_user_page_def page.extend_def user_page.fields_def)
  from served_open_loses_lock [OF this] show ?thesis unfolding Let_def by blast
qed

theorem trigger_expanded_iff_open_witness:
  "aria_expanded (run_user [ClickUserCreate] (example_user_page\<lparr>dialogs := \<lambda>_. Closed\<rparr>))
     \<longleftrightarrow> is_open UserCreateDialog
           (run_user [ClickUserCreate] (example_user_page\<lparr>dialogs := \<lambda>_. Closed\<rparr>))"
proof -
  let ?p = "example_user_page\<lparr>dialogs := \<lambda>_. Closed\<rparr>"
  have "calm ?p" "dialogs ?p UserCreateDialog = Closed" "\<not> aria_expanded ?p"
    by (simp_all add: calm_def inert_def example_user_page_def page.extend_def user_page.fields_def)
  from trigger_expanded_iff_open [OF this] show ?thesis by blast
qed

end
