(* ===== verification/ActionDialogs.thy ===== *)
theory ActionDialogs
  imports Browser
begin

text \<open>
  The two dialogs that carry out an action on a job or a node (\<open>app.js\<close>, lines 417 to 476):
  one form each, filled in from the control that was clicked.
\<close>

section \<open>Cancelling a job\<close>

record cancel_page = page +
  cancel_action :: string             \<comment> \<open>the form's \<open>action\<close>\<close>
  cancel_name :: string
  cancel_trigger :: "element option"

datatype cancel_event =
  ClickCancel element string "string option"
    \<comment> \<open>the control, its \<open>data-job-cancel\<close>, the \<open>action\<close> of the form around it, if any\<close>
| CloseCancel        \<comment> \<open>the backdrop, a close control or the Escape key\<close>

definition click_cancel ::
  "element \<Rightarrow> string \<Rightarrow> string option \<Rightarrow> cancel_page \<Rightarrow> cancel_page outcome" where
  "click_cancel trigger job source_action p =
     (case source_action of
        None \<Rightarrow> Done p
      | Some action \<Rightarrow>
          and_then
            (show_modal CancelDialog (lock_scroll
              (p\<lparr>cancel_trigger := Some trigger, cancel_action := action,
                 cancel_name := ''#'' @ job\<rparr>)))
            (\<lambda>p. Done (focus_on CancelClose p)))"

definition on_cancel_close :: "dialog \<Rightarrow> cancel_page \<Rightarrow> cancel_page" where
  "on_cancel_close d p = focus_opt (cancel_trigger p) (unlock_scroll p)"

fun cancel_act :: "cancel_event \<Rightarrow> cancel_page \<Rightarrow> cancel_page outcome" where
  "cancel_act (ClickCancel trigger job source_action) p = click_cancel trigger job source_action p"
| "cancel_act CloseCancel p = Done (close_dialog CancelDialog p)"

fun cancel_enabled :: "cancel_event \<Rightarrow> cancel_page \<Rightarrow> bool" where
  "cancel_enabled (ClickCancel trigger job source_action) p \<longleftrightarrow> \<not> inert p"
| "cancel_enabled CloseCancel p \<longleftrightarrow> dialogs p CancelDialog = Modal"

abbreviation run_cancel :: "cancel_event list \<Rightarrow> cancel_page \<Rightarrow> cancel_page" where
  "run_cancel \<equiv> run_tasks cancel_enabled cancel_act on_cancel_close"

lemma click_cancel_opens:
  assumes "dialogs p CancelDialog = Closed"
  shows "click_cancel trigger job (Some action) p =
    Done (focus_on CancelClose
      ((lock_scroll (p\<lparr>cancel_trigger := Some trigger, cancel_action := action,
          cancel_name := ''#'' @ job\<rparr>))\<lparr>dialogs := (dialogs p)(CancelDialog := Modal)\<rparr>))"
  using assms by (simp add: click_cancel_def page_simps)

interpretation cancel_dialog: dialog_component "{CancelDialog}" cancel_enabled cancel_act on_cancel_close
proof
  fix p :: cancel_page and e
  assume p: "calm p" "cancel_enabled e p"
  show "well_behaved {CancelDialog} p (cancel_act e p)"
  proof (cases e)
    case (ClickCancel trigger job source_action)
    show ?thesis
    proof (cases source_action)
      case None
      then show ?thesis using ClickCancel by (simp add: click_cancel_def well_behaved_def)
    next
      case (Some action)
      have "\<not> inert p" using p(2) ClickCancel by simp
      from click_cancel_opens [OF calm_closed [OF p(1) this]] this Some ClickCancel show ?thesis
        by (simp add: well_behaved_def opened_one_def page_simps)
    qed
  qed (use p(2) in \<open>simp add: well_behaved_close\<close>)
qed (auto simp: on_cancel_close_def page_simps)

definition cancel_filled :: "element \<Rightarrow> string \<Rightarrow> string \<Rightarrow> cancel_page \<Rightarrow> bool" where
  "cancel_filled trigger job action p \<longleftrightarrow>
     cancel_trigger p = Some trigger \<and> cancel_action p = action \<and> cancel_name p = ''#'' @ job"

lemma cancel_task_click:
  assumes "calm p" and "\<not> inert p"
  shows "cancel_filled trigger job action
      (settle on_cancel_close (state (cancel_act (ClickCancel trigger job (Some action)) p)))"
    and "settle on_cancel_close (state (cancel_act (ClickCancel trigger job None) p)) = p"
  using calm_idle [OF assms(1)]
  by (simp_all add: click_cancel_opens [OF calm_closed [OF assms]] cancel_filled_def page_simps)
    (simp add: click_cancel_def page_simps)

lemma cancel_task_close:
  assumes "calm p" and "dialogs p CancelDialog = Modal"
  shows "dialogs (settle on_cancel_close (state (cancel_act CloseCancel p))) CancelDialog = Closed"
    and "focused (settle on_cancel_close (state (cancel_act CloseCancel p)))
      = (case cancel_trigger p of Some t \<Rightarrow> Some t | None \<Rightarrow> focused p)"
  using assms calm_idle [OF assms(1)]
  by (simp_all add: page_simps on_cancel_close_def focus_opt_def split: option.splits)

text \<open>
  The job that is cancelled is the job that was asked about. In every run from a calm
  page with the dialog closed, while the dialog is open its form posts to the path of the
  form around one control that was clicked, and the dialog names the job of that same
  control; closing it returns the focus to that control.
\<close>

theorem cancel_dialog_consistent:
  assumes "calm p" and "dialogs p CancelDialog = Closed"
    and "dialogs (run_cancel es p) CancelDialog = Modal"
  shows "\<exists>trigger job action.
     ClickCancel trigger job (Some action) \<in> set es
   \<and> cancel_filled trigger job action (run_cancel es p)
   \<and> focused (run_cancel (es @ [CloseCancel]) p) = Some trigger"
proof -
  have "dialogs (run_cancel es p) CancelDialog = Modal \<longrightarrow>
     (\<exists>trigger job action. ClickCancel trigger job (Some action) \<in> set es
        \<and> cancel_filled trigger job action (run_cancel es p))"
  proof (induction es rule: rev_induct)
    case Nil
    then show ?case using assms(2) by simp
  next
    case (snoc e es)
    let ?m = "run_cancel es p"
    have calm: "calm ?m" using cancel_dialog.calm_run assms(1) by blast
    show ?case
    proof (cases "cancel_enabled e ?m")
      case False
      then show ?thesis using snoc by (auto simp: run_tasks_append)
    next
      case True
      show ?thesis
      proof (cases e)
        case (ClickCancel trigger job source_action)
        then have "\<not> inert ?m" using True by simp
        note click = cancel_task_click [OF calm this]
        show ?thesis
        proof (cases source_action)
          case None
          then have "run_cancel (es @ [e]) p = ?m"
            using click(2) True ClickCancel by (simp add: run_tasks_append)
          then show ?thesis using snoc by auto
        next
          case (Some action)
          then have "cancel_filled trigger job action (run_cancel (es @ [e]) p)"
            using click(1) True ClickCancel by (simp add: run_tasks_append)
          then show ?thesis using Some ClickCancel by auto
        qed
      next
        case CloseCancel
        then have "dialogs (run_cancel (es @ [e]) p) CancelDialog = Closed"
          using cancel_task_close(1) [OF calm] True by (simp add: run_tasks_append)
        then show ?thesis by simp
      qed
    qed
  qed
  then obtain trigger job action where f: "ClickCancel trigger job (Some action) \<in> set es"
      "cancel_filled trigger job action (run_cancel es p)"
    using assms(3) by blast
  moreover have "focused (run_cancel (es @ [CloseCancel]) p) = Some trigger"
    using cancel_task_close(2) [OF cancel_dialog.calm_run [OF assms(1), of es] assms(3)] f(2) assms(3)
    by (simp add: run_tasks_append cancel_filled_def)
  ultimately show ?thesis by blast
qed

definition example_cancel_page :: cancel_page where
  "example_cancel_page = page.extend blank_page (cancel_page.fields [] [] None)"

theorem cancel_dialog_consistent_witness:
  "\<exists>trigger job action.
     ClickCancel trigger job (Some action)
       \<in> set [ClickCancel (Node 1) ''7'' (Some ''/slurm/jobs/7/cancel'')]
   \<and> cancel_filled trigger job action
       (run_cancel [ClickCancel (Node 1) ''7'' (Some ''/slurm/jobs/7/cancel'')] example_cancel_page)"
proof -
  have p: "calm example_cancel_page" "dialogs example_cancel_page CancelDialog = Closed"
    "\<not> inert example_cancel_page"
    by (simp_all add: calm_def inert_def example_cancel_page_def page.extend_def
        cancel_page.fields_def blank_page_def)
  have "dialogs (run_cancel [ClickCancel (Node 1) ''7'' (Some ''/slurm/jobs/7/cancel'')]
      example_cancel_page) CancelDialog = Modal"
    using p calm_idle [OF p(1)] by (simp add: click_cancel_opens page_simps)
  from cancel_dialog_consistent [OF p(1,2) this] show ?thesis by blast
qed

section \<open>Changing the state of a node\<close>

record node_page = page +
  node_title :: string
  node_name_value :: string
  node_state_value :: string
  node_reason :: string
  node_submit_class :: string
  node_trigger :: "element option"

datatype node_event =
  ClickNodeState element string string string
    \<comment> \<open>the control, its state, its action label, the node's name\<close>
| TypeReason string  \<comment> \<open>the user edits the reason\<close>
| CloseNodeState     \<comment> \<open>the backdrop, a close control or the Escape key\<close>

definition submit_class :: "string \<Rightarrow> string" where
  "submit_class state_name =
     (if state_name = ''down'' then ''node-offline-button'' else ''node-drain-button'')"

definition click_node_state ::
  "element \<Rightarrow> string \<Rightarrow> string \<Rightarrow> string \<Rightarrow> node_page \<Rightarrow> node_page outcome" where
  "click_node_state trigger state_name label name p =
     and_then
       (show_modal NodeStateDialog (lock_scroll
         (p\<lparr>node_trigger := Some trigger, node_title := label @ '': '' @ name,
            node_name_value := name, node_state_value := state_name, node_reason := [],
            node_submit_class := submit_class state_name\<rparr>)))
       (\<lambda>p. Done (focus_on NodeReason p))"

definition on_node_close :: "dialog \<Rightarrow> node_page \<Rightarrow> node_page" where
  "on_node_close d p = focus_opt (node_trigger p) (unlock_scroll (p\<lparr>node_reason := []\<rparr>))"

fun node_act :: "node_event \<Rightarrow> node_page \<Rightarrow> node_page outcome" where
  "node_act (ClickNodeState trigger s label name) p = click_node_state trigger s label name p"
| "node_act (TypeReason r) p = Done (p\<lparr>node_reason := r\<rparr>)"
| "node_act CloseNodeState p = Done (close_dialog NodeStateDialog p)"

fun node_enabled :: "node_event \<Rightarrow> node_page \<Rightarrow> bool" where
  "node_enabled (ClickNodeState trigger s label name) p \<longleftrightarrow> \<not> inert p"
| "node_enabled (TypeReason r) p \<longleftrightarrow> dialogs p NodeStateDialog = Modal"
| "node_enabled CloseNodeState p \<longleftrightarrow> dialogs p NodeStateDialog = Modal"

abbreviation run_node :: "node_event list \<Rightarrow> node_page \<Rightarrow> node_page" where
  "run_node \<equiv> run_tasks node_enabled node_act on_node_close"

lemma click_node_opens:
  assumes "dialogs p NodeStateDialog = Closed"
  shows "click_node_state trigger s label name p =
    Done (focus_on NodeReason
      ((lock_scroll (p\<lparr>node_trigger := Some trigger, node_title := label @ '': '' @ name,
          node_name_value := name, node_state_value := s, node_reason := [],
          node_submit_class := submit_class s\<rparr>))
       \<lparr>dialogs := (dialogs p)(NodeStateDialog := Modal)\<rparr>))"
  using assms by (simp add: click_node_state_def page_simps)

interpretation node_dialog: dialog_component "{NodeStateDialog}" node_enabled node_act on_node_close
proof
  fix p :: node_page and e
  assume p: "calm p" "node_enabled e p"
  show "well_behaved {NodeStateDialog} p (node_act e p)"
  proof (cases e)
    case (ClickNodeState trigger s label name)
    have "\<not> inert p" using p(2) ClickNodeState by simp
    from click_node_opens [OF calm_closed [OF p(1) this]] this ClickNodeState show ?thesis
      by (simp add: well_behaved_def opened_one_def page_simps)
  qed (use p(2) in \<open>auto simp: well_behaved_close\<close>, simp add: well_behaved_def same_dialogs_def)
qed (auto simp: on_node_close_def page_simps)

definition node_filled :: "element \<Rightarrow> string \<Rightarrow> string \<Rightarrow> string \<Rightarrow> node_page \<Rightarrow> bool" where
  "node_filled trigger s label name p \<longleftrightarrow>
     node_trigger p = Some trigger \<and> node_title p = label @ '': '' @ name
   \<and> node_name_value p = name \<and> node_state_value p = s \<and> node_submit_class p = submit_class s"

text \<open>
  \<open>shows_click\<close>: the dialog has been open since one click on a control; the form holds the
  node and the state of that control, and a reason only if it was typed since.
\<close>

definition shows_click :: "node_page \<Rightarrow> node_event list \<Rightarrow> bool" where
  "shows_click p es \<longleftrightarrow>
     (\<exists>es1 es2 trigger s label name.
        es = es1 @ ClickNodeState trigger s label name # es2
      \<and> node_filled trigger s label name (run_node es p)
      \<and> (\<forall>k. dialogs (run_node (es1 @ ClickNodeState trigger s label name # take k es2) p)
              NodeStateDialog = Modal)
      \<and> (node_reason (run_node es p) = [] \<or> TypeReason (node_reason (run_node es p)) \<in> set es2))"

lemma shows_click_snoc:
  assumes "shows_click p es" and "dialogs (run_node (es @ [e]) p) NodeStateDialog = Modal"
    and "\<And>t s l n. node_filled t s l n (run_node es p) \<Longrightarrow> node_filled t s l n (run_node (es @ [e]) p)"
    and "node_reason (run_node (es @ [e]) p) = node_reason (run_node es p)
       \<or> e = TypeReason (node_reason (run_node (es @ [e]) p))"
  shows "shows_click p (es @ [e])"
proof -
  obtain es1 es2 t s l n where h: "es = es1 @ ClickNodeState t s l n # es2"
    "node_filled t s l n (run_node es p)"
    "\<forall>k. dialogs (run_node (es1 @ ClickNodeState t s l n # take k es2) p) NodeStateDialog = Modal"
    "node_reason (run_node es p) = [] \<or> TypeReason (node_reason (run_node es p)) \<in> set es2"
    using assms(1) unfolding shows_click_def by blast
  have "dialogs (run_node (es1 @ ClickNodeState t s l n # take k (es2 @ [e])) p) NodeStateDialog
      = Modal" for k
  proof (cases "k \<le> length es2")
    case True
    then show ?thesis using h(3) by simp
  next
    case False
    then have "es1 @ ClickNodeState t s l n # take k (es2 @ [e]) = es @ [e]"
      using h(1) by simp
    then show ?thesis using assms(2) by simp
  qed
  moreover have "es @ [e] = es1 @ ClickNodeState t s l n # (es2 @ [e])" using h(1) by simp
  moreover have "node_reason (run_node (es @ [e]) p) = []
      \<or> TypeReason (node_reason (run_node (es @ [e]) p)) \<in> set (es2 @ [e])"
    using h(4) assms(4) by auto
  ultimately show ?thesis
    unfolding shows_click_def using assms(3) [OF h(2)] by blast
qed

lemma node_task:
  assumes "calm p" and "node_enabled e p"
  shows "settle on_node_close (state (node_act e p)) =
    (case e of
       ClickNodeState trigger s label name \<Rightarrow>
         state (click_node_state trigger s label name p)
     | TypeReason r \<Rightarrow> p\<lparr>node_reason := r\<rparr>
     | CloseNodeState \<Rightarrow>
         on_node_close NodeStateDialog
           (p\<lparr>dialogs := (dialogs p)(NodeStateDialog := Closed), close_events := []\<rparr>))"
proof (cases e)
  case (ClickNodeState trigger s label name)
  then have "\<not> inert p" using assms(2) by simp
  from click_node_opens [OF calm_closed [OF assms(1) this]] show ?thesis
    using calm_idle [OF assms(1)] ClickNodeState by (simp add: page_simps)
qed (use assms(2) calm_idle [OF assms(1)] in \<open>simp_all add: page_simps\<close>)

declare node_act.simps [simp del]

lemma node_close_fields [simp]:
  "dialogs (on_node_close d p) = dialogs p" "node_reason (on_node_close d p) = []"
  by (simp_all add: on_node_close_def page_simps focus_opt_def split: option.splits)

text \<open>
  The node that is changed is the node that was clicked. From a calm page with the
  dialog closed and no reason typed, in every run: while the dialog is open it has been open
  since one click, and its form holds the name and the state of that click's control with a
  reason that was typed since, so no reason written for one node can reach another; while it
  is closed the reason is empty.
\<close>

theorem node_dialog_consistent:
  assumes "calm p" and "dialogs p NodeStateDialog = Closed" and "node_reason p = []"
  shows "if dialogs (run_node es p) NodeStateDialog = Modal then shows_click p es
    else node_reason (run_node es p) = []"
proof (induction es rule: rev_induct)
  case Nil
  then show ?case using assms by simp
next
  case (snoc e es)
  let ?m = "run_node es p"
  have calm: "calm ?m" using node_dialog.calm_run assms(1) by blast
  show ?case
  proof (cases "node_enabled e ?m")
    case False
    then have same: "run_node (es @ [e]) p = ?m" by (simp add: run_tasks_append)
    show ?thesis using snoc shows_click_snoc [of p es e] unfolding same by auto
  next
    case True
    have step: "run_node (es @ [e]) p = settle on_node_close (state (node_act e ?m))"
      using True by (simp add: run_tasks_append)
    note task = step [unfolded node_task [OF calm True]]
    show ?thesis
    proof (cases e)
      case (ClickNodeState t s l n)
      have "\<not> inert ?m" using True ClickNodeState by simp
      note c = click_node_opens [OF calm_closed [OF calm this], of t s l n]
      have run: "run_node (es @ [e]) p = state (click_node_state t s l n ?m)"
        using task ClickNodeState by simp
      have "node_filled t s l n (run_node (es @ [e]) p)" "node_reason (run_node (es @ [e]) p) = []"
        and modal: "dialogs (run_node (es @ [e]) p) NodeStateDialog = Modal"
        unfolding run c by (simp_all add: node_filled_def page_simps)
      then have "shows_click p (es @ [e])"
        unfolding shows_click_def ClickNodeState by (metis append.right_neutral take_Nil)
      then show ?thesis using modal by simp
    next
      case (TypeReason r)
      have run: "run_node (es @ [e]) p = ?m\<lparr>node_reason := r\<rparr>"
        using task TypeReason by simp
      have modal: "dialogs ?m NodeStateDialog = Modal" using True TypeReason by simp
      have "shows_click p (es @ [e])"
      proof (rule shows_click_snoc)
        show "shows_click p es" using snoc modal by simp
      qed (unfold run, use modal TypeReason in \<open>simp_all add: node_filled_def\<close>)
      then show ?thesis using modal by (simp add: run)
    next
      case CloseNodeState
      then have run: "run_node (es @ [e]) p = on_node_close NodeStateDialog
          (?m\<lparr>dialogs := (dialogs ?m)(NodeStateDialog := Closed), close_events := []\<rparr>)"
        using task by simp
      show ?thesis unfolding run by simp
    qed
  qed
qed

definition example_node_page :: node_page where
  "example_node_page = page.extend blank_page (node_page.fields [] [] [] [] [] None)"

theorem node_dialog_consistent_witness:
  "dialogs (run_node [ClickNodeState (Node 1) ''down'' ''Offline'' ''n1'', TypeReason ''disk'']
       example_node_page) NodeStateDialog = Modal
 \<and> shows_click example_node_page
     [ClickNodeState (Node 1) ''down'' ''Offline'' ''n1'', TypeReason ''disk'']"
proof -
  have p: "calm example_node_page" "dialogs example_node_page NodeStateDialog = Closed"
    "node_reason example_node_page = []" "\<not> inert example_node_page"
    by (simp_all add: calm_def inert_def example_node_page_def page.extend_def
        node_page.fields_def blank_page_def)
  let ?es = "[ClickNodeState (Node 1) ''down'' ''Offline'' ''n1'', TypeReason ''disk'']"
  have open_: "dialogs (run_node ?es example_node_page) NodeStateDialog = Modal"
    using p(2,4) calm_idle [OF p(1)] by (simp add: node_act.simps click_node_opens page_simps)
  then show ?thesis
    using node_dialog_consistent [OF p(1-3), of ?es] unfolding open_ by simp
qed

end
