(* ===== verification/PartitionEditor.thy ===== *)
theory PartitionEditor
  imports Browser
begin

text \<open>
  The editor of partitions and the dialog that deletes one (\<open>app.js\<close>, lines 478 to 567). Both
  are filled in from the control that was clicked; the nodes of a partition travel as one
  attribute, joined with a comma and a space.
\<close>

section \<open>State\<close>

record node_box =
  box_value :: string
  box_default :: bool        \<comment> \<open>checked as the page arrived\<close>
  box_checked :: bool

record partition_page = page +
  default_name :: string     \<comment> \<open>the name field as the page arrived\<close>
  partition_name :: string
  name_readonly :: bool
  editor_title :: string
  submit_text :: string
  node_boxes :: "node_box list"
  update_label :: string
  create_label :: string
  delete_input :: string
  delete_name :: string
  editor_trigger :: "element option"
  delete_trigger :: "element option"

section \<open>setPartitionEditor\<close>

text \<open>
  The selected names are kept as the keys of an object, so a lookup also finds what the
  object inherits: the properties of \<open>Object.prototype\<close>, whose values are all truthy. An
  assignment to \<open>__proto__\<close> of a boolean does nothing, but a lookup of it finds the
  prototype, which is truthy as well.
\<close>

definition object_prototype_names :: "string list" where
  "object_prototype_names =
     [''constructor'', ''hasOwnProperty'', ''isPrototypeOf'', ''propertyIsEnumerable'',
      ''toLocaleString'', ''toString'', ''valueOf'', ''__proto__'', ''__defineGetter__'',
      ''__defineSetter__'', ''__lookupGetter__'', ''__lookupSetter__'']"

definition selected_truthy :: "string list \<Rightarrow> string \<Rightarrow> bool" where
  "selected_truthy node_names key \<longleftrightarrow>
     key \<in> set node_names \<or> key \<in> set object_prototype_names"

definition reset_editor :: "partition_page \<Rightarrow> partition_page" where
  \<comment> \<open>\<open>partitionEditorForm.reset()\<close>\<close>
  "reset_editor p =
     p\<lparr>partition_name := default_name p,
       node_boxes := map (\<lambda>b. b\<lparr>box_checked := box_default b\<rparr>) (node_boxes p)\<rparr>"

definition set_partition_editor ::
  "string \<Rightarrow> string list \<Rightarrow> bool \<Rightarrow> partition_page \<Rightarrow> partition_page" where
  "set_partition_editor name node_names is_editing p =
     (let p = reset_editor p;
          title = (if is_editing then update_label p else create_label p)
      in p\<lparr>partition_name := name, name_readonly := is_editing, editor_title := title,
           submit_text := title,
           node_boxes :=
             map (\<lambda>b. b\<lparr>box_checked := selected_truthy node_names (box_value b)\<rparr>) (node_boxes p)\<rparr>)"

definition comma_space :: string where
  "comma_space = '', ''"

definition split_nodes :: "string \<Rightarrow> string list" where
  \<comment> \<open>\<open>split(', ').filter(Boolean)\<close>\<close>
  "split_nodes attr = filter (\<lambda>s. s \<noteq> []) (split_str comma_space attr)"

section \<open>Handlers\<close>

definition open_partition_modal :: "dialog \<Rightarrow> partition_page \<Rightarrow> partition_page outcome" where
  "open_partition_modal d p =
     (let p = lock_scroll p in if is_open d p then Done p else show_modal d p)"

datatype partition_event =
  ClickCreate element
| ClickEdit element string string   \<comment> \<open>\<open>data-partition-name\<close>, \<open>data-partition-nodes\<close>\<close>
| ClickDelete element string
| ToggleNode nat
| ClosePartition dialog             \<comment> \<open>a close control, the backdrop or the Escape key\<close>

fun partition_act :: "partition_event \<Rightarrow> partition_page \<Rightarrow> partition_page outcome" where
  "partition_act (ClickCreate trigger) p =
     and_then
       (open_partition_modal PartitionEditorDialog
         (set_partition_editor [] [] False (p\<lparr>editor_trigger := Some trigger\<rparr>)))
       (\<lambda>p. Done (focus_on PartitionNameInput p))"
| "partition_act (ClickEdit trigger name attr) p =
     and_then
       (open_partition_modal PartitionEditorDialog
         (set_partition_editor name (split_nodes attr) True (p\<lparr>editor_trigger := Some trigger\<rparr>)))
       (\<lambda>p. Done (focus_on PartitionNameInput p))"
| "partition_act (ClickDelete trigger name) p =
     and_then
       (open_partition_modal PartitionDeleteDialog
         (p\<lparr>delete_trigger := Some trigger, delete_input := name, delete_name := name\<rparr>))
       (\<lambda>p. Done (focus_on PartitionDeleteSubmit p))"
| "partition_act (ToggleNode i) p =
     Done (if i < length (node_boxes p)
           then p\<lparr>node_boxes := (node_boxes p)
                    [i := (node_boxes p ! i)\<lparr>box_checked := \<not> box_checked (node_boxes p ! i)\<rparr>]\<rparr>
           else p)"
| "partition_act (ClosePartition d) p = Done (close_dialog d p)"

definition partition_dialogs :: "dialog set" where
  "partition_dialogs = {PartitionEditorDialog, PartitionDeleteDialog}"

fun partition_enabled :: "partition_event \<Rightarrow> partition_page \<Rightarrow> bool" where
  "partition_enabled (ClickCreate trigger) p \<longleftrightarrow> \<not> inert p"
| "partition_enabled (ClickEdit trigger name attr) p \<longleftrightarrow> \<not> inert p"
| "partition_enabled (ClickDelete trigger name) p \<longleftrightarrow> \<not> inert p"
| "partition_enabled (ToggleNode i) p \<longleftrightarrow> dialogs p PartitionEditorDialog = Modal"
| "partition_enabled (ClosePartition d) p \<longleftrightarrow> d \<in> partition_dialogs \<and> dialogs p d = Modal"

definition on_partition_close :: "dialog \<Rightarrow> partition_page \<Rightarrow> partition_page" where
  "on_partition_close d p =
     (let p = unlock_scroll p
      in focus_opt (if d = PartitionEditorDialog then editor_trigger p else delete_trigger p) p)"

text \<open>The part that runs while the page loads, when the editor carries \<open>data-partition-open\<close>.\<close>

definition load_partition_page :: "partition_page \<Rightarrow> partition_page outcome" where
  "load_partition_page p =
     and_then (open_partition_modal PartitionEditorDialog (close_if_open PartitionEditorDialog p))
       (\<lambda>p. Done (focus_on PartitionNameInput p))"

abbreviation run_partition :: "partition_event list \<Rightarrow> partition_page \<Rightarrow> partition_page" where
  "run_partition \<equiv> run_tasks partition_enabled partition_act on_partition_close"

section \<open>The contract of the dialogs\<close>

lemma set_partition_editor_page [simp]:
  "dialogs (set_partition_editor name ns ed p) = dialogs p"
  "close_events (set_partition_editor name ns ed p) = close_events p"
  "modal_open (set_partition_editor name ns ed p) = modal_open p"
  by (simp_all add: set_partition_editor_def reset_editor_def Let_def)

lemma set_partition_editor_fields [simp]:
  "partition_name (set_partition_editor name ns ed p) = name"
  "name_readonly (set_partition_editor name ns ed p) = ed"
  "editor_title (set_partition_editor name ns ed p) = (if ed then update_label p else create_label p)"
  "submit_text (set_partition_editor name ns ed p) = (if ed then update_label p else create_label p)"
  "map box_value (node_boxes (set_partition_editor name ns ed p)) = map box_value (node_boxes p)"
  "editor_trigger (set_partition_editor name ns ed p) = editor_trigger p"
  by (simp_all add: set_partition_editor_def reset_editor_def Let_def comp_def)

lemma node_boxes_checked:
  "b \<in> set (node_boxes (set_partition_editor name ns ed p)) \<Longrightarrow>
     box_checked b \<longleftrightarrow> selected_truthy ns (box_value b)"
  by (auto simp: set_partition_editor_def reset_editor_def Let_def)

lemma open_partition_closed:
  "dialogs p d = Closed \<Longrightarrow>
     open_partition_modal d p = Done ((lock_scroll p)\<lparr>dialogs := (dialogs p)(d := Modal)\<rparr>)"
  by (simp add: open_partition_modal_def page_simps Let_def)

lemma partition_opens:
  assumes "\<not> inert p" and "dialogs p d = Closed" and "d \<in> partition_dialogs"
    and "dialogs q = dialogs p" and "close_events q = close_events p"
  shows "well_behaved partition_dialogs p
    (and_then (open_partition_modal d q) (\<lambda>p. Done (focus_on x p)))"
proof -
  have "opened_one partition_dialogs p
      (focus_on x ((lock_scroll q)\<lparr>dialogs := (dialogs q)(d := Modal)\<rparr>))"
    unfolding opened_one_def using assms by (intro bexI [of _ d]) (simp_all add: page_simps)
  then show ?thesis
    using assms(2,4) by (simp add: open_partition_closed well_behaved_def)
qed

lemma partition_dialogs_mem [simp]:
  "PartitionEditorDialog \<in> partition_dialogs" "PartitionDeleteDialog \<in> partition_dialogs"
  by (simp_all add: partition_dialogs_def)

interpretation partition_dialog:
  dialog_component partition_dialogs partition_enabled partition_act on_partition_close
proof
  fix p :: partition_page and e
  assume p: "calm p" "partition_enabled e p"
  have closed: "dialogs p d = Closed" if "\<not> inert p" for d
    using calm_closed [OF p(1) that] .
  show "well_behaved partition_dialogs p (partition_act e p)"
  proof (cases e)
    case (ToggleNode i)
    then show ?thesis by (simp add: well_behaved_def same_dialogs_def)
  next
    case (ClosePartition d)
    then show ?thesis using p(2) by (simp add: well_behaved_close)
  next
    case (ClickCreate t)
    then show ?thesis
      using p(2) closed by (simp add: partition_opens)
  next
    case (ClickEdit t n attr)
    then show ?thesis
      using p(2) closed by (simp add: partition_opens)
  next
    case (ClickDelete t n)
    then show ?thesis
      using p(2) closed by (simp add: partition_opens)
  qed
qed (simp_all add: on_partition_close_def Let_def page_simps)


section \<open>The members of a partition\<close>

lemma split_nodes_join:
  assumes "\<forall>n \<in> set ns. n \<noteq> [] \<and> CHR '' '' \<notin> set n"
  shows "split_nodes (join_str comma_space ns) = ns"
proof (cases "ns = []")
  case True
  then show ?thesis by (simp add: split_nodes_def)
next
  case False
  have "split_str ('','' @ [CHR '' '']) (join_str ('','' @ [CHR '' '']) ns) = ns"
    using assms False by (intro split_join_str) auto
  then have "split_str comma_space (join_str comma_space ns) = ns"
    by (simp add: comma_space_def)
  then show ?thesis
    using assms by (auto simp: split_nodes_def intro: filter_True)
qed

abbreviation partition_task :: "partition_event \<Rightarrow> partition_page \<Rightarrow> partition_page" where
  "partition_task e p \<equiv> settle on_partition_close (state (partition_act e p))"

lemma partition_opens_task:
  assumes "calm p" and "\<not> inert p" and "dialogs q = dialogs p" and "close_events q = close_events p"
  shows "settle on_partition_close
      (state (and_then (open_partition_modal d q) (\<lambda>p. Done (focus_on x p))))
    = focus_on x ((lock_scroll q)\<lparr>dialogs := (dialogs p)(d := Modal)\<rparr>)"
proof -
  have "dialogs q d = Closed" "close_events q = []"
    using calm_closed [OF assms(1,2)] calm_idle [OF assms(1)] assms(3,4) by simp_all
  then show ?thesis
    using assms(3) by (simp add: open_partition_closed page_simps)
qed

lemma close_partition_task:
  assumes "calm p" and "dialogs p d = Modal"
  shows "partition_task (ClosePartition d) p
    = on_partition_close d (p\<lparr>dialogs := (dialogs p)(d := Closed), close_events := []\<rparr>)"
  using assms calm_idle [OF assms(1)] by (simp add: page_simps)

lemma edit_partition_task:
  assumes "calm p" and "\<not> inert p" and "\<forall>n \<in> set ns. n \<noteq> [] \<and> CHR '' '' \<notin> set n"
  shows "run_partition [ClickEdit trigger name (join_str comma_space ns)] p
    = focus_on PartitionNameInput
        ((lock_scroll (set_partition_editor name ns True (p\<lparr>editor_trigger := Some trigger\<rparr>)))
           \<lparr>dialogs := (dialogs p)(PartitionEditorDialog := Modal)\<rparr>)"
  using assms(2) split_nodes_join [OF assms(3)]
    partition_opens_task [OF assms(1,2),
      of "set_partition_editor name ns True (p\<lparr>editor_trigger := Some trigger\<rparr>)"]
  by simp

text \<open>
  Editing starts from the partition as it is. The server writes the nodes of a partition
  joined with a comma and a space; node names hold no space. A click on the edit control then
  opens the editor with the partition's name, read-only, under the title of an update, and a
  box is checked exactly when its node belongs to the partition or has the name of an
  inherited property of objects.
\<close>

theorem edit_checks_members:
  assumes "calm p" and "\<not> inert p" and "\<forall>n \<in> set ns. n \<noteq> [] \<and> CHR '' '' \<notin> set n"
  shows "(let q = run_partition [ClickEdit trigger name (join_str comma_space ns)] p in
            is_open PartitionEditorDialog q \<and> partition_name q = name \<and> name_readonly q
          \<and> editor_title q = update_label p \<and> submit_text q = update_label p
          \<and> focused q = Some PartitionNameInput
          \<and> map box_value (node_boxes q) = map box_value (node_boxes p)
          \<and> (\<forall>b \<in> set (node_boxes q). box_checked b
               \<longleftrightarrow> box_value b \<in> set ns \<or> box_value b \<in> set object_prototype_names))"
  unfolding Let_def edit_partition_task [OF assms]
  by (simp add: page_simps node_boxes_checked selected_truthy_def del: list.set_map)

text \<open>
  Deleting asks about the partition that was clicked: the dialog opens with its name in
  the text and in the form, and closing it changes neither dialog's content and returns the
  focus to the control, while the editor's own control is left alone.
\<close>

theorem delete_dialog_consistent:
  assumes "calm p" and "\<not> inert p"
  shows "(let q = run_partition [ClickDelete trigger name] p;
              q' = run_partition [ClickDelete trigger name, ClosePartition PartitionDeleteDialog] p
          in is_open PartitionDeleteDialog q \<and> delete_input q = name \<and> delete_name q = name
           \<and> focused q = Some PartitionDeleteSubmit
           \<and> \<not> inert q' \<and> \<not> modal_open q' \<and> focused q' = Some trigger
           \<and> editor_trigger q' = editor_trigger p \<and> node_boxes q' = node_boxes p)"
proof -
  let ?s = "p\<lparr>delete_trigger := Some trigger, delete_input := name, delete_name := name\<rparr>"
  let ?q = "focus_on PartitionDeleteSubmit
    ((lock_scroll ?s)\<lparr>dialogs := (dialogs p)(PartitionDeleteDialog := Modal)\<rparr>)"
  have q: "run_partition [ClickDelete trigger name] p = ?q"
    using assms(2) partition_opens_task [OF assms(1,2), of ?s] by simp
  have calm: "calm ?q"
    using partition_dialog.calm_run [OF assms(1), of "[ClickDelete trigger name]"] q by simp
  have "run_partition [ClickDelete trigger name, ClosePartition PartitionDeleteDialog] p
      = partition_task (ClosePartition PartitionDeleteDialog) ?q"
    using run_tasks_append [of partition_enabled partition_act on_partition_close
        "[ClickDelete trigger name]" "[ClosePartition PartitionDeleteDialog]" p]
    unfolding q by (simp add: page_simps)
  also have "\<dots> = on_partition_close PartitionDeleteDialog
      (?q\<lparr>dialogs := (dialogs ?q)(PartitionDeleteDialog := Closed), close_events := []\<rparr>)"
    by (rule close_partition_task [OF calm]) (simp add: page_simps)
  finally have q': "run_partition [ClickDelete trigger name, ClosePartition PartitionDeleteDialog] p
      = on_partition_close PartitionDeleteDialog
          (?q\<lparr>dialogs := (dialogs ?q)(PartitionDeleteDialog := Closed), close_events := []\<rparr>)" .
  let ?r = "on_partition_close PartitionDeleteDialog
      (?q\<lparr>dialogs := (dialogs ?q)(PartitionDeleteDialog := Closed), close_events := []\<rparr>)"
  have "dialogs ?r = (dialogs p)(PartitionDeleteDialog := Closed)" "\<not> modal_open ?r"
    "focused ?r = Some trigger" "editor_trigger ?r = editor_trigger p" "node_boxes ?r = node_boxes p"
    by (simp_all add: on_partition_close_def Let_def focus_opt_def focus_on_def lock_scroll_def
        unlock_scroll_def)
  moreover from this have "\<not> inert ?r" using assms(2) by (auto simp: inert_def)
  moreover have "is_open PartitionDeleteDialog ?q" "delete_input ?q = name" "delete_name ?q = name"
    "focused ?q = Some PartitionDeleteSubmit"
    by (simp_all add: is_open_def focus_on_def lock_scroll_def)
  ultimately show ?thesis
    unfolding q Let_def q' by blast
qed

text \<open>
  The editor the server opens. On a page that arrives with the editor open, it becomes
  modal and the scrolling is locked; the event of the \<open>close\<close> call that came first then
  unlocks the scrolling while the editor is still open.
\<close>

theorem served_editor_loses_lock:
  assumes "served_open PartitionEditorDialog p"
  shows "(let q = state (load_partition_page p); q' = settle on_partition_close q
          in dialogs q PartitionEditorDialog = Modal \<and> modal_open q
           \<and> dialogs q' PartitionEditorDialog = Modal \<and> \<not> modal_open q')"
  using assms
  by (simp add: served_open_def load_partition_page_def close_if_open_def open_partition_modal_def
      on_partition_close_def page_simps Let_def)

section \<open>Witnesses\<close>

definition example_partition_page :: partition_page where
  "example_partition_page =
     page.extend blank_page
       (partition_page.fields [] [] False [] []
          (map (\<lambda>n. \<lparr>box_value = n, box_default = False, box_checked = False\<rparr>)
             [''n1'', ''n2'', ''constructor''])
          ''Update'' ''Create'' [] [] None None)"

lemma example_partition_calm: "calm example_partition_page" "\<not> inert example_partition_page"
  by (simp_all add: calm_def inert_def example_partition_page_def page.extend_def
      partition_page.fields_def blank_page_def)

theorem edit_checks_members_witness:
  "map box_value (filter box_checked (node_boxes
       (run_partition [ClickEdit (Node 1) ''main'' ''n2, n7''] example_partition_page)))
     = [''n2'', ''constructor'']"
proof -
  let ?q = "run_partition [ClickEdit (Node 1) ''main'' ''n2, n7''] example_partition_page"
  have attr: "join_str comma_space [''n2'', ''n7''] = ''n2, n7''"
    by (simp add: comma_space_def)
  have "\<forall>n \<in> set [''n2'', ''n7'']. n \<noteq> [] \<and> CHR '' '' \<notin> set n" by simp
  from edit_checks_members [OF example_partition_calm this, of "Node 1" "''main''"]
  have q: "map box_value (node_boxes ?q) = [''n1'', ''n2'', ''constructor'']"
    and c: "\<forall>b \<in> set (node_boxes ?q). box_checked b
      \<longleftrightarrow> box_value b \<in> set [''n2'', ''n7''] \<or> box_value b \<in> set object_prototype_names"
    unfolding Let_def attr
    by (simp_all add: example_partition_page_def page.extend_def partition_page.fields_def)
  obtain a b d where bs: "node_boxes ?q = [a, b, d]"
    "box_value a = ''n1''" "box_value b = ''n2''" "box_value d = ''constructor''"
    using q by (auto simp: map_eq_Cons_conv)
  have "\<not> box_checked a" "box_checked b" "box_checked d"
    using c [unfolded bs(1)] bs(2-4) by (simp_all add: object_prototype_names_def)
  then show ?thesis unfolding bs(1) using bs(3,4) by simp
qed

theorem delete_dialog_consistent_witness:
  "delete_input (run_partition [ClickDelete (Node 1) ''main''] example_partition_page) = ''main''
 \<and> focused (run_partition [ClickDelete (Node 1) ''main'', ClosePartition PartitionDeleteDialog]
       example_partition_page) = Some (Node 1)"
  using delete_dialog_consistent [OF example_partition_calm, of "Node 1" "''main''"]
  unfolding Let_def by blast

theorem served_editor_loses_lock_witness:
  "\<not> modal_open (settle on_partition_close (state (load_partition_page
       (example_partition_page\<lparr>dialogs := (\<lambda>_. Closed)(PartitionEditorDialog := NonModal)\<rparr>))))"
proof -
  have "served_open PartitionEditorDialog
      (example_partition_page\<lparr>dialogs := (\<lambda>_. Closed)(PartitionEditorDialog := NonModal)\<rparr>)"
    by (simp add: served_open_def example_partition_page_def page.extend_def
        partition_page.fields_def blank_page_def)
  from served_editor_loses_lock [OF this] show ?thesis unfolding Let_def by blast
qed

end
