(* ===== verification/Chrome.thy ===== *)
theory Chrome
  imports Browser
begin

text \<open>
  The frame around every page (\<open>app.js\<close>, lines 2 to 12, 61 to 66 and 671 to 680): the menu
  button of the side bar, the keyboard shortcuts, and the titles that the script gives to
  controls without one.
\<close>

section \<open>Side bar and shortcuts\<close>

record chrome_page = page +
  has_menu :: bool                 \<comment> \<open>menu button and side bar exist\<close>
  has_search :: bool
  sidebar_open :: bool             \<comment> \<open>class \<open>open\<close>\<close>
  menu_expanded :: string          \<comment> \<open>\<open>aria-expanded\<close> of the menu button\<close>

definition js_string_of_bool :: "bool \<Rightarrow> string" where
  "js_string_of_bool b = (if b then ''true'' else ''false'')"

definition set_menu_open :: "bool \<Rightarrow> chrome_page \<Rightarrow> chrome_page" where
  "set_menu_open b p = p\<lparr>sidebar_open := b, menu_expanded := js_string_of_bool b\<rparr>"

text \<open>
  \<open>key.toLowerCase() === 'k'\<close>: the two letters, and U+212A, the Kelvin sign, whose lower
  case is the letter too.
\<close>

definition kelvin_sign :: string where
  "kelvin_sign = [CHR 0xE2, CHR 0x84, CHR 0xAA]"

definition lowers_to_k :: "string \<Rightarrow> bool" where
  "lowers_to_k key \<longleftrightarrow> key = ''k'' \<or> key = ''K'' \<or> key = kelvin_sign"

datatype chrome_event =
  ClickMenu
| KeyDown string bool bool         \<comment> \<open>\<open>key\<close>, \<open>metaKey\<close>, \<open>ctrlKey\<close>\<close>

definition on_key_down :: "string \<Rightarrow> bool \<Rightarrow> bool \<Rightarrow> chrome_page \<Rightarrow> chrome_page" where
  "on_key_down key meta ctrl p =
     (let p = (if key = ''Escape'' \<and> has_menu p \<and> sidebar_open p
               then focus_on MenuButton (set_menu_open False p) else p)
      in if (meta \<or> ctrl) \<and> lowers_to_k key \<and> has_search p then focus_on SearchInput p else p)"

fun chrome_act :: "chrome_event \<Rightarrow> chrome_page \<Rightarrow> chrome_page" where
  "chrome_act ClickMenu p = (if has_menu p then set_menu_open (\<not> sidebar_open p) p else p)"
| "chrome_act (KeyDown key meta ctrl) p = on_key_down key meta ctrl p"

fun run_chrome :: "chrome_event list \<Rightarrow> chrome_page \<Rightarrow> chrome_page" where
  "run_chrome [] p = p"
| "run_chrome (e # es) p = run_chrome es (chrome_act e p)"

definition menu_agrees :: "chrome_page \<Rightarrow> bool" where
  "menu_agrees p \<longleftrightarrow> menu_expanded p = js_string_of_bool (sidebar_open p)"

lemma menu_agrees_act: "menu_agrees p \<Longrightarrow> menu_agrees (chrome_act e p)"
  by (cases e) (simp_all add: menu_agrees_def on_key_down_def set_menu_open_def focus_on_def Let_def)

lemma menu_agrees_run: "menu_agrees p \<Longrightarrow> menu_agrees (run_chrome es p)"
  by (induction es arbitrary: p) (auto intro: menu_agrees_act)

lemma run_chrome_append: "run_chrome (es @ es') p = run_chrome es' (run_chrome es p)"
  by (induction es arbitrary: p) auto

text \<open>
  Side bar and shortcuts. When the attribute \<open>aria-expanded\<close> agrees with the side bar at
  first, it does after every sequence of clicks and keys; whatever came before, Escape then
  leaves the side bar closed, and Ctrl or Meta with K puts the focus into the search field
  without touching the side bar.
\<close>

theorem menu_and_shortcuts:
  assumes "menu_agrees p" and "has_menu p" and "has_search p" and "lowers_to_k key"
  shows "menu_agrees (run_chrome es p)
       \<and> \<not> sidebar_open (run_chrome (es @ [KeyDown ''Escape'' meta ctrl]) p)
       \<and> (sidebar_open (run_chrome es p)
            \<longrightarrow> focused (run_chrome (es @ [KeyDown ''Escape'' meta ctrl]) p) = Some MenuButton)
       \<and> focused (run_chrome (es @ [KeyDown key meta True]) p) = Some SearchInput
       \<and> sidebar_open (run_chrome (es @ [KeyDown key meta True]) p) = sidebar_open (run_chrome es p)"
proof -
  have has: "has_menu (run_chrome es q) = has_menu q \<and> has_search (run_chrome es q) = has_search q" for q
  proof (induction es arbitrary: q)
    case (Cons e es)
    have "has_menu (chrome_act e q) = has_menu q" "has_search (chrome_act e q) = has_search q"
      by (cases e; simp add: on_key_down_def set_menu_open_def focus_on_def Let_def)+
    then show ?case using Cons by simp
  qed simp
  have "key \<noteq> ''Escape''" "\<not> lowers_to_k ''Escape''"
    using assms(4) by (auto simp: lowers_to_k_def kelvin_sign_def)
  then show ?thesis
    using menu_agrees_run [OF assms(1)] assms has [of p]
    by (simp add: run_chrome_append on_key_down_def set_menu_open_def focus_on_def Let_def)
qed

definition example_chrome :: chrome_page where
  "example_chrome = page.extend blank_page (chrome_page.fields True True False ''false'')"

theorem menu_and_shortcuts_witness:
  "sidebar_open (run_chrome [ClickMenu] example_chrome)
 \<and> \<not> sidebar_open (run_chrome ([ClickMenu] @ [KeyDown ''Escape'' False False]) example_chrome)"
proof
  show "sidebar_open (run_chrome [ClickMenu] example_chrome)"
    by (simp add: example_chrome_def page.extend_def chrome_page.fields_def set_menu_open_def)
  have "menu_agrees example_chrome" "has_menu example_chrome" "has_search example_chrome"
    "lowers_to_k ''k''"
    by (simp_all add: example_chrome_def page.extend_def chrome_page.fields_def menu_agrees_def
        js_string_of_bool_def lowers_to_k_def)
  from menu_and_shortcuts [OF this]
  show "\<not> sidebar_open (run_chrome ([ClickMenu] @ [KeyDown ''Escape'' False False]) example_chrome)"
    by blast
qed

section \<open>Titles of controls\<close>

record control =
  control_title :: string
  aria_hidden :: bool
  aria_label :: string             \<comment> \<open>empty when the attribute is missing\<close>
  control_text :: string
  button_like :: bool              \<comment> \<open>matches \<open>button, a, summary\<close>\<close>

definition control_label :: "control \<Rightarrow> string" where
  "control_label c =
     (if aria_label c = [] \<and> button_like c then js_trim (control_text c) else aria_label c)"

definition title_control :: "control \<Rightarrow> control" where
  "title_control c =
     (if control_title c \<noteq> [] \<or> aria_hidden c then c
      else if control_label c \<noteq> []
      then c\<lparr>control_title := collapse_spaces js_spaces False (control_label c)\<rparr>
      else c)"

text \<open>Text on one line: no white space but single spaces.\<close>

fun single_spaced :: "string \<Rightarrow> bool" where
  "single_spaced (c # d # cs) \<longleftrightarrow> \<not> (c = CHR '' '' \<and> d = CHR '' '') \<and> single_spaced (d # cs)"
| "single_spaced _ \<longleftrightarrow> True"

definition on_one_line :: "string \<Rightarrow> bool" where
  "on_one_line s \<longleftrightarrow> single_spaced s \<and> (\<forall>c \<in> set s. [c] \<in> set js_spaces \<longrightarrow> c = CHR '' '')"

lemma leading_Nil: "leading toks [] = None"
  by (auto simp: leading_def find_None_iff)

lemma leading_single: "leading toks (c # cs) = None \<Longrightarrow> [c] \<notin> set toks"
  by (force simp: leading_def find_None_iff)

lemma single_spaced_Cons:
  "single_spaced (c # s) \<longleftrightarrow> single_spaced s \<and> \<not> (c = CHR '' '' \<and> (\<exists>cs. s = CHR '' '' # cs))"
  by (cases s) auto

lemma space_is_js_space: "'' '' \<in> set js_spaces"
  by code_simp

lemma collapse_on_one_line:
  "on_one_line (collapse_spaces js_spaces in_run s)
     \<and> (in_run \<longrightarrow> (\<forall>cs. collapse_spaces js_spaces in_run s \<noteq> CHR '' '' # cs))"
proof (induction js_spaces in_run s rule: collapse_spaces.induct)
  case (1 in_run s)
  show ?case
  proof (cases "leading js_spaces s")
    case None
    show ?thesis
    proof (cases s)
      case Nil
      then show ?thesis using None
        by (subst (1 2) collapse_spaces.simps) (simp add: on_one_line_def)
    next
      case (Cons c cs)
      then have "collapse_spaces js_spaces in_run s = c # collapse_spaces js_spaces False cs"
        using None by (subst collapse_spaces.simps) simp
      moreover have "c \<noteq> CHR '' ''"
        using leading_single [of js_spaces c cs] None Cons space_is_js_space by auto
      ultimately show ?thesis
        using 1(1) [OF None Cons] None Cons leading_single [of js_spaces c cs]
        by (auto simp: on_one_line_def single_spaced_Cons)
    qed
  next
    case (Some t)
    then have "collapse_spaces js_spaces in_run s
        = (if in_run then [] else '' '') @ collapse_spaces js_spaces True (drop (length t) s)"
      by (subst collapse_spaces.simps) simp
    then show ?thesis
      using 1(2) [OF Some]
      by (cases in_run) (simp_all add: on_one_line_def single_spaced_Cons)
  qed
qed

lemma collapse_not_Nil:
  "s \<noteq> [] \<Longrightarrow> collapse_spaces js_spaces False s \<noteq> []"
  by (subst collapse_spaces.simps) (auto split: option.splits list.splits)

text \<open>
  Titles. A control that has a title or is hidden from assistive technology keeps what it
  has; any other control whose label or, for buttons, links and summaries, whose text is not
  blank gets it as its title, on one line with single spaces. Running the script again
  changes nothing.
\<close>

theorem titles_on_one_line:
  "(control_title c \<noteq> [] \<or> aria_hidden c \<longrightarrow> title_control c = c)
 \<and> (control_title c = [] \<and> \<not> aria_hidden c \<longrightarrow>
      control_title (title_control c) = collapse_spaces js_spaces False (control_label c)
    \<and> on_one_line (control_title (title_control c))
    \<and> (control_title (title_control c) = [] \<longleftrightarrow> control_label c = []))
 \<and> title_control (title_control c) = title_control c"
proof -
  have "collapse_spaces js_spaces False [] = []"
    by (subst collapse_spaces.simps) (simp add: leading_Nil)
  then show ?thesis
    using collapse_on_one_line [of False "control_label c"] collapse_not_Nil [of "control_label c"]
    by (auto simp: title_control_def on_one_line_def)
qed


theorem titles_on_one_line_witness:
  "control_title (title_control
     \<lparr>control_title = [], aria_hidden = False, aria_label = [], control_text = '' Open ..  menu '',
      button_like = True\<rparr>) = ''Open .. menu''"
proof -
  let ?c = "\<lparr>control_title = [], aria_hidden = False, aria_label = [],
    control_text = '' Open ..  menu '', button_like = True\<rparr>"
  have "control_label ?c = ''Open ..  menu''" by code_simp
  moreover have "collapse_spaces js_spaces False ''Open ..  menu'' = ''Open .. menu''"
    by code_simp
  ultimately show ?thesis
    using titles_on_one_line [of ?c] by simp
qed

end
