(* ===== verification/TerminalPage.thy ===== *)
theory TerminalPage
  imports Complex_Main Uri
begin

text \<open>
  The SSH terminal of the browser (\<open>app.js\<close>, lines 569 to 669): the connect form asks the
  server for a session, a web socket carries it, and the emulator shows it. The emulator
  (xterm.js) and its fit addon are not part of the program: an answer of the addon is part
  of the geometry an event carries, and of the emulator only the size, the flag
  \<open>disableStdin\<close> and the texts written since the last reset are kept.
\<close>

section \<open>State\<close>

datatype ready_state = Connecting | SocketOpen | Closing | SocketClosed

datatype client_message =
  InputMessage string
| ResizeMessage nat nat     \<comment> \<open>rows and columns\<close>

record terminal_page =
  has_emulator :: bool
  has_fit :: bool
  disable_stdin :: bool
  term_rows :: nat
  term_cols :: nat
  written :: "string list"
  term_focused :: bool
  terminal_status :: string
  open_disabled :: bool                  \<comment> \<open>the connect button\<close>
  terminal_socket :: "nat option"
  sockets :: "(string \<times> ready_state) list"  \<comment> \<open>address and state, by number\<close>
  sent_messages :: "(nat \<times> client_message) list"
  resize_frame :: bool                   \<comment> \<open>\<open>terminalResizeFrame !== null\<close>\<close>
  frames :: nat                          \<comment> \<open>frame callbacks still to come\<close>
  session_requests :: nat                \<comment> \<open>session requests without an answer yet\<close>

definition ready :: "nat \<Rightarrow> terminal_page \<Rightarrow> ready_state" where
  "ready i p = (if i < length (sockets p) then snd (sockets p ! i) else SocketClosed)"

definition set_ready :: "nat \<Rightarrow> ready_state \<Rightarrow> terminal_page \<Rightarrow> terminal_page" where
  "set_ready i r p = p\<lparr>sockets := (sockets p)[i := (fst (sockets p ! i), r)]\<rparr>"

section \<open>Operations\<close>

definition send_message :: "client_message \<Rightarrow> terminal_page \<Rightarrow> terminal_page" where
  \<comment> \<open>\<open>if (terminalSocket && terminalSocket.readyState === WebSocket.OPEN)\<close>\<close>
  "send_message m p =
     (case terminal_socket p of
        Some i \<Rightarrow>
          if ready i p = SocketOpen then p\<lparr>sent_messages := sent_messages p @ [(i, m)]\<rparr> else p
      | None \<Rightarrow> p)"

text \<open>
  What the browser knows when a frame is drawn: the size of the console element, the size
  the fit addon proposes, and, once something is rendered, the height of the terminal's
  root and of one row.
\<close>

record geometry =
  console_width :: nat
  console_height :: nat
  fitted :: "(nat \<times> nat) option"        \<comment> \<open>rows and columns\<close>
  rendered :: "(rat \<times> rat) option"      \<comment> \<open>\<open>clientHeight\<close> and row height\<close>

definition fit_emulator :: "geometry \<Rightarrow> terminal_page \<Rightarrow> terminal_page" where
  "fit_emulator g p =
     (case fitted g of
        Some (rows, cols) \<Rightarrow> p\<lparr>term_rows := rows, term_cols := cols\<rparr>
      | None \<Rightarrow> p)"

definition visible_rows :: "rat \<Rightarrow> rat \<Rightarrow> nat \<Rightarrow> int" where
  "visible_rows client row_height rows =
     (if row_height > 0 then \<lfloor>client / row_height\<rfloor> else int rows)"

definition resize_terminal :: "geometry \<Rightarrow> terminal_page \<Rightarrow> terminal_page" where
  "resize_terminal g p =
     (let p = p\<lparr>resize_frame := False\<rparr>
      in if \<not> has_emulator p \<or> \<not> has_fit p \<or> console_width g = 0 \<or> console_height g = 0 then p
         else
           let p = fit_emulator g p;
               p = (case rendered g of
                      Some (client, h) \<Rightarrow>
                        (let v = visible_rows client h (term_rows p)
                         in if 0 < v \<and> v < int (term_rows p) then p\<lparr>term_rows := nat v\<rparr> else p)
                    | None \<Rightarrow> p)
           in send_message (ResizeMessage (term_rows p) (term_cols p)) p)"

definition queue_terminal_resize :: "terminal_page \<Rightarrow> terminal_page" where
  "queue_terminal_resize p =
     (if resize_frame p then p else p\<lparr>resize_frame := True, frames := Suc (frames p)\<rparr>)"

definition set_terminal_status :: "string \<Rightarrow> terminal_page \<Rightarrow> terminal_page" where
  "set_terminal_status t p = p\<lparr>terminal_status := t\<rparr>"

definition close_socket :: "nat \<Rightarrow> terminal_page \<Rightarrow> terminal_page" where
  \<comment> \<open>\<open>WebSocket.prototype.close\<close>\<close>
  "close_socket i p =
     (if ready i p \<in> {Connecting, SocketOpen} then set_ready i Closing p else p)"

definition close_terminal :: "terminal_page \<Rightarrow> terminal_page" where
  "close_terminal p =
     (let p = (case terminal_socket p of Some i \<Rightarrow> close_socket i p | None \<Rightarrow> p);
          p = p\<lparr>terminal_socket := None\<rparr>
      in if has_emulator p then p\<lparr>disable_stdin := True\<rparr> else p)"

definition no_emulator_text :: string where
  "no_emulator_text = ''Connection failed: xterm.js could not be loaded''"

definition submit_terminal :: "terminal_page \<Rightarrow> terminal_page" where
  "submit_terminal p =
     (let p = close_terminal p
      in if \<not> has_emulator p then set_terminal_status no_emulator_text p
         else set_terminal_status ''Connecting...''
           (p\<lparr>written := [], open_disabled := True,
              session_requests := Suc (session_requests p)\<rparr>))"

text \<open>
  The answer to the session request: a session id; an answer that is not ok with the error
  of its payload, if it has one, and its status; or a failed request with its message.
\<close>

datatype session_answer =
  SessionCreated string
| SessionRefused "string option" nat
| SessionFailed string

definition refusal_text :: "string option \<Rightarrow> nat \<Rightarrow> string" where
  "refusal_text err status_code =
     (case err of
        Some e \<Rightarrow> if e \<noteq> [] then e else ''Server returned HTTP '' @ dec status_code
      | None \<Rightarrow> ''Server returned HTTP '' @ dec status_code)"

definition connect_socket :: "string \<Rightarrow> string \<Rightarrow> string \<Rightarrow> terminal_page \<Rightarrow> terminal_page" where
  "connect_socket protocol host session_id p =
     p\<lparr>terminal_socket := Some (length (sockets p)),
       sockets := sockets p @ [(socket_url protocol host session_id, Connecting)]\<rparr>"

definition session_answered ::
  "string \<Rightarrow> string \<Rightarrow> session_answer \<Rightarrow> terminal_page \<Rightarrow> terminal_page" where
  "session_answered protocol host answer p =
     (let p = (case answer of
          SessionCreated session_id \<Rightarrow> connect_socket protocol host session_id p
        | SessionRefused err status_code \<Rightarrow>
            set_terminal_status (''Connection failed: '' @ refusal_text err status_code) p
        | SessionFailed msg \<Rightarrow> set_terminal_status (''Connection failed: '' @ msg) p)
      in p\<lparr>open_disabled := False, session_requests := session_requests p - 1\<rparr>)"

definition channel_failed_text :: string where
  "channel_failed_text = ''Connection failed: the terminal channel could not be opened''"

definition on_socket_open :: "geometry \<Rightarrow> terminal_page \<Rightarrow> terminal_page" where
  "on_socket_open g p =
     set_terminal_status ''Connected''
       ((resize_terminal g (p\<lparr>disable_stdin := False\<rparr>))\<lparr>term_focused := True\<rparr>)"

definition on_socket_close :: "bool \<Rightarrow> terminal_page \<Rightarrow> terminal_page" where
  \<comment> \<open>the event \<open>error\<close>, when the connection failed, comes before the event \<open>close\<close>\<close>
  "on_socket_close failed p =
     (let p = (if failed then set_terminal_status channel_failed_text p else p)
      in set_terminal_status ''Disconnected'' (p\<lparr>disable_stdin := True\<rparr>))"

datatype terminal_event =
  SubmitTerminal
| SessionAnswered session_answer
| SocketOpens nat geometry
| SocketMessage nat string
| SocketBeginsClosing nat           \<comment> \<open>the other side starts the closing handshake\<close>
| SocketCloses nat bool
| EmulatorData string
| ConsoleResized
| FrameDrawn geometry
| LeavePage

fun terminal_act :: "string \<Rightarrow> string \<Rightarrow> terminal_event \<Rightarrow> terminal_page \<Rightarrow> terminal_page" where
  "terminal_act protocol host SubmitTerminal p = submit_terminal p"
| "terminal_act protocol host (SessionAnswered answer) p = session_answered protocol host answer p"
| "terminal_act protocol host (SocketOpens i g) p = on_socket_open g (set_ready i SocketOpen p)"
| "terminal_act protocol host (SocketMessage i data) p = p\<lparr>written := written p @ [data]\<rparr>"
| "terminal_act protocol host (SocketBeginsClosing i) p = set_ready i Closing p"
| "terminal_act protocol host (SocketCloses i failed) p =
     on_socket_close failed (set_ready i SocketClosed p)"
| "terminal_act protocol host (EmulatorData data) p = send_message (InputMessage data) p"
| "terminal_act protocol host ConsoleResized p = queue_terminal_resize p"
| "terminal_act protocol host (FrameDrawn g) p =
     resize_terminal g (p\<lparr>frames := frames p - 1\<rparr>)"
| "terminal_act protocol host LeavePage p = close_terminal p"

text \<open>
  The user cannot submit while the button is disabled; the states of a socket only move
  forward, and it delivers messages only while it is open.
\<close>

fun terminal_enabled :: "terminal_event \<Rightarrow> terminal_page \<Rightarrow> bool" where
  "terminal_enabled SubmitTerminal p \<longleftrightarrow> \<not> open_disabled p"
| "terminal_enabled (SessionAnswered answer) p \<longleftrightarrow> 0 < session_requests p"
| "terminal_enabled (SocketOpens i g) p \<longleftrightarrow> ready i p = Connecting"
| "terminal_enabled (SocketMessage i data) p \<longleftrightarrow> ready i p = SocketOpen"
| "terminal_enabled (SocketBeginsClosing i) p \<longleftrightarrow> ready i p = SocketOpen"
| "terminal_enabled (SocketCloses i failed) p \<longleftrightarrow> ready i p \<noteq> SocketClosed"
| "terminal_enabled (EmulatorData data) p \<longleftrightarrow> \<not> disable_stdin p"
| "terminal_enabled ConsoleResized p \<longleftrightarrow> True"
| "terminal_enabled (FrameDrawn g) p \<longleftrightarrow> 0 < frames p"
| "terminal_enabled LeavePage p \<longleftrightarrow> True"

text \<open>Runs as a step relation: the events that happen and the pages they lead to.\<close>

inductive terminal_steps ::
  "string \<Rightarrow> string \<Rightarrow> terminal_page \<Rightarrow> terminal_event list \<Rightarrow> terminal_page \<Rightarrow> bool"
  for protocol :: string and host :: string where
  terminal_start: "terminal_steps protocol host p [] p"
| terminal_step:
    "terminal_steps protocol host p es q \<Longrightarrow> terminal_enabled e q \<Longrightarrow>
       terminal_steps protocol host p (es @ [e]) (terminal_act protocol host e q)"

inductive_simps terminal_steps_Nil [simp]: "terminal_steps protocol host p [] q"
inductive_simps terminal_steps_snoc: "terminal_steps protocol host p (es @ [e]) q"

text \<open>The page when the script has run: the emulator, if it exists, is open and takes no input.\<close>

definition initial_terminal :: "bool \<Rightarrow> bool \<Rightarrow> (nat \<times> nat) option \<Rightarrow> terminal_page" where
  "initial_terminal emulator fit_addon proposed =
     \<lparr>has_emulator = emulator, has_fit = fit_addon, disable_stdin = True,
      term_rows = (case proposed of Some (r, c) \<Rightarrow> if fit_addon then r else 24 | None \<Rightarrow> 24),
      term_cols = (case proposed of Some (r, c) \<Rightarrow> if fit_addon then c else 100 | None \<Rightarrow> 100),
      written = [], term_focused = False, terminal_status = [], open_disabled = False,
      terminal_socket = None, sockets = [], sent_messages = [], resize_frame = False, frames = 0,
      session_requests = 0\<rparr>"


lemma terminal_steps_Cons:
  "terminal_steps protocol host p (e # es) q
     \<longleftrightarrow> terminal_enabled e p \<and> terminal_steps protocol host (terminal_act protocol host e p) es q"
proof (induction es arbitrary: q rule: rev_induct)
  case Nil
  show ?case
    using terminal_steps_snoc [of protocol host p "[]" e q] by auto
next
  case (snoc x es)
  then show ?case
    using terminal_steps_snoc [of protocol host p "e # es" x q]
    by (auto simp: terminal_steps_snoc)
qed

section \<open>What the operations keep\<close>

lemma send_message_fields [simp]:
  "has_emulator (send_message m p) = has_emulator p" "has_fit (send_message m p) = has_fit p"
  "disable_stdin (send_message m p) = disable_stdin p"
  "term_rows (send_message m p) = term_rows p" "term_cols (send_message m p) = term_cols p"
  "terminal_status (send_message m p) = terminal_status p"
  "open_disabled (send_message m p) = open_disabled p"
  "terminal_socket (send_message m p) = terminal_socket p"
  "sockets (send_message m p) = sockets p"
  "session_requests (send_message m p) = session_requests p"
  by (simp_all add: send_message_def split: option.splits)

lemma resize_terminal_fields [simp]:
  "has_emulator (resize_terminal g p) = has_emulator p"
  "disable_stdin (resize_terminal g p) = disable_stdin p"
  "terminal_status (resize_terminal g p) = terminal_status p"
  "open_disabled (resize_terminal g p) = open_disabled p"
  "terminal_socket (resize_terminal g p) = terminal_socket p"
  "sockets (resize_terminal g p) = sockets p"
  "session_requests (resize_terminal g p) = session_requests p"
  by (simp_all add: resize_terminal_def fit_emulator_def Let_def split: option.splits)

lemma set_ready_fields [simp]:
  "has_emulator (set_ready i r p) = has_emulator p"
  "disable_stdin (set_ready i r p) = disable_stdin p"
  "open_disabled (set_ready i r p) = open_disabled p"
  "terminal_socket (set_ready i r p) = terminal_socket p"
  "terminal_status (set_ready i r p) = terminal_status p"
  "session_requests (set_ready i r p) = session_requests p"
  "length (sockets (set_ready i r p)) = length (sockets p)"
  by (simp_all add: set_ready_def)

lemma ready_set_ready:
  "ready j (set_ready i r p) = (if j = i \<and> i < length (sockets p) then r else ready j p)"
  by (simp add: ready_def set_ready_def)

lemma ready_cong: "sockets p = sockets q \<Longrightarrow> ready i p = ready i q"
  by (simp add: ready_def)

lemma ready_in_range: "ready i p \<noteq> SocketClosed \<Longrightarrow> i < length (sockets p)"
  by (auto simp: ready_def split: if_splits)

definition idle :: "ready_state \<Rightarrow> bool" where
  "idle r \<longleftrightarrow> r = Closing \<or> r = SocketClosed"

definition terminal_inv :: "terminal_page \<Rightarrow> bool" where
  "terminal_inv p \<longleftrightarrow>
     (\<forall>i. terminal_socket p \<noteq> Some i \<longrightarrow> idle (ready i p))
   \<and> (\<not> disable_stdin p \<longrightarrow>
        (\<exists>i. terminal_socket p = Some i \<and> ready i p \<in> {SocketOpen, Closing}))
   \<and> (session_requests p = (if open_disabled p then 1 else 0))
   \<and> (open_disabled p \<longrightarrow> terminal_socket p = None)
   \<and> (\<not> has_emulator p \<longrightarrow>
        disable_stdin p \<and> \<not> open_disabled p \<and> terminal_socket p = None)"

lemma terminal_inv_cong:
  "terminal_socket q = terminal_socket p \<Longrightarrow> sockets q = sockets p \<Longrightarrow>
   disable_stdin q = disable_stdin p \<Longrightarrow> session_requests q = session_requests p \<Longrightarrow>
   open_disabled q = open_disabled p \<Longrightarrow> has_emulator q = has_emulator p \<Longrightarrow>
   terminal_inv q \<longleftrightarrow> terminal_inv p"
  by (simp add: terminal_inv_def ready_def)

lemma close_terminal_fields [simp]:
  "terminal_socket (close_terminal p) = None"
  "has_emulator (close_terminal p) = has_emulator p"
  "open_disabled (close_terminal p) = open_disabled p"
  "session_requests (close_terminal p) = session_requests p"
  "disable_stdin (close_terminal p) = (has_emulator p \<or> disable_stdin p)"
  "terminal_status (close_terminal p) = terminal_status p"
  "length (sockets (close_terminal p)) = length (sockets p)"
  by (auto simp: close_terminal_def close_socket_def Let_def split: option.splits)

lemma ready_close_socket:
  "ready j (close_socket i p) =
     (if j = i \<and> ready i p \<in> {Connecting, SocketOpen} then Closing else ready j p)"
  using ready_in_range [of i p] by (auto simp: close_socket_def ready_set_ready)

lemma ready_close_terminal:
  "ready j (close_terminal p) =
     (if terminal_socket p = Some j \<and> ready j p \<in> {Connecting, SocketOpen} then Closing
      else ready j p)"
proof (cases "terminal_socket p")
  case None
  then have "sockets (close_terminal p) = sockets p" by (simp add: close_terminal_def Let_def)
  from ready_cong [OF this] show ?thesis using None by simp
next
  case (Some i)
  then have "ready j (close_terminal p) = ready j (close_socket i p)"
    by (simp add: close_terminal_def Let_def ready_def)
  then show ?thesis using Some by (auto simp: ready_close_socket)
qed

lemma terminal_inv_close: "terminal_inv p \<Longrightarrow> terminal_inv (close_terminal p)"
  by (auto simp: terminal_inv_def ready_close_terminal idle_def) (metis ready_state.exhaust)+

lemma terminal_inv_idle: "terminal_inv p \<Longrightarrow> terminal_socket p \<noteq> Some i \<Longrightarrow> idle (ready i p)"
  by (simp add: terminal_inv_def)

lemma terminal_invI_detached:
  assumes "terminal_socket p = None" and "\<And>i. idle (ready i p)" and "disable_stdin p"
    and "session_requests p = (if open_disabled p then 1 else 0)"
    and "\<not> has_emulator p \<Longrightarrow> \<not> open_disabled p"
  shows "terminal_inv p"
  using assms by (simp add: terminal_inv_def)

lemma terminal_inv_submit:
  assumes "terminal_inv p" and "\<not> open_disabled p"
  shows "terminal_inv (submit_terminal p)"
proof (rule terminal_invI_detached)
  have "terminal_inv (close_terminal p)" using assms(1) by (rule terminal_inv_close)
  then have "idle (ready i (close_terminal p))" for i by (rule terminal_inv_idle) simp
  moreover have "ready i (submit_terminal p) = ready i (close_terminal p)" for i
    by (simp add: submit_terminal_def set_terminal_status_def Let_def ready_def)
  ultimately show "idle (ready i (submit_terminal p))" for i by simp
qed (use assms in \<open>auto simp: submit_terminal_def set_terminal_status_def Let_def terminal_inv_def\<close>)

lemma ready_connect:
  "ready i (connect_socket protocol host session_id p) =
     (if i = length (sockets p) then Connecting else ready i p)"
  by (auto simp: ready_def connect_socket_def nth_append)

lemma terminal_inv_answered:
  assumes "terminal_inv p" and "0 < session_requests p"
  shows "terminal_inv (session_answered protocol host answer p)"
proof -
  have p: "open_disabled p" "session_requests p = 1" "terminal_socket p = None"
    "has_emulator p" "disable_stdin p"
    using assms by (auto simp: terminal_inv_def split: if_splits)
  have idle_old: "idle (ready i p)" for i
    using terminal_inv_idle [OF assms(1)] p(3) by simp
  show ?thesis
  proof (cases answer)
    case (SessionCreated session_id)
    let ?c = "connect_socket protocol host session_id p"
    have "ready i (session_answered protocol host answer p) = ready i ?c" for i
      using SessionCreated by (simp add: session_answered_def Let_def ready_def)
    then have "idle (ready i (session_answered protocol host answer p))"
      if "i \<noteq> length (sockets p)" for i
      using idle_old that by (simp add: ready_connect)
    moreover have "terminal_socket (session_answered protocol host answer p) = Some (length (sockets p))"
      using SessionCreated by (simp add: session_answered_def connect_socket_def Let_def)
    ultimately show ?thesis
      using SessionCreated p
      by (auto simp: terminal_inv_def session_answered_def connect_socket_def Let_def)
  next
    case (SessionRefused err status_code)
    have "ready i (session_answered protocol host answer p) = ready i p" for i
      using SessionRefused by (simp add: session_answered_def set_terminal_status_def Let_def ready_def)
    then show ?thesis
      using SessionRefused p idle_old
      by (intro terminal_invI_detached)
        (simp_all add: session_answered_def set_terminal_status_def Let_def)
  next
    case (SessionFailed msg)
    have "ready i (session_answered protocol host answer p) = ready i p" for i
      using SessionFailed by (simp add: session_answered_def set_terminal_status_def Let_def ready_def)
    then show ?thesis
      using SessionFailed p idle_old
      by (intro terminal_invI_detached)
        (simp_all add: session_answered_def set_terminal_status_def Let_def)
  qed
qed

lemma terminal_inv_step:
  assumes "terminal_inv p" and "terminal_enabled e p"
  shows "terminal_inv (terminal_act protocol host e p)"
proof (cases e)
  case SubmitTerminal
  then show ?thesis using assms by (simp add: terminal_inv_submit)
next
  case (SessionAnswered answer)
  then show ?thesis using assms by (simp add: terminal_inv_answered)
next
  case (SocketOpens i g)
  then have c: "ready i p = Connecting" using assms(2) by simp
  then have i: "terminal_socket p = Some i" "i < length (sockets p)"
    using terminal_inv_idle [OF assms(1), of i] ready_in_range [of i p] by (auto simp: idle_def)
  let ?q = "terminal_act protocol host e p"
  have "ready j ?q = ready j (set_ready i SocketOpen p)" for j
    using SocketOpens by (simp add: on_socket_open_def set_terminal_status_def ready_def)
  then have ready: "ready j ?q = (if j = i then SocketOpen else ready j p)" for j
    using i(2) by (simp add: ready_set_ready)
  have "terminal_socket ?q = Some i" "\<not> disable_stdin ?q" "open_disabled ?q = open_disabled p"
    "session_requests ?q = session_requests p" "has_emulator ?q = has_emulator p"
    using SocketOpens i(1) by (simp_all add: on_socket_open_def set_terminal_status_def)
  moreover have "idle (ready j p)" if "j \<noteq> i" for j
    using terminal_inv_idle [OF assms(1)] i(1) that by simp
  ultimately show ?thesis
    using assms(1) i(1) unfolding terminal_inv_def ready by auto
next
  case (SocketMessage i data)
  have "terminal_inv (terminal_act protocol host e p) \<longleftrightarrow> terminal_inv p"
    unfolding SocketMessage by (rule terminal_inv_cong) simp_all
  then show ?thesis using assms(1) by simp
next
  case (SocketBeginsClosing i)
  then show ?thesis
    using assms by (auto simp: terminal_inv_def ready_set_ready idle_def)
next
  case (SocketCloses i failed)
  let ?q = "terminal_act protocol host e p"
  have "sockets ?q = sockets (set_ready i SocketClosed p)"
    using SocketCloses by (simp add: on_socket_close_def set_terminal_status_def Let_def)
  from ready_cong [OF this] have ready: "idle (ready j p) \<Longrightarrow> idle (ready j ?q)" for j
    by (simp add: ready_set_ready idle_def)
  have "terminal_socket ?q = terminal_socket p" "disable_stdin ?q"
    "open_disabled ?q = open_disabled p" "session_requests ?q = session_requests p"
    "has_emulator ?q = has_emulator p"
    using SocketCloses by (simp_all add: on_socket_close_def set_terminal_status_def Let_def)
  then show ?thesis
    using assms(1) ready unfolding terminal_inv_def by auto
next
  case (EmulatorData data)
  have "terminal_inv (terminal_act protocol host e p) \<longleftrightarrow> terminal_inv p"
    unfolding EmulatorData by (rule terminal_inv_cong) simp_all
  then show ?thesis using assms(1) by simp
next
  case ConsoleResized
  have "terminal_inv (terminal_act protocol host e p) \<longleftrightarrow> terminal_inv p"
    unfolding ConsoleResized
    by (rule terminal_inv_cong) (simp_all add: queue_terminal_resize_def)
  then show ?thesis using assms(1) by simp
next
  case (FrameDrawn g)
  have "terminal_inv (terminal_act protocol host e p) \<longleftrightarrow> terminal_inv p"
    unfolding FrameDrawn by (rule terminal_inv_cong) simp_all
  then show ?thesis using assms(1) by simp
next
  case LeavePage
  then show ?thesis using assms(1) by (simp add: terminal_inv_close)
qed

lemma terminal_inv_steps:
  "terminal_steps protocol host p es q \<Longrightarrow> terminal_inv p \<Longrightarrow> terminal_inv q"
  by (induction rule: terminal_steps.induct) (auto intro: terminal_inv_step)

lemma terminal_inv_initial: "terminal_inv (initial_terminal emulator fit_addon proposed)"
  by (simp add: terminal_inv_def initial_terminal_def ready_def idle_def)


section \<open>Properties\<close>

text \<open>
  C21. One session at a time. In every run from the loaded page at most one socket is
  connecting or open, at most one session request is under way and it keeps the connect
  button disabled, and the emulator takes input only while the page holds a socket that has
  opened and has not closed.
\<close>

theorem one_live_session:
  assumes "terminal_steps protocol host (initial_terminal emulator fit_addon proposed) es q"
  shows "(\<forall>i j. ready i q \<in> {Connecting, SocketOpen} \<longrightarrow> ready j q \<in> {Connecting, SocketOpen} \<longrightarrow> i = j)
       \<and> session_requests q = (if open_disabled q then 1 else 0)
       \<and> (\<not> disable_stdin q \<longrightarrow>
            (\<exists>i. terminal_socket q = Some i \<and> ready i q \<in> {SocketOpen, Closing}))"
proof -
  have inv: "terminal_inv q"
    using terminal_inv_steps [OF assms terminal_inv_initial] .
  have current: "terminal_socket q = Some i" if "ready i q \<in> {Connecting, SocketOpen}" for i
    using terminal_inv_idle [OF inv, of i] that by (cases "terminal_socket q = Some i") (auto simp: idle_def)
  then have "i = j" if "ready i q \<in> {Connecting, SocketOpen}" "ready j q \<in> {Connecting, SocketOpen}"
    for i j
    using current [OF that(1)] current [OF that(2)] by simp
  then show ?thesis
    using inv unfolding terminal_inv_def by blast
qed

definition plain_geometry :: geometry where
  "plain_geometry =
     \<lparr>console_width = 800, console_height = 405, fitted = Some (21, 98),
      rendered = Some (400, 20)\<rparr>"

abbreviation connect_events :: "nat \<Rightarrow> terminal_event list" where
  "connect_events i \<equiv>
     [SubmitTerminal, SessionAnswered (SessionCreated ''s1''), SocketOpens i plain_geometry]"

lemma submit_fields:
  assumes "has_emulator p"
  shows "terminal_socket (submit_terminal p) = None" "open_disabled (submit_terminal p)"
    "session_requests (submit_terminal p) = Suc (session_requests p)"
    "has_emulator (submit_terminal p)" "disable_stdin (submit_terminal p)"
    "written (submit_terminal p) = []" "length (sockets (submit_terminal p)) = length (sockets p)"
    "terminal_status (submit_terminal p) = ''Connecting...''"
    "ready i (submit_terminal p) = ready i (close_terminal p)"
  using assms
  by (simp_all add: submit_terminal_def set_terminal_status_def Let_def ready_def)

lemma answered_created_fields:
  "terminal_socket (session_answered protocol host (SessionCreated sid) p) = Some (length (sockets p))"
  "\<not> open_disabled (session_answered protocol host (SessionCreated sid) p)"
  "has_emulator (session_answered protocol host (SessionCreated sid) p) = has_emulator p"
  "written (session_answered protocol host (SessionCreated sid) p) = written p"
  "sockets (session_answered protocol host (SessionCreated sid) p)
     = sockets p @ [(socket_url protocol host sid, Connecting)]"
  "ready i (session_answered protocol host (SessionCreated sid) p)
     = (if i = length (sockets p) then Connecting else ready i p)"
proof -
  have "sockets (session_answered protocol host (SessionCreated sid) p)
      = sockets (connect_socket protocol host sid p)"
    by (simp add: session_answered_def Let_def)
  from ready_cong [OF this] show "ready i (session_answered protocol host (SessionCreated sid) p)
      = (if i = length (sockets p) then Connecting else ready i p)"
    by (simp add: ready_connect)
qed (simp_all add: session_answered_def connect_socket_def Let_def)

lemma opens_fields:
  "terminal_socket (terminal_act protocol host (SocketOpens i g) p) = terminal_socket p"
  "\<not> disable_stdin (terminal_act protocol host (SocketOpens i g) p)"
  "open_disabled (terminal_act protocol host (SocketOpens i g) p) = open_disabled p"
  "terminal_status (terminal_act protocol host (SocketOpens i g) p) = ''Connected''"
  "term_focused (terminal_act protocol host (SocketOpens i g) p)"
  "sockets (terminal_act protocol host (SocketOpens i g) p) = sockets (set_ready i SocketOpen p)"
  "ready j (terminal_act protocol host (SocketOpens i g) p) = ready j (set_ready i SocketOpen p)"
  by (simp_all add: on_socket_open_def set_terminal_status_def ready_def)

lemma written_resize [simp]: "written (resize_terminal g p) = written p"
  by (simp add: resize_terminal_def fit_emulator_def send_message_def Let_def split: option.splits)

lemma connect_result:
  assumes "has_emulator p" and "\<not> open_disabled p"
    and "terminal_steps protocol host p
      [SubmitTerminal, SessionAnswered (SessionCreated sid), SocketOpens (length (sockets p)) g] q"
  shows "terminal_socket q = Some (length (sockets p))
       \<and> ready (length (sockets p)) q = SocketOpen
       \<and> fst (sockets q ! length (sockets p)) = socket_url protocol host sid
       \<and> terminal_status q = ''Connected'' \<and> written q = [] \<and> \<not> disable_stdin q
       \<and> term_focused q \<and> \<not> open_disabled q
       \<and> (\<forall>i. terminal_socket p = Some i \<longrightarrow> i < length (sockets p) \<longrightarrow> ready i q \<noteq> SocketOpen)
       \<and> has_emulator q \<and> length (sockets q) = Suc (length (sockets p))"
proof -
  let ?n = "length (sockets p)"
  let ?a = "session_answered protocol host (SessionCreated sid) (submit_terminal p)"
  note s = submit_fields [OF assms(1)]
  note a = answered_created_fields [where protocol = protocol and host = host and sid = sid
    and p = "submit_terminal p", unfolded s]
  have q: "q = terminal_act protocol host (SocketOpens ?n g) ?a"
    using assms(3) by (simp add: terminal_steps_Cons)
  have len: "length (sockets ?a) = Suc ?n" by (simp add: a s)
  have "fst (sockets q ! ?n) = socket_url protocol host sid"
    unfolding q opens_fields by (simp add: set_ready_def a s(7) [symmetric] del: s(7))
  moreover have "written q = []"
    unfolding q by (simp add: on_socket_open_def set_terminal_status_def set_ready_def a)
  moreover have "ready i q \<noteq> SocketOpen" if "terminal_socket p = Some i" "i < ?n" for i
    unfolding q opens_fields using that by (simp add: ready_set_ready a s ready_close_terminal)
  moreover have "ready ?n q = SocketOpen"
    unfolding q opens_fields by (simp add: ready_set_ready len)
  moreover have "has_emulator q" "length (sockets q) = Suc ?n"
    unfolding q using s a by (simp_all add: on_socket_open_def set_terminal_status_def)
  ultimately show ?thesis
    using a opens_fields(2,5) [of protocol host ?n g ?a] unfolding q opens_fields by simp
qed

text \<open>
  Connecting. From a page that can submit, the submission, the created session and the
  opening of its socket lead to a fresh terminal: the new socket is the current one and has
  the address of the session, the status says connected, the emulator was cleared, takes
  input and has the focus, the button is enabled, and the socket the page held before is no
  longer open.
\<close>

theorem connecting_opens_session:
  assumes "has_emulator p" and "\<not> open_disabled p"
    and "terminal_steps protocol host p
      [SubmitTerminal, SessionAnswered (SessionCreated sid), SocketOpens (length (sockets p)) g] q"
  shows "terminal_socket q = Some (length (sockets p))
       \<and> ready (length (sockets p)) q = SocketOpen
       \<and> fst (sockets q ! length (sockets p)) = socket_url protocol host sid
       \<and> terminal_status q = ''Connected'' \<and> written q = [] \<and> \<not> disable_stdin q
       \<and> term_focused q \<and> \<not> open_disabled q
       \<and> (\<forall>i. terminal_socket p = Some i \<longrightarrow> i < length (sockets p) \<longrightarrow> ready i q \<noteq> SocketOpen)"
  using connect_result [OF assms] by blast

text \<open>
  A late goodbye. The socket of the old session closes after the browser has asked it to;
  its \<open>close\<close> event still reaches the listener of the old session. When it arrives after the
  new session has opened, the page says disconnected and the emulator takes no input,
  although the new socket is the current one and open.
\<close>

theorem late_close_disconnects:
  assumes "has_emulator p" and "\<not> open_disabled p" and "terminal_socket p = Some i"
    and "ready i p = SocketOpen"
    and "terminal_steps protocol host p
      [SubmitTerminal, SessionAnswered (SessionCreated sid), SocketOpens (length (sockets p)) g] q"
  shows "\<exists>r. terminal_steps protocol host q [SocketCloses i False] r
     \<and> terminal_status r = ''Disconnected'' \<and> disable_stdin r
     \<and> terminal_socket r = Some (length (sockets p)) \<and> ready (length (sockets p)) r = SocketOpen"
proof -
  let ?n = "length (sockets p)"
  let ?a = "session_answered protocol host (SessionCreated sid) (submit_terminal p)"
  note s = submit_fields [OF assms(1)]
  note a = answered_created_fields [where protocol = protocol and host = host and sid = sid
    and p = "submit_terminal p", unfolded s]
  have q: "q = terminal_act protocol host (SocketOpens ?n g) ?a"
    using assms(5) by (simp add: terminal_steps_Cons)
  have i: "i < ?n" using ready_in_range [of i p] assms(4) by simp
  have len: "length (sockets ?a) = Suc ?n" by (simp add: a s)
  have ready: "ready j q = ready j (set_ready ?n SocketOpen ?a)" for j
    unfolding q by (rule opens_fields)
  have iq: "ready i q = Closing" "ready ?n q = SocketOpen"
    using i assms(3,4) by (simp_all add: ready ready_set_ready len a s s ready_close_terminal)
  have sock: "terminal_socket q = Some ?n"
    unfolding q opens_fields by (rule a)
  let ?r = "terminal_act protocol host (SocketCloses i False) q"
  have "sockets ?r = sockets (set_ready i SocketClosed q)"
    by (simp add: on_socket_close_def set_terminal_status_def)
  from ready_cong [OF this] have "ready ?n ?r = SocketOpen"
    using iq i by (simp add: ready_set_ready)
  moreover have "terminal_steps protocol host q [SocketCloses i False] ?r"
    by (simp add: terminal_steps_Cons iq)
  moreover have "terminal_status ?r = ''Disconnected''" "disable_stdin ?r"
    "terminal_socket ?r = Some ?n"
    using sock by (simp_all add: on_socket_close_def set_terminal_status_def)
  ultimately show ?thesis by blast
qed

text \<open>
  A refused session. When the server refuses the session or the request fails, the page
  shows the reason (the error of the answer, or its status when there is none), no socket is
  made, the emulator takes no input, and the button is enabled for the next try.
\<close>

theorem refused_session:
  assumes "has_emulator p" and "\<not> open_disabled p"
    and "terminal_steps protocol host p [SubmitTerminal, SessionAnswered answer] q"
    and "\<forall>sid. answer \<noteq> SessionCreated sid"
  shows "terminal_status q = ''Connection failed: ''
          @ (case answer of SessionRefused err code \<Rightarrow> refusal_text err code | SessionFailed msg \<Rightarrow> msg
             | SessionCreated sid \<Rightarrow> [])
       \<and> terminal_socket q = None \<and> length (sockets q) = length (sockets p)
       \<and> disable_stdin q \<and> terminal_enabled SubmitTerminal q"
proof -
  have q: "q = session_answered protocol host answer (submit_terminal p)"
    using assms(3) by (simp add: terminal_steps_Cons)
  note s = submit_fields [OF assms(1)]
  show ?thesis
    using assms(4) s unfolding q
    by (cases answer) (simp_all add: session_answered_def set_terminal_status_def Let_def)
qed

text \<open>
  No cut-off row. When the console is visible and a row is measured, resizing leaves a
  number of rows that fits into the height of the terminal and does not exceed what the fit
  addon proposed, and the size sent over an open socket is the emulator's.
\<close>

theorem resize_rows_fit:
  assumes "has_emulator p" and "has_fit p" and "0 < console_width g" and "0 < console_height g"
    and "rendered g = Some (client, h)" and "0 < h" and "h \<le> client"
  shows "(let q = resize_terminal g p in
            of_nat (term_rows q) * h \<le> client
          \<and> (\<forall>rows cols. fitted g = Some (rows, cols) \<longrightarrow> term_rows q \<le> rows \<and> term_cols q = cols)
          \<and> (\<forall>i. terminal_socket p = Some i \<longrightarrow> ready i p = SocketOpen \<longrightarrow>
               sent_messages q
                 = sent_messages p @ [(i, ResizeMessage (term_rows q) (term_cols q))]))"
proof -
  define v where "v = \<lfloor>client / h\<rfloor>"
  have "1 \<le> client / h" using assms(6,7) by simp
  then have v1: "1 \<le> v" unfolding v_def by linarith
  have "of_int v \<le> client / h" unfolding v_def by simp
  then have fits: "of_int v * h \<le> client" using assms(6) by (simp add: pos_le_divide_eq)
  define f where "f = fit_emulator g (p\<lparr>resize_frame := False\<rparr>)"
  define c where "c = (if v < int (term_rows f) then f\<lparr>term_rows := nat v\<rparr> else f)"
  have q: "resize_terminal g p = send_message (ResizeMessage (term_rows c) (term_cols c)) c"
    using assms v1 by (simp add: resize_terminal_def f_def c_def v_def visible_rows_def Let_def)
  have rows: "term_rows c \<le> term_rows f" "int (term_rows c) \<le> v"
    using v1 by (auto simp: c_def)
  then have "of_nat (term_rows c) \<le> (of_int v :: rat)"
    by (metis of_int_le_iff of_int_of_nat_eq)
  then have "of_nat (term_rows c) * h \<le> of_int v * h"
    using assms(6) by (intro mult_right_mono) simp_all
  then have height: "of_nat (term_rows c) * h \<le> client" using fits by linarith
  have "term_cols c = term_cols f" "terminal_socket c = terminal_socket p"
    "sockets c = sockets p" "sent_messages c = sent_messages p"
    by (auto simp: c_def f_def fit_emulator_def split: option.splits)
  moreover have "fitted g = Some (r, k) \<Longrightarrow> term_rows f = r \<and> term_cols f = k" for r k
    by (simp add: f_def fit_emulator_def)
  ultimately show ?thesis
    unfolding q Let_def using rows(1) height ready_cong [of c p]
    by (auto simp: send_message_def split: option.splits)
qed

section \<open>Witnesses\<close>

abbreviation "start \<equiv> initial_terminal True True None"

abbreviation connected :: terminal_page where
  "connected \<equiv> foldl (\<lambda>p e. terminal_act ''https:'' ''h'' e p) start
     [SubmitTerminal, SessionAnswered (SessionCreated ''s1''), SocketOpens 0 plain_geometry]"

lemma connected_steps:
  "terminal_steps ''https:'' ''h'' start
     [SubmitTerminal, SessionAnswered (SessionCreated ''s1''), SocketOpens 0 plain_geometry] connected"
proof -
  have "ready 0 (terminal_act ''https:'' ''h'' (SessionAnswered (SessionCreated ''s1''))
      (terminal_act ''https:'' ''h'' SubmitTerminal start)) = Connecting"
    by (simp add: answered_created_fields submit_fields initial_terminal_def)
  then show ?thesis
    by (simp add: terminal_steps_Cons submit_fields initial_terminal_def)
qed

theorem one_live_session_witness:
  "(\<exists>i. terminal_socket connected = Some i \<and> ready i connected \<in> {SocketOpen, Closing})
 \<and> terminal_steps ''https:'' ''h'' start
     [SubmitTerminal, SessionAnswered (SessionCreated ''s1''), SocketOpens 0 plain_geometry] connected"
proof -
  have "\<not> disable_stdin connected"
    by (simp add: on_socket_open_def set_terminal_status_def)
  then show ?thesis
    using one_live_session [OF connected_steps] connected_steps by blast
qed


lemma start_ready: "has_emulator start" "\<not> open_disabled start"
  by (simp_all add: initial_terminal_def)

theorem connecting_opens_session_witness:
  "terminal_status connected = ''Connected'' \<and> terminal_socket connected = Some 0
 \<and> fst (sockets connected ! 0) = ''wss://h/terminal/sessions/s1/socket''"
proof -
  have n: "length (sockets start) = 0" by (simp add: initial_terminal_def)
  have u: "socket_url ''https:'' ''h'' ''s1'' = ''wss://h/terminal/sessions/s1/socket''"
    by code_simp
  show ?thesis
    using connecting_opens_session [OF start_ready, unfolded n, OF connected_steps] u by simp
qed

lemma reconnect_steps:
  assumes "has_emulator p" and "\<not> open_disabled p"
  shows "\<exists>q. terminal_steps protocol host p
    [SubmitTerminal, SessionAnswered (SessionCreated sid), SocketOpens (length (sockets p)) g] q"
proof -
  have "ready (length (sockets p))
      (session_answered protocol host (SessionCreated sid) (submit_terminal p)) = Connecting"
    by (simp add: answered_created_fields submit_fields [OF assms(1)])
  then show ?thesis
    using assms(2) by (simp add: terminal_steps_Cons submit_fields [OF assms(1)])
qed

theorem late_close_disconnects_witness:
  "\<exists>q r. terminal_steps ''https:'' ''h'' q [SocketCloses 0 False] r
     \<and> terminal_status r = ''Disconnected'' \<and> ready 1 r = SocketOpen \<and> terminal_socket r = Some 1"
proof -
  have n0: "length (sockets start) = 0" by (simp add: initial_terminal_def)
  note r = connect_result [OF start_ready, unfolded n0, OF connected_steps]
  have c: "has_emulator connected" "\<not> open_disabled connected" "terminal_socket connected = Some 0"
    "ready 0 connected = SocketOpen" and n1: "length (sockets connected) = Suc 0"
    using r by blast+
  have n: "length (sockets connected) = 1" unfolding n1 by simp
  obtain q where "terminal_steps ''https:'' ''h'' connected
      [SubmitTerminal, SessionAnswered (SessionCreated ''s2''),
       SocketOpens (length (sockets connected)) plain_geometry] q"
    using reconnect_steps [OF c(1,2)] by blast
  from late_close_disconnects [OF c this] show ?thesis unfolding n by blast
qed

theorem refused_session_witness:
  "terminal_status (foldl (\<lambda>p e. terminal_act ''https:'' ''h'' e p) start
     [SubmitTerminal, SessionAnswered (SessionRefused None 403)])
   = ''Connection failed: Server returned HTTP 403''"
proof -
  let ?q = "foldl (\<lambda>p e. terminal_act ''https:'' ''h'' e p) start
     [SubmitTerminal, SessionAnswered (SessionRefused None 403)]"
  have steps: "terminal_steps ''https:'' ''h'' start
      [SubmitTerminal, SessionAnswered (SessionRefused None 403)] ?q"
    by (simp add: terminal_steps_Cons submit_fields initial_terminal_def)
  have "dec 403 = ''403''" by (simp add: dec.simps)
  then show ?thesis
    using refused_session [OF start_ready steps] by (simp add: refusal_text_def)
qed

theorem resize_rows_fit_witness:
  "of_nat (term_rows (resize_terminal (plain_geometry\<lparr>rendered := Some (390, 20)\<rparr>) start)) * 20
     \<le> (390 :: rat)
 \<and> term_rows (resize_terminal (plain_geometry\<lparr>rendered := Some (390, 20)\<rparr>) start) \<le> 21"
  using resize_rows_fit [of start "plain_geometry\<lparr>rendered := Some (390, 20)\<rparr>" 390 20]
  by (simp add: initial_terminal_def plain_geometry_def Let_def)

end
