(* ===== verification/TerminalSessions.thy ===== *)
theory TerminalSessions
  imports TerminalPage
begin

text \<open>
  The server's side of the terminal (\<open>internal/web/terminal.go\<close>, and \<open>Resize\<close> of
  \<open>internal/terminal/client.go\<close>): the store of open sessions with its limits, the claim of a
  session by the socket of its owner, and the messages a socket carries.
\<close>

section \<open>The store of sessions\<close>

text \<open>
  A session of the SSH client is a number; \<open>closed\<close> lists the sessions whose \<open>Close\<close> has
  been called (a \<open>sync.Once\<close> keeps it to one call). The Go map is an association list with
  distinct keys.
\<close>

record managed_session =
  owner :: string
  session :: nat
  claimed :: bool

record session_store =
  sessions :: "(string \<times> managed_session) list"
  closed_sessions :: "nat list"

definition max_terminal_sessions :: nat where
  "max_terminal_sessions = 8"

definition max_terminal_sessions_per_user :: nat where
  "max_terminal_sessions_per_user = 2"

datatype store_error = SessionLimit | TokenFailed

definition owned_by :: "string \<Rightarrow> session_store \<Rightarrow> (string \<times> managed_session) list" where
  "owned_by user st = filter (\<lambda>e. owner (snd e) = user) (sessions st)"

definition close_session :: "nat \<Rightarrow> session_store \<Rightarrow> session_store" where
  "close_session h st =
     (if h \<in> set (closed_sessions st) then st
      else st\<lparr>closed_sessions := h # closed_sessions st\<rparr>)"

text \<open>\<open>token\<close> is what \<open>randomToken\<close> returns, \<open>None\<close> for an error.\<close>

definition add_session ::
  "string \<Rightarrow> nat \<Rightarrow> string option \<Rightarrow> session_store \<Rightarrow> (store_error + string) \<times> session_store" where
  "add_session user h token st =
     (if length (sessions st) \<ge> max_terminal_sessions then (Inl SessionLimit, st)
      else if length (owned_by user st) \<ge> max_terminal_sessions_per_user
      then (Inl SessionLimit, st)
      else case token of
          None \<Rightarrow> (Inl TokenFailed, st)
        | Some sid \<Rightarrow>
            (Inr sid,
             st\<lparr>sessions :=
                  AList.update sid \<lparr>owner = user, session = h, claimed = False\<rparr> (sessions st)\<rparr>))"

definition claim_session ::
  "string \<Rightarrow> string \<Rightarrow> session_store \<Rightarrow> managed_session option \<times> session_store" where
  "claim_session sid user st =
     (case map_of (sessions st) sid of
        None \<Rightarrow> (None, st)
      | Some m \<Rightarrow>
          if claimed m \<or> owner m \<noteq> user then (None, st)
          else (Some m,
                st\<lparr>sessions := AList.update sid (m\<lparr>claimed := True\<rparr>) (sessions st)\<rparr>))"

definition release_session :: "string \<Rightarrow> session_store \<Rightarrow> session_store" where
  "release_session sid st =
     (case map_of (sessions st) sid of
        None \<Rightarrow> st
      | Some m \<Rightarrow>
          close_session (session m) (st\<lparr>sessions := AList.delete sid (sessions st)\<rparr>))"

definition close_matching ::
  "(managed_session \<Rightarrow> bool) \<Rightarrow> session_store \<Rightarrow> session_store" where
  "close_matching P st =
     foldl (\<lambda>st e. close_session (session (snd e)) st)
       (st\<lparr>sessions := filter (\<lambda>e. \<not> P (snd e)) (sessions st)\<rparr>)
       (filter (\<lambda>e. P (snd e)) (sessions st))"

definition close_username :: "string \<Rightarrow> session_store \<Rightarrow> session_store" where
  "close_username user st = close_matching (\<lambda>m. owner m = user) st"

definition close_store :: "session_store \<Rightarrow> session_store" where
  "close_store st = close_matching (\<lambda>m. True) st"

text \<open>
  The end of \<open>createTerminalSession\<close>, once the SSH session \<open>h\<close> is open: \<open>audited\<close> tells
  whether the audit record was written. The result is the status of the answer, with the
  session id when it was created.
\<close>

definition create_session ::
  "string \<Rightarrow> nat \<Rightarrow> string option \<Rightarrow> bool \<Rightarrow> session_store \<Rightarrow> (nat + string) \<times> session_store" where
  "create_session user h token audited st =
     (case add_session user h token st of
        (Inl e, st) \<Rightarrow> (Inl 429, close_session h st)
      | (Inr sid, st) \<Rightarrow> if audited then (Inr sid, st) else (Inl 503, release_session sid st))"

datatype store_op =
  Create string nat "string option" bool
| Claim string string
| Release string            \<comment> \<open>the end of a stream, or the lifetime timer\<close>
| CloseUser string
| CloseStore

fun store_act :: "store_op \<Rightarrow> session_store \<Rightarrow> session_store" where
  "store_act (Create user h token audited) st = snd (create_session user h token audited st)"
| "store_act (Claim sid user) st = snd (claim_session sid user st)"
| "store_act (Release sid) st = release_session sid st"
| "store_act (CloseUser user) st = close_username user st"
| "store_act CloseStore st = close_store st"

fun run_store :: "store_op list \<Rightarrow> session_store \<Rightarrow> session_store" where
  "run_store [] st = st"
| "run_store (e # es) st = run_store es (store_act e st)"

definition empty_store :: session_store where
  "empty_store = \<lparr>sessions = [], closed_sessions = []\<rparr>"

section \<open>Limits\<close>

definition store_ok :: "session_store \<Rightarrow> bool" where
  "store_ok st \<longleftrightarrow>
     distinct (map fst (sessions st))
   \<and> length (sessions st) \<le> max_terminal_sessions
   \<and> (\<forall>user. length (owned_by user st) \<le> max_terminal_sessions_per_user)"

lemma sessions_close_session [simp]: "sessions (close_session h st) = sessions st"
  by (simp add: close_session_def)

lemma closed_close_session [simp]:
  "set (closed_sessions (close_session h st)) = insert h (set (closed_sessions st))"
  by (auto simp: close_session_def)

lemma fold_close_session:
  "sessions (foldl (\<lambda>st e. close_session (session (snd e)) st) st es) = sessions st
 \<and> set (closed_sessions (foldl (\<lambda>st e. close_session (session (snd e)) st) st es))
     = (\<lambda>e. session (snd e)) ` set es \<union> set (closed_sessions st)"
  by (induction es arbitrary: st) auto

lemma close_matching_fields:
  "sessions (close_matching P st) = filter (\<lambda>e. \<not> P (snd e)) (sessions st)"
  "set (closed_sessions (close_matching P st))
     = (\<lambda>e. session (snd e)) ` set (filter (\<lambda>e. P (snd e)) (sessions st)) \<union> set (closed_sessions st)"
  by (simp_all add: close_matching_def fold_close_session)

lemma length_filter_filter_le: "length (filter P (filter Q xs)) \<le> length (filter P xs)"
  by (induction xs) auto

lemma store_ok_filter:
  assumes "store_ok st" and "sessions st' = filter Q (sessions st)"
  shows "store_ok st'"
proof -
  have "length (owned_by user st') \<le> length (owned_by user st)" for user
    unfolding owned_by_def assms(2) using length_filter_filter_le .
  moreover have "length (sessions st') \<le> length (sessions st)"
    by (simp add: assms(2))
  moreover have "distinct (map fst (sessions st'))"
    using assms by (simp add: store_ok_def distinct_map_filter)
  ultimately show ?thesis
    using assms(1) order_trans unfolding store_ok_def by meson
qed

lemma store_ok_release:
  assumes "store_ok st"
  shows "store_ok (release_session sid st)"
proof (cases "map_of (sessions st) sid")
  case None
  then show ?thesis using assms by (simp add: release_session_def)
next
  case (Some m)
  then have "sessions (release_session sid st) = filter (\<lambda>e. fst e \<noteq> sid) (sessions st)"
    by (simp add: release_session_def delete_filter)
  then show ?thesis using assms store_ok_filter by blast
qed

lemma owned_update:
  "length (filter (\<lambda>e. owner (snd e) = user) (AList.update k m xs))
     \<le> (if owner m = user then Suc (length (filter (\<lambda>e. owner (snd e) = user) xs))
        else length (filter (\<lambda>e. owner (snd e) = user) xs))"
  by (induction xs) auto

lemma store_ok_add:
  assumes "store_ok st"
  shows "store_ok (snd (add_session user h token st))"
proof (cases "length (sessions st) \<ge> max_terminal_sessions
    \<or> length (owned_by user st) \<ge> max_terminal_sessions_per_user \<or> token = None")
  case True
  then show ?thesis using assms by (auto simp: add_session_def split: option.splits)
next
  case False
  then obtain sid where sid: "token = Some sid" by auto
  let ?m = "\<lparr>owner = user, session = h, claimed = False\<rparr>"
  have "snd (add_session user h token st) = st\<lparr>sessions := AList.update sid ?m (sessions st)\<rparr>"
    using False sid by (simp add: add_session_def)
  moreover have "length (AList.update sid ?m (sessions st)) \<le> max_terminal_sessions"
    using length_update [of sid ?m "sessions st"] False by linarith
  moreover have "length (filter (\<lambda>e. owner (snd e) = u) (AList.update sid ?m (sessions st)))
      \<le> max_terminal_sessions_per_user" for u
    using owned_update [of u sid ?m "sessions st"] assms False
    by (cases "u = user") (auto simp: store_ok_def owned_by_def intro: le_trans)
  moreover have "distinct (map fst (AList.update sid ?m (sessions st)))"
    using assms by (simp add: store_ok_def distinct_update)
  ultimately show ?thesis by (simp add: store_ok_def owned_by_def)
qed

lemma owners_update:
  "map_of xs k = Some m \<Longrightarrow> owner m' = owner m \<Longrightarrow>
     map (\<lambda>e. owner (snd e)) (AList.update k m' xs) = map (\<lambda>e. owner (snd e)) xs"
  by (induction xs) (auto split: if_splits)

lemma length_filter_count: "length (filter (\<lambda>e. f e = u) xs) = count_list (map f xs) u"
  by (induction xs) auto

lemma store_ok_claim:
  assumes "store_ok st"
  shows "store_ok (snd (claim_session sid user st))"
proof (cases "map_of (sessions st) sid")
  case None
  then show ?thesis using assms by (simp add: claim_session_def)
next
  case (Some m)
  let ?s = "AList.update sid (m\<lparr>claimed := True\<rparr>) (sessions st)"
  have "map fst ?s = map fst (sessions st)"
    using Some by (intro keys_update) (metis domI dom_map_of_conv_image_fst)
  moreover have owners: "map (\<lambda>e. owner (snd e)) ?s = map (\<lambda>e. owner (snd e)) (sessions st)"
    using Some by (rule owners_update) simp
  moreover have "length ?s = length (sessions st)"
    using owners by (metis length_map)
  moreover have "length (filter (\<lambda>e. owner (snd e) = u) ?s)
      = length (filter (\<lambda>e. owner (snd e) = u) (sessions st))" for u
    by (simp only: length_filter_count owners)
  ultimately show ?thesis
    using assms Some by (simp add: claim_session_def store_ok_def owned_by_def)
qed

lemma store_ok_act:
  assumes "store_ok st"
  shows "store_ok (store_act e st)"
proof (cases e)
  case (Create user h token audited)
  have add: "store_ok (snd (add_session user h token st))" using assms by (rule store_ok_add)
  have close: "store_ok (close_session h st') \<longleftrightarrow> store_ok st'" for h st'
    by (simp add: store_ok_def owned_by_def)
  show ?thesis
    using Create add close store_ok_release
    by (cases "add_session user h token st")
      (auto simp: create_session_def split: sum.splits)
next
  case (CloseUser user)
  then show ?thesis
    using store_ok_filter [OF assms close_matching_fields(1)] by (simp add: close_username_def)
next
  case CloseStore
  then show ?thesis
    using store_ok_filter [OF assms close_matching_fields(1)] by (simp add: close_store_def)
qed (use assms in \<open>simp_all add: store_ok_claim store_ok_release\<close>)

lemma store_ok_run: "store_ok st \<Longrightarrow> store_ok (run_store es st)"
  by (induction es arbitrary: st) (auto intro: store_ok_act)

lemma store_ok_empty: "store_ok empty_store"
  by (simp add: store_ok_def empty_store_def owned_by_def)


section \<open>No session is lost\<close>

fun new_token :: "store_op \<Rightarrow> string option" where
  "new_token (Create user h token audited) = token"
| "new_token _ = None"

fun new_session :: "store_op \<Rightarrow> nat option" where
  "new_session (Create user h token audited) = Some h"
| "new_session _ = None"

definition keys :: "session_store \<Rightarrow> string set" where
  "keys st = fst ` set (sessions st)"

definition accounted :: "session_store \<Rightarrow> nat set" where
  \<comment> \<open>the sessions that are in the store or closed\<close>
  "accounted st = (\<lambda>e. session (snd e)) ` set (sessions st) \<union> set (closed_sessions st)"

lemma sessions_update:
  "map_of xs k = Some m \<Longrightarrow> session m' = session m \<Longrightarrow>
     map (\<lambda>e. session (snd e)) (AList.update k m' xs) = map (\<lambda>e. session (snd e)) xs"
  by (induction xs) (auto split: if_splits)

lemma accounted_close [simp]: "accounted (close_session h st) = insert h (accounted st)"
  by (auto simp: accounted_def)

lemma accounted_matching: "accounted (close_matching P st) = accounted st"
  by (auto simp: accounted_def close_matching_fields)

lemma keys_matching: "keys (close_matching P st) \<subseteq> keys st"
  by (auto simp: keys_def close_matching_fields)

lemma image_of_insert: "S = insert x T \<Longrightarrow> f ` S = insert (f x) (f ` T)"
  by blast

lemma accounted_release:
  assumes "distinct (map fst (sessions st))"
  shows "accounted (release_session sid st) = accounted st \<and> keys (release_session sid st) \<subseteq> keys st"
proof (cases "map_of (sessions st) sid")
  case None
  then show ?thesis by (simp add: release_session_def)
next
  case (Some m)
  have m: "(sid, m) \<in> set (sessions st)" using Some by (rule map_of_SomeD)
  have unique: "m' = m" if "(sid, m') \<in> set (sessions st)" for m'
    using assms m that by (meson eq_key_imp_eq_value)
  have "accounted (release_session sid st)
      = insert (session m) ((\<lambda>e. session (snd e)) ` {e \<in> set (sessions st). fst e \<noteq> sid}
          \<union> set (closed_sessions st))"
    using Some by (simp add: release_session_def accounted_def delete_filter)
  also have "\<dots> = accounted st"
  proof -
    have "set (sessions st) = insert (sid, m) {e \<in> set (sessions st). fst e \<noteq> sid}"
      (is "?L = ?R")
    proof
      show "?L \<subseteq> ?R" using unique by (auto simp del: split_paired_All)
      show "?R \<subseteq> ?L" using m by auto
    qed
    from image_of_insert [OF this, of "\<lambda>e. session (snd e)"]
    show ?thesis unfolding accounted_def snd_conv by (simp only: Un_insert_left)
  qed
  finally show ?thesis
    using Some by (auto simp: release_session_def keys_def delete_filter)
qed

lemma accounted_add:
  assumes "\<And>sid. token = Some sid \<Longrightarrow> sid \<notin> keys st"
  shows "(case add_session user h token st of
      (Inl e, st') \<Rightarrow> st' = st
    | (Inr sid, st') \<Rightarrow> accounted st' = insert h (accounted st) \<and> token = Some sid
        \<and> keys st' = insert sid (keys st))"
  using assms
  by (auto simp: add_session_def keys_def update_new accounted_def split: option.splits)

lemma accounted_claim:
  "accounted (snd (claim_session sid user st)) = accounted st
 \<and> keys (snd (claim_session sid user st)) = keys st"
proof (cases "map_of (sessions st) sid")
  case None
  then show ?thesis by (simp add: claim_session_def)
next
  case (Some m)
  let ?s = "AList.update sid (m\<lparr>claimed := True\<rparr>) (sessions st)"
  have "map (\<lambda>e. session (snd e)) ?s = map (\<lambda>e. session (snd e)) (sessions st)"
    using Some by (rule sessions_update) simp
  then have "(\<lambda>e. session (snd e)) ` set ?s = (\<lambda>e. session (snd e)) ` set (sessions st)"
    by (metis set_map)
  moreover have "map fst ?s = map fst (sessions st)"
    using Some by (intro keys_update) (metis domI dom_map_of_conv_image_fst)
  then have "fst ` set ?s = fst ` set (sessions st)" by (metis set_map)
  ultimately show ?thesis
    using Some by (simp add: claim_session_def accounted_def keys_def)
qed

lemma accounted_act:
  assumes "store_ok st" and "\<And>sid. new_token e = Some sid \<Longrightarrow> sid \<notin> keys st"
  shows "accounted st \<union> set_option (new_session e) \<subseteq> accounted (store_act e st)
       \<and> keys (store_act e st) \<subseteq> keys st \<union> set_option (new_token e)"
proof (cases e)
  case (Create user h token audited)
  obtain r st' where add: "add_session user h token st = (r, st')" by (cases "add_session user h token st")
  have fresh: "\<And>sid. token = Some sid \<Longrightarrow> sid \<notin> keys st" using assms(2) Create by simp
  note a = accounted_add [where token = token and st = st and user = user and h = h, OF fresh,
    unfolded add]
  have dist: "distinct (map fst (sessions st'))"
    using store_ok_add [OF assms(1), of user h token] add by (simp add: store_ok_def)
  have res: "store_act e st = (case r of
      Inl err \<Rightarrow> close_session h st' | Inr sid \<Rightarrow> if audited then st' else release_session sid st')"
    by (cases r) (simp_all add: Create create_session_def add)
  have new: "new_token e = token" "new_session e = Some h" using Create by simp_all
  show ?thesis
  proof (cases r)
    case (Inl err)
    then show ?thesis using a unfolding res new by (auto simp: keys_def)
  next
    case (Inr sid)
    then show ?thesis
      using a accounted_release [OF dist, of sid] unfolding res new by auto
  qed
qed (use assms(1) accounted_release accounted_claim accounted_matching keys_matching in
    \<open>auto simp: store_ok_def close_username_def close_store_def\<close>)

lemma accounted_run:
  assumes "store_ok st" and "distinct (List.map_filter new_token es)"
    and "keys st \<inter> set (List.map_filter new_token es) = {}"
  shows "accounted st \<union> set (List.map_filter new_session es) \<subseteq> accounted (run_store es st)"
  using assms
proof (induction es arbitrary: st)
  case (Cons e es)
  have fresh: "sid \<notin> keys st" if "new_token e = Some sid" for sid
    using Cons.prems(3) that by (auto simp: List.map_filter_simps)
  note act = accounted_act [OF Cons.prems(1), of e, OF fresh]
  have "store_ok (store_act e st)" using Cons.prems(1) by (rule store_ok_act)
  moreover have "distinct (List.map_filter new_token es)"
    using Cons.prems(2) by (auto simp: List.map_filter_simps split: option.splits)
  moreover have "keys (store_act e st) \<inter> set (List.map_filter new_token es) = {}"
    using act Cons.prems(2,3) by (fastforce simp: List.map_filter_simps split: option.splits)
  ultimately have "accounted (store_act e st) \<union> set (List.map_filter new_session es)
      \<subseteq> accounted (run_store es (store_act e st))" by (rule Cons.IH)
  then show ?case
    using act by (cases "new_session e") (auto simp: List.map_filter_simps)
qed (simp add: List.map_filter_simps)

text \<open>
  C22. Sessions on the server. When the random tokens never repeat, then after any sequence of
  creations, claims, releases and logouts there are at most eight sessions and at most two
  of one user, and every SSH session that was opened is in the store or has been closed:
  none is lost, not even those refused by the limit or dropped for a failing audit.
\<close>

theorem sessions_limited_and_accounted:
  assumes "distinct (List.map_filter new_token es)"
  shows "length (sessions (run_store es empty_store)) \<le> 8
       \<and> length (owned_by user (run_store es empty_store)) \<le> 2
       \<and> set (List.map_filter new_session es) \<subseteq> accounted (run_store es empty_store)"
proof -
  have "store_ok (run_store es empty_store)"
    using store_ok_empty by (rule store_ok_run)
  moreover have "set (List.map_filter new_session es) \<subseteq> accounted (run_store es empty_store)"
    using accounted_run [OF store_ok_empty assms] by (simp add: keys_def empty_store_def)
  ultimately show ?thesis
    by (simp add: store_ok_def max_terminal_sessions_def max_terminal_sessions_per_user_def)
qed

section \<open>A session is claimed once, by its owner\<close>

definition spent :: "string \<Rightarrow> session_store \<Rightarrow> bool" where
  "spent sid st \<longleftrightarrow> (\<forall>m. map_of (sessions st) sid = Some m \<longrightarrow> claimed m)"

lemma spent_filter:
  "store_ok st \<Longrightarrow> spent sid st \<Longrightarrow> sessions st' = filter Q (sessions st) \<Longrightarrow> spent sid st'"
  unfolding spent_def store_ok_def using map_of_filter_keys by metis

lemma spent_release: "store_ok st \<Longrightarrow> spent sid st \<Longrightarrow> spent sid (release_session sid' st)"
  by (cases "map_of (sessions st) sid'")
    (auto simp: release_session_def delete_filter intro: spent_filter)

lemma spent_add:
  "spent sid st \<Longrightarrow> token \<noteq> Some sid \<Longrightarrow> spent sid (snd (add_session user h token st))"
  by (auto simp: spent_def add_session_def update_conv split: option.splits)

lemma spent_act:
  assumes "store_ok st" and "spent sid st" and "new_token e \<noteq> Some sid"
  shows "spent sid (store_act e st)"
proof (cases e)
  case (Create user h token audited)
  obtain r st' where add: "add_session user h token st = (r, st')"
    by (cases "add_session user h token st")
  have "spent sid st'" "store_ok st'"
    using spent_add [OF assms(2), where token = token and user = user and h = h] store_ok_add [OF assms(1), of user h token]
      assms(3) Create add by simp_all
  then show ?thesis
    using Create spent_release
    by (cases r) (auto simp: create_session_def add spent_def close_session_def)
next
  case (Claim sid' user)
  then show ?thesis
    using assms(2) by (auto simp: claim_session_def spent_def update_conv split: option.splits)
next
  case (Release sid')
  then show ?thesis using assms spent_release by simp
next
  case (CloseUser user)
  then show ?thesis
    using spent_filter [OF assms(1,2) close_matching_fields(1)] by (simp add: close_username_def)
next
  case CloseStore
  then show ?thesis
    using spent_filter [OF assms(1,2) close_matching_fields(1)] by (simp add: close_store_def)
qed

lemma spent_run:
  "store_ok st \<Longrightarrow> spent sid st \<Longrightarrow> sid \<notin> set (List.map_filter new_token es) \<Longrightarrow>
     spent sid (run_store es st)"
proof (induction es arbitrary: st)
  case (Cons e es)
  have "new_token e \<noteq> Some sid" "sid \<notin> set (List.map_filter new_token es)"
    using Cons.prems(3) by (auto simp: List.map_filter_simps split: option.splits)
  then show ?case
    using Cons.IH Cons.prems spent_act store_ok_act by simp
qed simp

text \<open>
  One socket per session. A socket gets a session only as its owner and only while nobody
  has claimed it; whatever happens afterwards, nobody gets it a second time unless a new
  session is created under the same token.
\<close>

theorem session_claimed_once:
  assumes "claim_session sid user (run_store es empty_store) = (Some m, st)"
    and "sid \<notin> set (List.map_filter new_token es')"
  shows "owner m = user \<and> \<not> claimed m
       \<and> (\<forall>user'. fst (claim_session sid user' (run_store es' st)) = None)"
proof -
  have ok: "store_ok (run_store es empty_store)" using store_ok_empty by (rule store_ok_run)
  have st: "st = snd (claim_session sid user (run_store es empty_store))" using assms(1) by simp
  have "store_ok st" unfolding st using ok by (rule store_ok_claim)
  moreover have "spent sid st"
    using assms(1)
    by (auto simp: claim_session_def spent_def update_conv split: option.splits if_splits)
  ultimately have "spent sid (run_store es' st)" using assms(2) by (rule spent_run)
  then have "fst (claim_session sid user' (run_store es' st)) = None" for user'
    by (auto simp: claim_session_def spent_def split: option.splits)
  then show ?thesis
    using assms(1) by (auto simp: claim_session_def split: option.splits if_splits)
qed


section \<open>Messages of the socket\<close>

text \<open>
  The page sends JSON objects; the server decodes them into \<open>terminalClientMessage\<close>. The
  struct gives its fields JSON names by tags. \<open>encoding/json\<close> fills a field from a key only
  when that field is the only one with the name: where two fields of a struct claim the
  same name, the key is ignored, without an error. The declaration
  \<open>Rows, Columns int `json:"rows,omitempty"`\<close> gives one tag to two fields.
\<close>

datatype json_value = JString string | JNumber int

type_synonym json_object = "(string \<times> json_value) list"

definition message_fields :: "(string \<times> string) list" where
  \<comment> \<open>field and JSON name\<close>
  "message_fields =
     [(''Type'', ''type''), (''Data'', ''data''), (''Rows'', ''rows''), (''Columns'', ''rows'')]"

definition field_of_key :: "(string \<times> string) list \<Rightarrow> string \<Rightarrow> string option" where
  "field_of_key fs key =
     (case filter (\<lambda>f. snd f = key) fs of [f] \<Rightarrow> Some (fst f) | _ \<Rightarrow> None)"

record server_message =
  msg_type :: string
  msg_data :: string
  msg_rows :: int
  msg_columns :: int

definition set_field :: "string \<Rightarrow> json_value \<Rightarrow> server_message \<Rightarrow> server_message option" where
  "set_field field v m =
     (case v of
        JString s \<Rightarrow>
          if field = ''Type'' then Some (m\<lparr>msg_type := s\<rparr>)
          else if field = ''Data'' then Some (m\<lparr>msg_data := s\<rparr>)
          else None
      | JNumber n \<Rightarrow>
          if field = ''Rows'' then Some (m\<lparr>msg_rows := n\<rparr>)
          else if field = ''Columns'' then Some (m\<lparr>msg_columns := n\<rparr>)
          else None)"

fun decode_fields :: "json_object \<Rightarrow> server_message \<Rightarrow> server_message option" where
  "decode_fields [] m = Some m"
| "decode_fields ((key, v) # rest) m =
     (case field_of_key message_fields key of
        None \<Rightarrow> decode_fields rest m
      | Some field \<Rightarrow>
          (case set_field field v m of None \<Rightarrow> None | Some m' \<Rightarrow> decode_fields rest m'))"

definition decode_message :: "json_object \<Rightarrow> server_message option" where
  "decode_message obj =
     decode_fields obj \<lparr>msg_type = [], msg_data = [], msg_rows = 0, msg_columns = 0\<rparr>"

text \<open>The objects that the page passes to \<open>JSON.stringify\<close>.\<close>

fun message_object :: "client_message \<Rightarrow> json_object" where
  "message_object (InputMessage data) = [(''type'', JString ''input''), (''data'', JString data)]"
| "message_object (ResizeMessage rows columns) =
     [(''type'', JString ''resize''), (''rows'', JNumber (int rows)),
      (''columns'', JNumber (int columns))]"

datatype session_effect = WriteInput string | WindowChange int int

definition max_terminal_input_bytes :: nat where
  "max_terminal_input_bytes = 4096"

definition resize_session :: "int \<Rightarrow> int \<Rightarrow> session_effect list" where
  "resize_session rows columns =
     (if rows < 1 \<or> rows > 200 \<or> columns < 1 \<or> columns > 500 then []
      else [WindowChange rows columns])"

text \<open>
  \<open>handleTerminalClientMessage\<close>: does the stream go on, and what the session is told;
  \<open>write_ok\<close> is the outcome of the write to the session's input.
\<close>

definition handle_terminal_client_message ::
  "bool \<Rightarrow> server_message \<Rightarrow> bool \<times> session_effect list" where
  "handle_terminal_client_message write_ok m =
     (if msg_type m = ''input'' then
        if msg_data m = [] \<or> length (msg_data m) > max_terminal_input_bytes then (True, [])
        else (write_ok, [WriteInput (msg_data m)])
      else if msg_type m = ''resize'' then (True, resize_session (msg_rows m) (msg_columns m))
      else (False, []))"

text \<open>One round of the receiving loop of \<open>streamTerminal\<close> for a payload of \<open>n\<close> bytes.\<close>

definition receive_payload ::
  "bool \<Rightarrow> nat \<Rightarrow> json_object \<Rightarrow> bool \<times> session_effect list" where
  "receive_payload write_ok n obj =
     (if n = 0 \<or> n > max_terminal_input_bytes then (False, [])
      else case decode_message obj of
          None \<Rightarrow> (False, [])
        | Some m \<Rightarrow> handle_terminal_client_message write_ok m)"

lemma field_of_message_keys:
  "field_of_key message_fields ''type'' = Some ''Type''"
  "field_of_key message_fields ''data'' = Some ''Data''"
  "field_of_key message_fields ''rows'' = None"
  "field_of_key message_fields ''columns'' = None"
  by (simp_all add: field_of_key_def message_fields_def)

lemma decode_input:
  "decode_message (message_object (InputMessage data)) =
     Some \<lparr>msg_type = ''input'', msg_data = data, msg_rows = 0, msg_columns = 0\<rparr>"
  by (simp add: decode_message_def field_of_message_keys set_field_def)

lemma decode_resize:
  "decode_message (message_object (ResizeMessage rows columns)) =
     Some \<lparr>msg_type = ''resize'', msg_data = [], msg_rows = 0, msg_columns = 0\<rparr>"
  by (simp add: decode_message_def field_of_message_keys set_field_def)

declare message_object.simps [simp del]

text \<open>
  C38. Input arrives, the window size does not. In a payload within the limit, what the user
  types reaches the SSH session unchanged, and the stream goes on. Every resize message of
  the page, whatever its size, is accepted and has no effect, although the session would
  have taken the size of any terminal up to 200 rows and 500 columns.
\<close>

theorem input_arrives_resize_lost:
  assumes "0 < n" and "n \<le> 4096"
  shows "(0 < length data \<and> length data \<le> 4096 \<longrightarrow>
            receive_payload True n (message_object (InputMessage data)) = (True, [WriteInput data]))
       \<and> receive_payload True n (message_object (ResizeMessage rows columns)) = (True, [])
       \<and> (0 < rows \<and> rows \<le> 200 \<and> 0 < columns \<and> columns \<le> 500 \<longrightarrow>
            resize_session (int rows) (int columns) = [WindowChange (int rows) (int columns)])"
  using assms
  by (simp add: receive_payload_def decode_input decode_resize handle_terminal_client_message_def
      resize_session_def max_terminal_input_bytes_def)

theorem input_arrives_resize_lost_witness:
  "receive_payload True 40 (message_object (InputMessage ''ls'')) = (True, [WriteInput ''ls''])
 \<and> receive_payload True 40 (message_object (ResizeMessage 36 128)) = (True, [])
 \<and> resize_session 36 128 = [WindowChange 36 128]"
  using input_arrives_resize_lost [of 40 "''ls''" 36 128] by simp

theorem sessions_limited_and_accounted_witness:
  "{1, 2, 3} \<subseteq> accounted (run_store
     [Create ''u'' 1 (Some ''a'') True, Create ''u'' 2 (Some ''b'') True, Create ''u'' 3 None True]
     empty_store)"
  using sessions_limited_and_accounted [of
      "[Create ''u'' 1 (Some ''a'') True, Create ''u'' 2 (Some ''b'') True, Create ''u'' 3 None True]"
      "''u''"]
  by (simp add: List.map_filter_simps)

theorem session_claimed_once_witness:
  "fst (claim_session ''a'' ''u'' (run_store [Create ''u'' 1 (Some ''a'') True] empty_store))
     = Some \<lparr>owner = ''u'', session = 1, claimed = False\<rparr>
 \<and> fst (claim_session ''a'' ''u'' (run_store [Release ''b'']
      (snd (claim_session ''a'' ''u'' (run_store [Create ''u'' 1 (Some ''a'') True] empty_store)))))
     = None"
proof -
  let ?c = "claim_session ''a'' ''u'' (run_store [Create ''u'' 1 (Some ''a'') True] empty_store)"
  have first: "fst ?c = Some \<lparr>owner = ''u'', session = 1, claimed = False\<rparr>"
    by code_simp
  then have c: "?c = (Some \<lparr>owner = ''u'', session = 1, claimed = False\<rparr>, snd ?c)"
    by (metis prod.collapse)
  have "''a'' \<notin> set (List.map_filter new_token [Release ''b''])"
    by (simp add: List.map_filter_simps)
  from session_claimed_once [OF c this] first show ?thesis by blast
qed

end
