(* ===== verification/Utf8.thy ===== *)
theory Utf8
  imports Prelude
begin

text \<open>
  UTF-8 as Go's \<open>unicode/utf8\<close> reads it, as far as the server uses it: the length of the encoded
  character at the front of a byte string, \<open>utf8.Valid\<close>, \<open>utf8.RuneStart\<close>, \<open>ToValidUTF8\<close> with
  the replacement character U+FFFD, and the comparisons without regard to case.
\<close>

section \<open>Characters of a byte string\<close>

abbreviation byte_at_most :: "nat \<Rightarrow> char \<Rightarrow> nat \<Rightarrow> bool" where
  "byte_at_most lo c hi \<equiv> lo \<le> (of_char c :: nat) \<and> (of_char c :: nat) \<le> hi"

definition continuation :: "char \<Rightarrow> bool" where
  "continuation c \<longleftrightarrow> byte_at_most 0x80 c 0xBF"

text \<open>The length of the character at the front, and 0 if there is none or it is invalid.\<close>

fun rune_length :: "string \<Rightarrow> nat" where
  "rune_length [] = 0"
| "rune_length [a] = (if of_char a < (0x80 :: nat) then 1 else 0)"
| "rune_length [a, b] =
     (if of_char a < (0x80 :: nat) then 1
      else if byte_at_most 0xC2 a 0xDF \<and> continuation b then 2 else 0)"
| "rune_length [a, b, c] =
     (if of_char a < (0x80 :: nat) then 1
      else if byte_at_most 0xC2 a 0xDF \<and> continuation b then 2
      else if byte_at_most 0xE0 a 0xEF
           \<and> byte_at_most (if of_char a = (0xE0 :: nat) then 0xA0 else 0x80) b
               (if of_char a = (0xED :: nat) then 0x9F else 0xBF)
           \<and> continuation c then 3 else 0)"
| "rune_length (a # b # c # d # s) =
     (if of_char a < (0x80 :: nat) then 1
      else if byte_at_most 0xC2 a 0xDF \<and> continuation b then 2
      else if byte_at_most 0xE0 a 0xEF
           \<and> byte_at_most (if of_char a = (0xE0 :: nat) then 0xA0 else 0x80) b
               (if of_char a = (0xED :: nat) then 0x9F else 0xBF)
           \<and> continuation c then 3
      else if byte_at_most 0xF0 a 0xF4
           \<and> byte_at_most (if of_char a = (0xF0 :: nat) then 0x90 else 0x80) b
               (if of_char a = (0xF4 :: nat) then 0x8F else 0xBF)
           \<and> continuation c \<and> continuation d then 4 else 0)"

lemma rune_length_le: "rune_length s \<le> length s"
  by (induction s rule: rune_length.induct) auto

lemma rune_length_4: "rune_length s \<le> 4"
  by (induction s rule: rune_length.induct) auto

lemma rune_length_less: "0 < rune_length s \<Longrightarrow> length s - rune_length s < length s"
  using rune_length_le [of s] by linarith

definition rune_start :: "char \<Rightarrow> bool" where
  \<comment> \<open>\<open>utf8.RuneStart\<close>: \<open>b & 0xC0 != 0x80\<close>\<close>
  "rune_start c \<longleftrightarrow> \<not> continuation c"

function valid_utf8 :: "string \<Rightarrow> bool" where
  "valid_utf8 s =
     (if s = [] then True
      else if rune_length s = 0 then False else valid_utf8 (drop (rune_length s) s))"
  by pat_completeness auto
termination
  by (relation "measure length") (auto simp: rune_length_less)

declare valid_utf8.simps [simp del]

section \<open>ToValidUTF8\<close>

definition replacement_char :: string where
  "replacement_char = [CHR 0xEF, CHR 0xBF, CHR 0xBD]"

text \<open>Every run of invalid bytes becomes one replacement character.\<close>

function scrub :: "bool \<Rightarrow> string \<Rightarrow> string" where
  "scrub in_run s =
     (if s = [] then []
      else if rune_length s = 0
      then (if in_run then [] else replacement_char) @ scrub True (tl s)
      else take (rune_length s) s @ scrub False (drop (rune_length s) s))"
  by pat_completeness auto
termination
  by (relation "measure (\<lambda>(in_run, s). length s)") (auto simp: rune_length_less)

declare scrub.simps [simp del]

definition to_valid_utf8 :: "string \<Rightarrow> string" where
  "to_valid_utf8 = scrub False"

section \<open>Characters and concatenation\<close>

lemma rune_length_append:
  assumes "0 < rune_length s"
  shows "rune_length (s @ t) = rune_length s"
proof -
  have tail: "\<exists>e f g u. s @ t = s @ e # f # g # u \<or> t = [] \<or> (\<exists>e. t = [e]) \<or> (\<exists>e f. t = [e, f])"
    by (metis neq_Nil_conv)
  show ?thesis
    using assms tail by (cases s rule: rune_length.cases) (auto split: if_splits)
qed

lemma rune_length_take:
  assumes "0 < rune_length s"
  shows "rune_length (take (rune_length s) s) = rune_length s"
  using assms by (cases s rule: rune_length.cases) (auto split: if_splits)


lemma rune_facts:
  assumes "0 < rune_length s"
  shows "rune_start (hd s)" and "0 < i \<Longrightarrow> i < rune_length s \<Longrightarrow> continuation (s ! i)"
  using assms
  by (cases s rule: rune_length.cases;
      auto simp: rune_start_def continuation_def nth_Cons less_Suc_eq split: if_splits nat.splits)+

lemma valid_utf8_Nil [simp]: "valid_utf8 []"
  by (subst valid_utf8.simps) simp

lemma valid_utf8_rune:
  "0 < rune_length s \<Longrightarrow> valid_utf8 s = valid_utf8 (drop (rune_length s) s)"
  by (subst valid_utf8.simps) auto

lemma valid_utf8_front: "valid_utf8 s \<Longrightarrow> s \<noteq> [] \<Longrightarrow> 0 < rune_length s"
  by (subst (asm) valid_utf8.simps) (auto split: if_splits)

lemma valid_utf8_append: "valid_utf8 s \<Longrightarrow> valid_utf8 t \<Longrightarrow> valid_utf8 (s @ t)"
proof (induction s rule: valid_utf8.induct)
  case (1 s)
  show ?case
  proof (cases "s = []")
    case False
    then have "0 < rune_length s" using 1(2) by (simp add: valid_utf8_front)
    then show ?thesis
      using 1 False rune_length_le [of s]
      by (simp add: valid_utf8_rune [of "s @ t"] valid_utf8_rune [of s] rune_length_append)
  qed (use 1 in simp)
qed

lemma valid_utf8_one_rune: "0 < rune_length s \<Longrightarrow> valid_utf8 (take (rune_length s) s)"
  using rune_length_take [of s] rune_length_le [of s]
  by (simp add: valid_utf8_rune [of "take (rune_length s) s"])

lemma valid_utf8_scrub: "valid_utf8 (scrub b s)"
proof (induction b s rule: scrub.induct)
  case (1 b s)
  have "valid_utf8 replacement_char"
    by (simp add: replacement_char_def valid_utf8.simps continuation_def)
  with 1 show ?case
    by (subst scrub.simps) (auto intro!: valid_utf8_append valid_utf8_one_rune)
qed

lemma scrub_valid: "valid_utf8 s \<Longrightarrow> scrub b s = s"
proof (induction b s rule: scrub.induct)
  case (1 b s)
  then show ?case
    by (subst scrub.simps) (use valid_utf8_front [of s] valid_utf8_rune [of s] in auto)
qed

lemma length_scrub: "length (scrub b s) \<le> 3 * length s"
proof (induction b s rule: scrub.induct)
  case (1 b s)
  show ?case
  proof (cases "s = [] \<or> rune_length s = 0")
    case True
    then show ?thesis
      using 1(1) by (subst scrub.simps) (cases s; auto simp: replacement_char_def)
  next
    case False
    then show ?thesis
      using 1(2) rune_length_le [of s] by (subst scrub.simps) auto
  qed
qed

text \<open>
  Skipping to the next first byte of a character keeps a valid string valid, and skips three
  bytes at most.
\<close>

abbreviation to_rune :: "string \<Rightarrow> string" where
  "to_rune s \<equiv> dropWhile (\<lambda>c. \<not> rune_start c) s"

abbreviation before_rune :: "string \<Rightarrow> string" where
  "before_rune s \<equiv> takeWhile (\<lambda>c. \<not> rune_start c) s"

lemma valid_utf8_start: "valid_utf8 s \<Longrightarrow> to_rune s = s \<and> before_rune s = []"
  using valid_utf8_front [of s] rune_facts(1) [of s] by (cases s) auto

lemma valid_utf8_drop:
  assumes "valid_utf8 s"
  shows "valid_utf8 (to_rune (drop i s)) \<and> length (before_rune (drop i s)) \<le> 3"
  using assms
proof (induction s arbitrary: i rule: valid_utf8.induct)
  case (1 s)
  show ?case
  proof (cases "s = []")
    case False
    define k where "k = rune_length s"
    have k: "0 < k" "k \<le> length s" "k \<le> 4" and rest: "valid_utf8 (drop k s)"
      using 1(2) False valid_utf8_front [of s] valid_utf8_rune [of s] rune_length_le [of s]
        rune_length_4 [of s]
      by (simp_all add: k_def)
    consider "i = 0" | "0 < i" "i < k" | "k \<le> i" by linarith
    then show ?thesis
    proof cases
      assume "i = 0"
      then show ?thesis using 1(2) valid_utf8_start [of s] by simp
    next
      assume i: "0 < i" "i < k"
      have "\<forall>c \<in> set (drop i (take k s)). \<not> rune_start c"
        using i k rune_facts(2) [of s] by (auto simp: in_set_conv_nth rune_start_def k_def)
      moreover have "drop i s = drop i (take k s) @ drop k s"
        using i by (metis append_take_drop_id drop_append diff_is_0_eq drop_0 k(2) length_take
            less_imp_le min.absorb2)
      moreover have "length (drop i (take k s)) \<le> 3" using i k by simp
      ultimately show ?thesis using rest valid_utf8_start [OF rest] by simp
    next
      assume "k \<le> i"
      then have "drop i s = drop (i - k) (drop k s)" by simp
      then show ?thesis using 1(1) [of "i - k"] False k rest by (simp add: k_def)
    qed
  qed simp
qed

text \<open>What is skipped becomes one replacement character.\<close>

lemma rune_length_continuation: "continuation c \<Longrightarrow> rune_length (c # s) = 0"
  by (cases "c # s" rule: rune_length.cases) (auto simp: continuation_def)

lemma scrub_True_continuations:
  "\<forall>c \<in> set cs. continuation c \<Longrightarrow> valid_utf8 t \<Longrightarrow> scrub True (cs @ t) = t"
  by (induction cs) (simp_all add: scrub_valid scrub.simps [of True "_ # _"] rune_length_continuation)

lemma to_valid_utf8_cut:
  assumes "valid_utf8 s"
  shows "to_valid_utf8 (drop i s)
    = (if before_rune (drop i s) = [] then [] else replacement_char) @ to_rune (drop i s)"
proof (cases "before_rune (drop i s)")
  case Nil
  then show ?thesis
    using valid_utf8_drop [OF assms, of i] takeWhile_dropWhile_id [of "\<lambda>c. \<not> rune_start c" "drop i s"]
    by (simp add: to_valid_utf8_def scrub_valid)
next
  case (Cons c cs)
  have "\<forall>d \<in> set (before_rune (drop i s)). continuation d"
    by (auto dest: set_takeWhileD simp: rune_start_def)
  then have "continuation c" "scrub True (cs @ to_rune (drop i s)) = to_rune (drop i s)"
    using Cons valid_utf8_drop [OF assms, of i] by (simp_all add: scrub_True_continuations)
  then have "scrub False (c # cs @ to_rune (drop i s)) = replacement_char @ to_rune (drop i s)"
    by (subst scrub.simps) (simp add: rune_length_continuation)
  moreover have "drop i s = c # cs @ to_rune (drop i s)"
    using takeWhile_dropWhile_id [of "\<lambda>c. \<not> rune_start c" "drop i s"] Cons by simp
  ultimately have "scrub False (drop i s) = replacement_char @ to_rune (drop i s)"
    by simp
  then show ?thesis using Cons by (simp add: to_valid_utf8_def)
qed

section \<open>Case\<close>

definition ascii_lower :: "char \<Rightarrow> char" where
  "ascii_lower c =
     (let n = of_char c :: nat in if 65 \<le> n \<and> n \<le> 90 then char_of (n + 32) else c)"

text \<open>
  \<open>strings.EqualFold\<close> against a word of ASCII letters without \<open>s\<close>: letters match in either
  case, and \<open>k\<close> matches the Kelvin sign U+212A too.
\<close>

fun fold_kelvin :: "string \<Rightarrow> string" where
  "fold_kelvin (a # b # c # cs) =
     (if [a, b, c] = [CHR 0xE2, CHR 0x84, CHR 0xAA] then CHR ''k'' # fold_kelvin cs
      else a # fold_kelvin (b # c # cs))"
| "fold_kelvin cs = cs"

definition equal_fold :: "string \<Rightarrow> string \<Rightarrow> bool" where
  "equal_fold s word \<longleftrightarrow> map ascii_lower (fold_kelvin s) = map ascii_lower word"

text \<open>
  \<open>strings.ToLower\<close> as far as ASCII characters of the result go: besides the capital letters of
  ASCII the characters U+212A and U+0130 become ASCII letters, and no other character does.
\<close>

fun go_lower :: "string \<Rightarrow> string" where
  "go_lower [] = []"
| "go_lower [a] = [ascii_lower a]"
| "go_lower [a, b] =
     (if [a, b] = [CHR 0xC4, CHR 0xB0] then ''i'' else [ascii_lower a, ascii_lower b])"
| "go_lower (a # b # c # cs) =
     (if [a, b] = [CHR 0xC4, CHR 0xB0] then CHR ''i'' # go_lower (c # cs)
      else if [a, b, c] = [CHR 0xE2, CHR 0x84, CHR 0xAA] then CHR ''k'' # go_lower cs
      else ascii_lower a # go_lower (b # c # cs))"

section \<open>Control characters\<close>

text \<open>
  Whether a rune of a string is \<open>unicode.IsControl\<close>: U+0000 to U+001F and U+007F to U+009F, of
  which those from U+0080 are two bytes.
\<close>

fun has_control :: "string \<Rightarrow> bool" where
  "has_control [] = False"
| "has_control (c # cs) =
     (of_char c < (0x20 :: nat) \<or> of_char c = (0x7F :: nat)
      \<or> c = CHR 0xC2 \<and> cs \<noteq> [] \<and> byte_at_most 0x80 (hd cs) 0x9F
      \<or> has_control cs)"

end
