(* ===== verification/Sstat.thy ===== *)
theory Sstat
  imports Format Utf8
begin

text \<open>
  The server's side of the resource monitor (\<open>internal/slurm/resource_usage.go\<close>): the output
  of \<open>sstat\<close> becomes the figures that the browser shows. Integers are Go's \<open>int64\<close>: every
  sum and product that the code writes without a guard is wrapped by \<open>wrap64\<close>. A fallible
  function returns \<open>Inl\<close> of the error or \<open>Inr\<close> of the result.
\<close>

section \<open>Errors\<close>

datatype sstat_error =
  TooManySteps | FieldCount | WrongJob | StepName | CpuTime | CpuTimeRange
| TresTooLong | TresWithoutCpu | SizeUnit | SizeNumber | SizeRange | TotalRange | LineTooLong

section \<open>isUnavailableSstatValue\<close>

definition is_unavailable :: "string \<Rightarrow> bool" where
  "is_unavailable v \<longleftrightarrow> v = [] \<or> equal_fold v ''N/A'' \<or> equal_fold v ''Unknown''"

section \<open>parseSstatDuration\<close>

definition parse_natural :: "string \<Rightarrow> sstat_error + int" where
  "parse_natural s =
     (case parse_int64 s of
        None \<Rightarrow> Inl CpuTime
      | Some i \<Rightarrow> if i < 0 then Inl CpuTime else Inr i)"

definition duration_total :: "int \<Rightarrow> int \<Rightarrow> int \<Rightarrow> int \<Rightarrow> sstat_error + int" where
  "duration_total days hours minutes seconds =
     (if minutes \<ge> 60 \<or> seconds \<ge> 60 \<or> days > int64_max div 86400 \<or> hours > int64_max div 3600
      then Inl CpuTime
      else
        let total = wrap64 (days * 86400)
        in if wrap64 (hours * 3600) > wrap64 (int64_max - total) then Inl CpuTimeRange
           else
             let total = wrap64 (total + wrap64 (hours * 3600))
             in if minutes > wrap64 (int64_max - total) div 60
                   \<or> seconds > wrap64 (wrap64 (int64_max - total) - wrap64 (minutes * 60))
                then Inl CpuTimeRange
                else Inr (wrap64 (wrap64 (total + wrap64 (minutes * 60)) + seconds)))"

definition parse_sstat_duration :: "string \<Rightarrow> sstat_error + int" where
  "parse_sstat_duration text_value =
     (let v = trim_space text_value
      in if is_unavailable v then Inr 0
         else
           let day_parts = split_str ''-'' v
           in if length day_parts > 2 then Inl CpuTime
              else
                sum_bind (if length day_parts = 2 then parse_natural (day_parts ! 0) else Inr 0)
                  (\<lambda>days.
                    let time_part = (if length day_parts = 2 then day_parts ! 1 else day_parts ! 0);
                        parts = split_str '':'' time_part
                    in if length parts < 2 \<or> length parts > 3 then Inl CpuTime
                       else
                         sum_bind (map_sum_list parse_natural parts)
                           (\<lambda>vs. if length vs = 3
                             then duration_total days (vs ! 0) (vs ! 1) (vs ! 2)
                             else duration_total days 0 (vs ! 0) (vs ! 1))))"

section \<open>The arithmetic never wraps\<close>

lemma parse_natural_range: "parse_natural s = Inr i \<Longrightarrow> 0 \<le> i \<and> i \<le> int64_max"
  using parse_int64_range [of s i] by (auto simp: parse_natural_def split: option.splits if_splits)

text \<open>The guards are exactly the overflow of the mathematical sum.\<close>

lemma duration_total_exact:
  assumes "0 \<le> d" and "0 \<le> h" and "0 \<le> m" and "0 \<le> s"
  shows "duration_total d h m s =
    (if m \<ge> 60 \<or> s \<ge> 60 \<or> d > int64_max div 86400 \<or> h > int64_max div 3600 then Inl CpuTime
     else if d * 86400 + h * 3600 + m * 60 + s \<le> int64_max
     then Inr (d * 86400 + h * 3600 + m * 60 + s)
     else Inl CpuTimeRange)"
proof (cases "m \<ge> 60 \<or> s \<ge> 60 \<or> d > int64_max div 86400 \<or> h > int64_max div 3600")
  case True
  then show ?thesis by (simp add: duration_total_def)
next
  case False
  then have b: "m < 60" "s < 60" "d * 86400 \<le> int64_max" "h * 3600 \<le> int64_max"
    by (auto simp: int64_max_def)
  have m: "0 < int64_max" by (simp add: int64_max_def)
  have w: "wrap64 x = x" if "0 \<le> x" "x \<le> int64_max" for x
    using that by (intro wrap64_id) (simp_all add: int64_max_def)
  have w1: "wrap64 (d * 86400) = d * 86400" "wrap64 (h * 3600) = h * 3600"
    "wrap64 (int64_max - d * 86400) = int64_max - d * 86400" "wrap64 (m * 60) = m * 60"
    using assms b by (auto intro!: w simp: int64_max_def)
  show ?thesis
  proof (cases "h * 3600 > int64_max - d * 86400")
    case True
    then show ?thesis
      using False assms w1 by (simp add: duration_total_def Let_def)
  next
    case le: False
    let ?t = "d * 86400 + h * 3600"
    have w2: "wrap64 ?t = ?t" "wrap64 (int64_max - ?t) = int64_max - ?t"
      using assms le by (auto intro!: w)
    have w3: "wrap64 (int64_max - ?t - m * 60) = int64_max - ?t - m * 60"
      using assms le b by (intro wrap64_id) (auto simp: int64_max_def)
    show ?thesis
    proof (cases "?t + m * 60 + s \<le> int64_max")
      case True
      have "wrap64 (?t + m * 60) = ?t + m * 60" "wrap64 (?t + m * 60 + s) = ?t + m * 60 + s"
        using assms True by (auto intro!: w)
      moreover have "m \<le> (int64_max - ?t) div 60" using True assms by linarith
      ultimately show ?thesis
        using False le True w1 w2 w3 by (simp add: duration_total_def Let_def)
    next
      case over: False
      then have "m > (int64_max - ?t) div 60 \<or> s > int64_max - ?t - m * 60" by linarith
      then show ?thesis
        using False le over w1 w2 w3 by (auto simp: duration_total_def Let_def)
    qed
  qed
qed


section \<open>The browser's texts read back\<close>

lemma go_spaces_edges: "\<forall>t \<in> set go_spaces. \<not> is_digit (hd t) \<and> \<not> is_digit (last t)"
  by code_simp

lemma leading_digit:
  assumes "is_digit c" and "\<forall>t \<in> set toks. t \<noteq> [] \<longrightarrow> \<not> is_digit (hd t)"
  shows "leading toks (c # cs) = None"
  unfolding leading_def find_None_iff
proof
  assume "\<exists>t. t \<in> set toks \<and> t \<noteq> [] \<and> take (length t) (c # cs) = t"
  then obtain t where t: "t \<in> set toks" "t \<noteq> []" "take (length t) (c # cs) = t" by blast
  then have "hd t = c" by (metis hd_take length_greater_0_conv list.sel(1))
  then show False using assms t(1,2) by auto
qed

lemma trim_space_digits:
  assumes "s \<noteq> []" and "is_digit (hd s)" and "is_digit (last s)"
  shows "trim_space s = s"
  unfolding trim_space_def
proof (rule trim_tokens_id)
  show "leading go_spaces s = None"
    using leading_digit [of "hd s" go_spaces "tl s"] assms(1,2) go_spaces_edges by simp
  have "\<forall>t \<in> set (map rev go_spaces). t \<noteq> [] \<longrightarrow> \<not> is_digit (hd t)"
    using go_spaces_edges by (auto simp: hd_rev)
  from leading_digit [OF assms(3) this]
  have "leading (map rev go_spaces) (last s # tl (rev s)) = None" .
  moreover have "last s # tl (rev s) = rev s"
    using assms(1) by (metis hd_Cons_tl hd_rev rev_is_Nil_conv)
  ultimately show "leading (map rev go_spaces) (rev s) = None" by simp
qed

lemma ascii_lower_digit: "is_digit c \<Longrightarrow> ascii_lower c = c"
  by (auto simp: ascii_lower_def is_digit_def Let_def)

lemma available_digits:
  assumes "is_digit (hd s)" and "s \<noteq> []"
  shows "\<not> is_unavailable s"
proof -
  obtain c cs where s: "s = c # cs" using assms(2) by (cases s) auto
  have c: "is_digit c" using assms(1) s by simp
  then have "c \<noteq> CHR 0xE2" by (auto simp: is_digit_def)
  then have "fold_kelvin s = c # fold_kelvin cs \<or> fold_kelvin s = s"
    unfolding s by (cases "(c # cs)" rule: fold_kelvin.cases) auto
  then have "hd (map ascii_lower (fold_kelvin s)) = c"
    using ascii_lower_digit [OF c] by (auto simp: s)
  moreover have "c \<noteq> CHR ''n''" "c \<noteq> CHR ''u''"
    using c by (auto simp: is_digit_def)
  moreover have "hd (map ascii_lower ''N/A'') = CHR ''n''" "hd (map ascii_lower ''Unknown'') = CHR ''u''"
    by code_simp+
  ultimately have "map ascii_lower (fold_kelvin s) \<noteq> map ascii_lower ''N/A''"
    "map ascii_lower (fold_kelvin s) \<noteq> map ascii_lower ''Unknown''"
    by metis+
  then show ?thesis using s by (simp add: is_unavailable_def equal_fold_def)
qed

lemma clock_text_pieces:
  assumes "vs \<noteq> []"
  shows "split_str '':'' (clock_text vs) = map (\<lambda>v. pad2 (dec v)) vs"
    and "clock_text vs \<noteq> []" and "is_digit (hd (clock_text vs))" and "is_digit (last (clock_text vs))"
    and "CHR ''-'' \<notin> set (clock_text vs)"
proof -
  have digits: "\<forall>c \<in> set (pad2 (dec v)). is_digit c" for v
    by (rule pad2_digits [OF dec_digits])
  then have "CHR '':'' \<notin> set (pad2 (dec v))" for v
    using is_digit_not(1) by blast
  then show "split_str '':'' (clock_text vs) = map (\<lambda>v. pad2 (dec v)) vs"
    unfolding clock_text_def by (intro split_char_join) (use assms in auto)
  have ends: "is_digit (hd (pad2 (dec v)))" "is_digit (last (pad2 (dec v)))" for v
    using digits [of v] by (meson hd_in_set last_in_set pad2_not_Nil)+
  show "clock_text vs \<noteq> []" "is_digit (hd (clock_text vs))" "is_digit (last (clock_text vs))"
    unfolding clock_text_def using assms
    by (induction vs rule: induct_list012) (simp_all add: ends)
  have "CHR ''-'' \<notin> set (pad2 (dec v))" for v
    using digits is_digit_not(2) by blast
  then show "CHR ''-'' \<notin> set (clock_text vs)"
    using set_join_str_subset [of "'':''" "map (\<lambda>v. pad2 (dec v)) vs"]
    by (auto simp: clock_text_def)
qed

lemma parse_natural_pad2: "int n \<le> int64_max \<Longrightarrow> parse_natural (pad2 (dec n)) = Inr (int n)"
  by (simp add: parse_natural_def parse_int64_pad2)

lemma parse_natural_dec: "int n \<le> int64_max \<Longrightarrow> parse_natural (dec n) = Inr (int n)"
  by (simp add: parse_natural_def parse_int64_dec)


lemma parse_clock_text:
  assumes "int h \<le> int64_max" and "int m \<le> int64_max" and "int s \<le> int64_max"
  shows "map_sum_list parse_natural (split_str '':'' (clock_text [h, m, s]))
    = Inr [int h, int m, int s]"
  using assms by (simp add: clock_text_pieces parse_natural_pad2)

lemma format_duration_parsed:
  assumes "int n \<le> int64_max"
  shows "parse_sstat_duration (format_duration n) = Inr (int n)"
proof -
  define d where "d = n div 86400"
  define h where "h = n mod 86400 div 3600"
  define m where "m = n mod 86400 mod 3600 div 60"
  define s where "s = n mod 86400 mod 60"
  have n: "n = d * 86400 + h * 3600 + m * 60 + s"
  proof -
    have "n mod 86400 = h * 3600 + n mod 86400 mod 3600" unfolding h_def by simp
    moreover have "n mod 86400 mod 3600 = m * 60 + n mod 86400 mod 3600 mod 60" unfolding m_def by simp
    moreover have "n mod 86400 mod 3600 mod 60 = s" unfolding s_def by (simp add: mod_mod_cancel)
    moreover have "n = d * 86400 + n mod 86400" unfolding d_def by simp
    ultimately show ?thesis by linarith
  qed
  have small: "h < 24" "m < 60" "s < 60"
    unfolding h_def m_def s_def by (simp_all add: less_mult_imp_div_less)
  let ?c = "clock_text [h, m, s]"
  note c = clock_text_pieces [of "[h, m, s]", simplified]
  have range: "int d \<le> int64_max" "int h \<le> int64_max" "int m \<le> int64_max" "int s \<le> int64_max"
    using assms small by (simp_all add: n int64_max_def)
  have total: "duration_total (int d) (int h) (int m) (int s) = Inr (int n)"
    using assms small by (subst duration_total_exact) (simp_all add: n int64_max_def)
  have text_eq: "format_duration n = (if 0 < d then dec d @ ''-'' @ ?c else ?c)"
    unfolding format_duration_def Let_def d_def h_def m_def s_def by simp
  have digits: "is_digit (hd (dec d))"
    using dec_digits [of d] by (meson dec_not_Nil hd_in_set)
  have ends: "format_duration n \<noteq> []" "is_digit (hd (format_duration n))"
    "is_digit (last (format_duration n))"
    unfolding text_eq using c(2-4) digits by simp_all
  have parsed: "map_sum_list parse_natural (split_str '':'' ?c) = Inr [int h, int m, int s]"
    using parse_clock_text range(2-4) .
  have three: "length (split_str '':'' ?c) = 3" by (simp add: c(1))
  have day_parts: "split_str ''-'' (format_duration n) = (if 0 < d then [dec d, ?c] else [?c])"
  proof (cases "0 < d")
    case True
    have "split_str ''-'' (join_str ''-'' [dec d, ?c]) = [dec d, ?c]"
      by (rule split_char_join) (use c(5) dec_not_mem [of "CHR ''-''"] in auto)
    then show ?thesis using True text_eq by simp
  next
    case False
    then show ?thesis using c(5) text_eq by (simp add: split_char_no_sep)
  qed
  show ?thesis
    unfolding parse_sstat_duration_def trim_space_digits [OF ends] Let_def
    using available_digits [OF ends(2,1)] total parsed three range(1)
    by (cases "0 < d") (simp_all add: day_parts parse_natural_dec)
qed

text \<open>
  Durations. Whatever CPU time the page prints, up to the largest 64-bit number of
  seconds, the server's parser of \<open>sstat\<close> durations reads back as that number of seconds: the
  page uses the format of \<open>sstat\<close>, and neither side loses or wraps anything.
\<close>

theorem duration_round_trip:
  assumes "int n \<le> int64_max"
  shows "parse_sstat_duration (format_duration n) = Inr (int n)"
  using assms by (rule format_duration_parsed)

theorem duration_round_trip_witness:
  "format_duration 93784 = ''1-02:03:04'' \<and> parse_sstat_duration ''1-02:03:04'' = Inr 93784"
proof -
  have "format_duration 93784 = ''1-02:03:04''"
    by (simp add: format_duration_def clock_text_def pad2_def dec.simps Let_def)
  then show ?thesis
    using duration_round_trip [of 93784] by (simp add: int64_max_def)
qed


section \<open>parseSstatTRESCPU and parseSstatSize\<close>

definition max_detail_field_length :: nat where
  "max_detail_field_length = 1024"

text \<open>\<open>strings.Cut(s, "=")\<close>\<close>

definition cut_eq :: "string \<Rightarrow> (string \<times> string) option" where
  "cut_eq s =
     (case dropWhile (\<lambda>c. c \<noteq> CHR ''='') s of
        [] \<Rightarrow> None
      | _ # rest \<Rightarrow> Some (takeWhile (\<lambda>c. c \<noteq> CHR ''='') s, rest))"

definition cpu_amount :: "string \<Rightarrow> string option" where
  "cpu_amount item =
     (case cut_eq (trim_space item) of
        Some (name, amount) \<Rightarrow> if name = ''cpu'' then Some (trim_space amount) else None
      | None \<Rightarrow> None)"

definition parse_sstat_tres_cpu :: "string \<Rightarrow> sstat_error + string" where
  "parse_sstat_tres_cpu text_value =
     (let v = trim_space text_value
      in if is_unavailable v then Inr v
         else if length v > max_detail_field_length then Inl TresTooLong
         else case List.map_filter cpu_amount (split_str '','' v) of
             [] \<Rightarrow> Inl TresWithoutCpu
           | amount # _ \<Rightarrow> Inr amount)"

text \<open>
  \<open>strconv.ParseFloat\<close> is a parameter of the model: \<open>None\<close> for an error, an infinity or not a
  number. The scaling by a power of 1024 is exact. The bound of the code is the constant
  \<open>math.MaxInt64\<close>, which as a \<open>float64\<close> is \<open>2 ^ 63\<close>; the conversion of a rounded number out
  of range to \<open>int64\<close> is left to the implementation, and \<open>overflow\<close> is what it gives.
\<close>

definition unit_power :: "char \<Rightarrow> nat option" where
  "unit_power c =
     map_option fst (find (\<lambda>p. snd p = c) (zip [1..<7] ''KMGTPE''))"

definition int64_of_float :: "int \<Rightarrow> rat \<Rightarrow> int" where
  \<comment> \<open>\<open>int64(math.Round(x))\<close> of a number that is not negative\<close>
  "int64_of_float overflow x =
     (let r = \<lfloor>x + 1 / 2\<rfloor> in if r \<le> int64_max then r else overflow)"

definition parse_sstat_size ::
  "(string \<Rightarrow> rat option) \<Rightarrow> int \<Rightarrow> string \<Rightarrow> sstat_error + int" where
  "parse_sstat_size parse_float overflow text_value =
     (let v = trim_space text_value
      in if v = ''0'' \<or> is_unavailable v then Inr 0
         else case unit_power (last v) of
             None \<Rightarrow> Inl SizeUnit
           | Some pow \<Rightarrow>
               (case parse_float (butlast v) of
                  None \<Rightarrow> Inl SizeNumber
                | Some number \<Rightarrow>
                    if number < 0 then Inl SizeNumber
                    else
                      let bytes = number * 1024 ^ pow
                      in if bytes > 2 ^ 63 then Inl SizeRange
                         else Inr (int64_of_float overflow bytes)))"

section \<open>parseSstat\<close>

record job_step =
  js_step :: string
  js_ave_cpu_seconds :: int
  js_total_cpu :: string
  js_total_cpu_seconds :: int
  js_sizes :: "int list"          \<comment> \<open>AveRSS, MaxRSS, AveVMSize and MaxVMSize in bytes\<close>
  js_texts :: "string list"       \<comment> \<open>AveCPU and the four sizes as \<open>sstat\<close> wrote them\<close>

record job_usage =
  ju_job :: string
  ju_total_cpu_seconds :: int
  ju_max_rss_bytes :: int
  ju_steps :: "job_step list"

definition max_sstat_steps :: nat where
  "max_sstat_steps = 1024"

definition max_sstat_line_length :: nat where
  "max_sstat_line_length = 8 * max_detail_field_length"

definition trim_cr :: "string \<Rightarrow> string" where
  "trim_cr s = (if s \<noteq> [] \<and> last s = CHR 0x0D then butlast s else s)"

text \<open>The lines of a \<open>bufio.Scanner\<close>: an empty rest after the last line feed is no line.\<close>

definition scan_lines :: "string \<Rightarrow> string list" where
  "scan_lines s =
     (let ls = split_str [CHR 0x0A] s in if last ls = [] then butlast ls else ls)"

definition step_name_of :: "string \<Rightarrow> string \<Rightarrow> sstat_error + string" where
  "step_name_of job step_id =
     (if step_id \<noteq> job \<and> \<not> prefix (job @ ''.'') step_id then Inl WrongJob
      else
        let trimmed = (if prefix (job @ ''.'') step_id
                       then drop (length job + 1) step_id else step_id);
            name = (if trimmed = job then ''job'' else trimmed)
        in if name = [] \<or> length name > max_detail_field_length then Inl StepName else Inr name)"

definition parse_row ::
  "(string \<Rightarrow> rat option) \<Rightarrow> int \<Rightarrow> string \<Rightarrow> string \<Rightarrow> sstat_error + job_step" where
  "parse_row parse_float overflow job line =
     (let fields = split_str ''|'' line
      in if length fields \<noteq> 7 then Inl FieldCount
         else
           sum_bind (step_name_of job (trim_space (fields ! 0))) (\<lambda>name.
           sum_bind (parse_sstat_duration (fields ! 1)) (\<lambda>ave_seconds.
           sum_bind (parse_sstat_tres_cpu (fields ! 6)) (\<lambda>total_text.
           sum_bind (parse_sstat_duration total_text) (\<lambda>total_seconds.
           sum_bind (map_sum_list (parse_sstat_size parse_float overflow)
               [fields ! 2, fields ! 3, fields ! 4, fields ! 5]) (\<lambda>sizes.
             Inr \<lparr>js_step = name, js_ave_cpu_seconds = ave_seconds, js_total_cpu = total_text,
                  js_total_cpu_seconds = total_seconds, js_sizes = sizes,
                  js_texts = map (\<lambda>i. trim_space (fields ! i)) [1, 2, 3, 4, 5]\<rparr>))))))"

fun parse_rows ::
  "(string \<Rightarrow> rat option) \<Rightarrow> int \<Rightarrow> string list \<Rightarrow> job_usage \<Rightarrow> sstat_error + job_usage" where
  "parse_rows parse_float overflow [] u = Inr u"
| "parse_rows parse_float overflow (line # ls) u =
     (if length line \<ge> max_sstat_line_length then Inl LineTooLong
      else if length (ju_steps u) = max_sstat_steps then Inl TooManySteps
      else
        sum_bind (parse_row parse_float overflow (ju_job u) (trim_cr (trim_cr line))) (\<lambda>step.
          if js_total_cpu_seconds step > wrap64 (int64_max - ju_total_cpu_seconds u)
          then Inl TotalRange
          else parse_rows parse_float overflow ls
            (u\<lparr>ju_total_cpu_seconds :=
                 wrap64 (ju_total_cpu_seconds u + js_total_cpu_seconds step),
               ju_max_rss_bytes := max (ju_max_rss_bytes u) (js_sizes step ! 1),
               ju_steps := ju_steps u @ [step]\<rparr>)))"

definition parse_sstat ::
  "(string \<Rightarrow> rat option) \<Rightarrow> int \<Rightarrow> string \<Rightarrow> nat \<Rightarrow> sstat_error + job_usage" where
  "parse_sstat parse_float overflow output job_id =
     parse_rows parse_float overflow (scan_lines output)
       \<lparr>ju_job = dec job_id, ju_total_cpu_seconds = 0, ju_max_rss_bytes = 0, ju_steps = []\<rparr>"


section \<open>What a parsed output means\<close>

lemma parse_sstat_duration_range:
  assumes "parse_sstat_duration v = Inr t"
  shows "0 \<le> t \<and> t \<le> int64_max"
proof -
  have natural: "0 \<le> i" if "map_sum_list parse_natural xs = Inr ys" "i \<in> set ys" for xs ys i
    using map_sum_list_set [OF that] parse_natural_range by blast
  have total: "0 \<le> t \<and> t \<le> int64_max"
    if "duration_total d h m s = Inr t" "0 \<le> d" "0 \<le> h" "0 \<le> m" "0 \<le> s" for d h m s
    using that(1) unfolding duration_total_exact [OF that(2-5)]
    using that(2-5) by (auto split: if_splits)
  have zero: "(0 :: int) \<le> int64_max" by (simp add: int64_max_def)
  show ?thesis
  proof (cases "is_unavailable (trim_space v)")
    case True
    then show ?thesis using assms zero by (simp add: parse_sstat_duration_def Let_def)
  next
    case False
    let ?dp = "split_str ''-'' (trim_space v)"
    let ?xs = "split_str '':'' (if length ?dp = 2 then ?dp ! 1 else ?dp ! 0)"
    have "\<not> length ?dp > 2" using assms False by (auto simp: parse_sstat_duration_def Let_def)
    then obtain d where dd: "(if length ?dp = 2 then parse_natural (?dp ! 0) else Inr 0) = Inr d"
      and rest: "(if length ?xs < 2 \<or> length ?xs > 3 then Inl CpuTime
        else sum_bind (map_sum_list parse_natural ?xs)
          (\<lambda>vs. if length vs = 3 then duration_total d (vs ! 0) (vs ! 1) (vs ! 2)
             else duration_total d 0 (vs ! 0) (vs ! 1))) = Inr t"
      using assms False unfolding parse_sstat_duration_def Let_def sum_bind_Inr
      by (simp only: if_False sum_bind_Inr) blast
    have d: "0 \<le> d" using dd parse_natural_range by (auto split: if_splits)
    obtain ys xs where ys: "map_sum_list parse_natural xs = Inr ys" "length xs = 2 \<or> length xs = 3"
      and t: "(if length ys = 3 then duration_total d (ys ! 0) (ys ! 1) (ys ! 2)
             else duration_total d 0 (ys ! 0) (ys ! 1)) = Inr t"
    proof -
      have n: "\<not> (length ?xs < 2 \<or> length ?xs > 3)"
      proof
        assume "length ?xs < 2 \<or> length ?xs > 3"
        from rest [unfolded if_P [OF this]] show False by (rule sum.distinct(1) [THEN notE])
      qed
      then have two: "length ?xs = 2 \<or> length ?xs = 3" by linarith
      note n
      with rest obtain ys where "map_sum_list parse_natural ?xs = Inr ys"
        "(if length ys = 3 then duration_total d (ys ! 0) (ys ! 1) (ys ! 2)
             else duration_total d 0 (ys ! 0) (ys ! 1)) = Inr t"
        unfolding sum_bind_Inr by (simp only: if_False sum_bind_Inr) blast
      then show ?thesis using that two by blast
    qed
    have len: "length ys = length xs" using map_sum_list_length [OF ys(1)] .
    have "0 \<le> ys ! i" if "i < length ys" for i
      using natural [OF ys(1)] that by simp
    note nth = this
    show ?thesis
    proof (cases "length ys = 3")
      case True
      then show ?thesis
        using total [of d "ys ! 0" "ys ! 1" "ys ! 2"] t d nth by simp
    next
      case False
      then show ?thesis
        using total [of d 0 "ys ! 0" "ys ! 1"] t d nth ys(2) len by simp
    qed
  qed
qed

definition usage_ok :: "job_usage \<Rightarrow> bool" where
  "usage_ok u \<longleftrightarrow>
     ju_total_cpu_seconds u = sum_list (map js_total_cpu_seconds (ju_steps u))
   \<and> 0 \<le> ju_total_cpu_seconds u \<and> ju_total_cpu_seconds u \<le> int64_max
   \<and> ju_max_rss_bytes u = Max (insert 0 ((\<lambda>s. js_sizes s ! 1) ` set (ju_steps u)))
   \<and> length (ju_steps u) \<le> max_sstat_steps"

lemma parse_row_total_range:
  "parse_row pf ov job line = Inr step \<Longrightarrow>
     0 \<le> js_total_cpu_seconds step \<and> js_total_cpu_seconds step \<le> int64_max"
  using parse_sstat_duration_range
  by (auto simp: parse_row_def Let_def sum_bind_Inr split: if_splits)

lemma usage_ok_add:
  assumes "usage_ok u" and "0 \<le> js_total_cpu_seconds step"
    and "\<not> js_total_cpu_seconds step > wrap64 (int64_max - ju_total_cpu_seconds u)"
    and "length (ju_steps u) \<noteq> max_sstat_steps"
  shows "usage_ok (u\<lparr>ju_total_cpu_seconds :=
        wrap64 (ju_total_cpu_seconds u + js_total_cpu_seconds step),
      ju_max_rss_bytes := max (ju_max_rss_bytes u) (js_sizes step ! 1),
      ju_steps := ju_steps u @ [step]\<rparr>)"
proof -
  have u: "0 \<le> ju_total_cpu_seconds u" "ju_total_cpu_seconds u \<le> int64_max"
    using assms(1) by (simp_all add: usage_ok_def)
  then have "wrap64 (int64_max - ju_total_cpu_seconds u) = int64_max - ju_total_cpu_seconds u"
    by (intro wrap64_id) simp_all
  then have le: "ju_total_cpu_seconds u + js_total_cpu_seconds step \<le> int64_max"
    using assms(3) by simp
  then have "wrap64 (ju_total_cpu_seconds u + js_total_cpu_seconds step)
      = ju_total_cpu_seconds u + js_total_cpu_seconds step"
    using u assms(2) by (intro wrap64_id) simp_all
  moreover have "Max (insert 0 (insert x S)) = max (Max (insert 0 S)) x"
    if "finite S" for x :: int and S
    using that by (simp add: insert_commute [of 0 x] max.commute)
  ultimately show ?thesis
    using assms le u by (auto simp: usage_ok_def)
qed

lemma parse_rows_ok:
  "parse_rows pf ov ls u = Inr v \<Longrightarrow> usage_ok u \<Longrightarrow>
     usage_ok v \<and> ju_job v = ju_job u \<and> length (ju_steps v) = length (ju_steps u) + length ls"
proof (induction ls arbitrary: u)
  case (Cons line ls)
  obtain step where step: "parse_row pf ov (ju_job u) (trim_cr (trim_cr line)) = Inr step"
    "\<not> js_total_cpu_seconds step > wrap64 (int64_max - ju_total_cpu_seconds u)"
    "length (ju_steps u) \<noteq> max_sstat_steps"
    and rest: "parse_rows pf ov ls
        (u\<lparr>ju_total_cpu_seconds := wrap64 (ju_total_cpu_seconds u + js_total_cpu_seconds step),
           ju_max_rss_bytes := max (ju_max_rss_bytes u) (js_sizes step ! 1),
           ju_steps := ju_steps u @ [step]\<rparr>) = Inr v"
    using Cons.prems(1) by (auto simp: sum_bind_Inr split: if_splits)
  have "usage_ok (u\<lparr>ju_total_cpu_seconds := wrap64 (ju_total_cpu_seconds u + js_total_cpu_seconds step),
           ju_max_rss_bytes := max (ju_max_rss_bytes u) (js_sizes step ! 1),
           ju_steps := ju_steps u @ [step]\<rparr>)"
    using Cons.prems(2) step parse_row_total_range [OF step(1)] by (intro usage_ok_add) auto
  from Cons.IH [OF rest this] show ?case by simp
qed simp

text \<open>The fields of a step are there, and its name is a short text.\<close>

definition step_typed :: "job_step \<Rightarrow> bool" where
  "step_typed step \<longleftrightarrow>
     js_step step \<noteq> [] \<and> length (js_step step) \<le> max_detail_field_length
   \<and> length (js_sizes step) = 4 \<and> length (js_texts step) = 5"

lemma step_name_of_short:
  assumes "step_name_of job step_id = Inr name"
  shows "name \<noteq> [] \<and> length name \<le> max_detail_field_length"
proof -
  define n where "n = (let trimmed = (if prefix (job @ ''.'') step_id
      then drop (length job + 1) step_id else step_id) in if trimmed = job then ''job'' else trimmed)"
  have "step_name_of job step_id
      = (if step_id \<noteq> job \<and> \<not> prefix (job @ ''.'') step_id then Inl WrongJob
         else if n = [] \<or> length n > max_detail_field_length then Inl StepName else Inr n)"
    unfolding step_name_of_def n_def Let_def by (rule refl)
  with assms have "(if n = [] \<or> length n > max_detail_field_length then Inl StepName else Inr n) = Inr name"
    by (metis Inl_Inr_False)
  then show ?thesis by (simp split: if_split_asm)
qed

lemma parse_row_typed: "parse_row parse_float overflow job line = Inr step \<Longrightarrow> step_typed step"
proof -
  assume row: "parse_row parse_float overflow job line = Inr step"
  let ?fs = "split_str ''|'' line"
  obtain name sizes where step: "step_name_of job (trim_space (?fs ! 0)) = Inr name"
      "map_sum_list (parse_sstat_size parse_float overflow) [?fs ! 2, ?fs ! 3, ?fs ! 4, ?fs ! 5] = Inr sizes"
      "js_step step = name" "js_sizes step = sizes"
      "js_texts step = map (\<lambda>i. trim_space (?fs ! i)) [1, 2, 3, 4, 5]"
  proof -
    have "length ?fs = 7" by (rule ccontr) (use row in \<open>simp add: parse_row_def Let_def\<close>)
    then have "\<not> length ?fs \<noteq> 7" by simp
    note row [unfolded parse_row_def Let_def if_not_P [OF this] sum_bind_Inr]
    then show ?thesis by (elim exE conjE) (rule that, assumption, assumption, auto simp del: One_nat_def)
  qed
  from step_name_of_short [OF step(1)] show "step_typed step"
    using map_sum_list_length [OF step(2)] step(3-5) by (simp add: step_typed_def)
qed

lemma parse_rows_typed:
  "parse_rows parse_float overflow lines u = Inr v \<Longrightarrow> \<forall>step \<in> set (ju_steps u). step_typed step \<Longrightarrow>
   \<forall>step \<in> set (ju_steps v). step_typed step"
proof (induction lines arbitrary: u)
  case (Cons line lines)
  obtain step where step: "parse_row parse_float overflow (ju_job u) (trim_cr (trim_cr line)) = Inr step"
    and rest: "parse_rows parse_float overflow lines
        (u\<lparr>ju_total_cpu_seconds := wrap64 (ju_total_cpu_seconds u + js_total_cpu_seconds step),
           ju_max_rss_bytes := max (ju_max_rss_bytes u) (js_sizes step ! 1),
           ju_steps := ju_steps u @ [step]\<rparr>) = Inr v"
    using Cons.prems(1) by (auto simp: sum_bind_Inr split: if_splits)
  show ?case using Cons.prems(2) parse_row_typed [OF step] by (intro Cons.IH [OF rest]) simp
qed simp

lemma parsed_usage:
  assumes "parse_sstat parse_float overflow output job_id = Inr u"
  shows "ju_job u = dec job_id
       \<and> length (ju_steps u) = length (scan_lines output) \<and> length (ju_steps u) \<le> 1024
       \<and> ju_total_cpu_seconds u = sum_list (map js_total_cpu_seconds (ju_steps u))
       \<and> 0 \<le> ju_total_cpu_seconds u \<and> ju_total_cpu_seconds u \<le> int64_max
       \<and> ju_max_rss_bytes u = Max (insert 0 ((\<lambda>s. js_sizes s ! 1) ` set (ju_steps u)))"
proof -
  have "usage_ok \<lparr>ju_job = dec job_id, ju_total_cpu_seconds = 0, ju_max_rss_bytes = 0, ju_steps = []\<rparr>"
    by (simp add: usage_ok_def int64_max_def)
  from parse_rows_ok [OF assms [unfolded parse_sstat_def] this] show ?thesis
    by (simp add: usage_ok_def max_sstat_steps_def)
qed

lemma parse_sstat_typed:
  "parse_sstat parse_float overflow output job_id = Inr u \<Longrightarrow> step \<in> set (ju_steps u) \<Longrightarrow> step_typed step"
  using parse_rows_typed unfolding parse_sstat_def by fastforce

text \<open>
  Totals of a job. When the output of \<open>sstat\<close> is accepted, every line of it is one step,
  at most 1024; the CPU time of the job is the exact sum over the steps, a 64-bit number that
  is not negative, and its memory the largest of the steps, or zero.
\<close>

theorem parsed_usage_totals:
  assumes "parse_sstat parse_float overflow output job_id = Inr u"
  shows "ju_job u = dec job_id
       \<and> length (ju_steps u) = length (scan_lines output) \<and> length (ju_steps u) \<le> 1024
       \<and> ju_total_cpu_seconds u = sum_list (map js_total_cpu_seconds (ju_steps u))
       \<and> 0 \<le> ju_total_cpu_seconds u \<and> ju_total_cpu_seconds u \<le> int64_max
       \<and> ju_max_rss_bytes u = Max (insert 0 ((\<lambda>s. js_sizes s ! 1) ` set (ju_steps u)))"
  using assms by (rule parsed_usage)

text \<open>
  The largest size. The guard against sizes out of range compares with \<open>2 ^ 63\<close>, not with
  the largest 64-bit integer: a size of exactly eight exbibytes passes it, and the result is
  whatever the machine makes of a conversion out of range.
\<close>

theorem size_guard_misses_limit:
  assumes "parse_float ''8'' = Some 8"
  shows "parse_sstat_size parse_float overflow ''8E'' = Inr overflow \<and> 8 * 1024 ^ 6 > int64_max"
proof
  have "trim_space ''8E'' = ''8E''" "\<not> is_unavailable ''8E''" "unit_power CHR ''E'' = Some 6"
    by code_simp+
  moreover have "int64_of_float overflow (8 * 1024 ^ 6) = overflow"
    by (simp add: int64_of_float_def int64_max_def floor_eq_iff Let_def)
  ultimately show "parse_sstat_size parse_float overflow ''8E'' = Inr overflow"
    using assms by (simp add: parse_sstat_size_def Let_def)
  show "8 * 1024 ^ 6 > int64_max" by (simp add: int64_max_def)
qed


theorem size_guard_misses_limit_witness:
  "parse_sstat_size (\<lambda>s. if s = ''8'' then Some 8 else None) (- (2 ^ 63)) ''8E'' = Inr (- (2 ^ 63))"
  using size_guard_misses_limit [of "\<lambda>s. if s = ''8'' then Some 8 else None"] by simp

abbreviation example_float :: "string \<Rightarrow> rat option" where
  "example_float \<equiv> (\<lambda>s. if s = ''2'' then Some 2 else None)"

abbreviation example_output :: string where
  "example_output \<equiv> ''7.0|00:01|2K|2K|2K|2K|cpu=00:02,mem=2K''"

lemma example_parsed:
  "parse_sstat example_float 0 example_output 7 = Inr
     \<lparr>ju_job = ''7'', ju_total_cpu_seconds = 2, ju_max_rss_bytes = 2048, ju_steps =
       [\<lparr>js_step = ''0'', js_ave_cpu_seconds = 1, js_total_cpu = ''00:02'', js_total_cpu_seconds = 2,
         js_sizes = [2048, 2048, 2048, 2048], js_texts = [''00:01'', ''2K'', ''2K'', ''2K'', ''2K'']\<rparr>]\<rparr>"
proof -
  have row: "split_str ''|'' example_output
      = [''7.0'', ''00:01'', ''2K'', ''2K'', ''2K'', ''2K'', ''cpu=00:02,mem=2K'']"
    "trim_cr (trim_cr example_output) = example_output" "length example_output < max_sstat_line_length"
    by code_simp+
  have parts: "trim_space ''7.0'' = ''7.0''" "parse_sstat_duration ''00:01'' = Inr 1"
    "parse_sstat_tres_cpu ''cpu=00:02,mem=2K'' = Inr ''00:02''" "parse_sstat_duration ''00:02'' = Inr 2"
    "trim_space ''00:01'' = ''00:01''" "trim_space ''2K'' = ''2K''"
    by code_simp+
  have size: "parse_sstat_size example_float 0 ''2K'' = Inr 2048"
  proof -
    have "\<not> is_unavailable ''2K''" "unit_power CHR ''K'' = Some 1"
      by code_simp+
    then show ?thesis
      by (simp add: parse_sstat_size_def int64_of_float_def int64_max_def floor_eq_iff Let_def parts)
  qed
  have step: "parse_row example_float 0 ''7'' example_output = Inr
      \<lparr>js_step = ''0'', js_ave_cpu_seconds = 1, js_total_cpu = ''00:02'', js_total_cpu_seconds = 2,
       js_sizes = [2048, 2048, 2048, 2048], js_texts = [''00:01'', ''2K'', ''2K'', ''2K'', ''2K'']\<rparr>"
  proof -
    have "step_name_of ''7'' ''7.0'' = Inr ''0''"
      by (simp add: step_name_of_def max_detail_field_length_def)
    then show ?thesis unfolding parse_row_def Let_def row(1) by (simp add: parts size)
  qed
  have "dec 7 = ''7''" "scan_lines example_output = [example_output]"
    by (simp add: dec.simps) code_simp
  then show ?thesis
    using row(3) by (simp add: parse_sstat_def row(2) step max_sstat_steps_def int64_max_def wrap64_def not_le
        del: list.size(4))
qed

theorem parsed_usage_totals_witness:
  "\<exists>u. parse_sstat example_float 0 example_output 7 = Inr u
     \<and> ju_total_cpu_seconds u = sum_list (map js_total_cpu_seconds (ju_steps u))
     \<and> length (ju_steps u) = 1"
  using parsed_usage_totals [OF example_parsed] example_parsed by auto

end
