(* ===== verification/PartitionStore.thy ===== *)
theory PartitionStore
  imports Prelude
begin

text \<open>
  The partitions of the platform (\<open>internal/platform/partitions.go\<close>): a table of partitions,
  managed by the platform or imported from the system, with their nodes. The two SQL tables
  are one association list with distinct names; a transaction either commits or leaves the
  table as it was, and \<open>db_ok\<close> tells which. Times are numbers.

  The end of the theory is the page's report of an error (\<open>internal/web/partitions.go\<close>).
\<close>

section \<open>Data\<close>

record partition_spec =
  spec_nodes :: "string list"
  spec_managed :: bool
  spec_created :: int
  spec_updated :: int

type_synonym partition_table = "(string \<times> partition_spec) list"

datatype partition_error =
  InvalidName | NoNodes | InvalidNode | DuplicateNode | ReadOnly | AlreadyManaged | DatabaseError

record partition_change =
  change_spec :: partition_spec
  change_created :: bool
  change_updated :: bool
  change_added :: "string list"
  change_removed :: "string list"

section \<open>Operations\<close>

definition forbidden_chars :: string where
  "forbidden_chars = [CHR ''/'', CHR 0x5C, CHR 0x00, CHR 0x0D, CHR 0x0A, CHR 0x09, CHR '' '']"

definition valid_partition_identifier :: "string \<Rightarrow> bool" where
  "valid_partition_identifier v \<longleftrightarrow>
     \<not> (v = [] \<or> length v > 64 \<or> v = ''.'' \<or> v = ''..'' \<or> trim_space v \<noteq> v)
   \<and> list_all (\<lambda>c. c \<notin> set forbidden_chars) v"

fun check_nodes :: "string list \<Rightarrow> string list \<Rightarrow> partition_error + string list" where
  \<comment> \<open>the loop of \<open>normalizePartitionNodes\<close>; the first argument is the set \<open>seen\<close>\<close>
  "check_nodes seen [] = Inr []"
| "check_nodes seen (n # ns) =
     (let n = trim_space n
      in if \<not> valid_partition_identifier n then Inl InvalidNode
         else if n \<in> set seen then Inl DuplicateNode
         else case check_nodes (n # seen) ns of
             Inl e \<Rightarrow> Inl e
           | Inr rest \<Rightarrow> Inr (n # rest))"

definition normalize_partition_nodes :: "string list \<Rightarrow> partition_error + string list" where
  "normalize_partition_nodes ns =
     (case check_nodes [] ns of Inl e \<Rightarrow> Inl e | Inr xs \<Rightarrow> Inr (sort xs))"

definition diff_partition_nodes :: "string list \<Rightarrow> string list \<Rightarrow> string list \<times> string list" where
  "diff_partition_nodes existing desired =
     (filter (\<lambda>n. n \<notin> set existing) desired, filter (\<lambda>n. n \<notin> set desired) existing)"

definition load_partition :: "string \<Rightarrow> partition_table \<Rightarrow> partition_error + partition_spec option" where
  "load_partition name t =
     (case map_of t name of
        None \<Rightarrow> Inr None
      | Some s \<Rightarrow>
          (case normalize_partition_nodes (spec_nodes s) of
             Inl e \<Rightarrow> Inl e
           | Inr ns \<Rightarrow> Inr (Some (s\<lparr>spec_nodes := ns\<rparr>))))"

definition get_partition :: "string \<Rightarrow> partition_table \<Rightarrow> partition_error + partition_spec option" where
  "get_partition name t =
     (if \<not> valid_partition_identifier name then Inl InvalidName else load_partition name t)"

definition save_found ::
  "string \<Rightarrow> string list \<Rightarrow> bool \<Rightarrow> int \<Rightarrow> bool \<Rightarrow> partition_spec \<Rightarrow> partition_table
     \<Rightarrow> (partition_error + partition_change) \<times> partition_table" where
  \<comment> \<open>the branch of \<open>upsert\<close> for a name that exists\<close>
  "save_found name ns managed now db_ok existing t =
     (if spec_managed existing \<noteq> managed
      then (Inl (if managed then ReadOnly else AlreadyManaged), t)
      else
        let (added, removed) = diff_partition_nodes (spec_nodes existing) ns
        in if \<not> db_ok then (Inl DatabaseError, t)
           else if added = [] \<and> removed = []
           then (Inr \<lparr>change_spec = existing, change_created = False, change_updated = False,
                     change_added = [], change_removed = []\<rparr>, t)
           else
             let s = \<lparr>spec_nodes = ns, spec_managed = managed,
                      spec_created = spec_created existing, spec_updated = now\<rparr>
             in (Inr \<lparr>change_spec = s, change_created = False, change_updated = True,
                      change_added = added, change_removed = removed\<rparr>,
                 AList.update name s t))"

definition upsert ::
  "string \<Rightarrow> string list \<Rightarrow> bool \<Rightarrow> int \<Rightarrow> bool \<Rightarrow> partition_table
     \<Rightarrow> (partition_error + partition_change) \<times> partition_table" where
  "upsert name nodes managed now db_ok t =
     (if \<not> valid_partition_identifier name then (Inl InvalidName, t)
      else if nodes = [] then (Inl NoNodes, t)
      else case normalize_partition_nodes nodes of
          Inl e \<Rightarrow> (Inl e, t)
        | Inr ns \<Rightarrow>
            (case load_partition name t of
               Inl e \<Rightarrow> (Inl e, t)
             | Inr (Some existing) \<Rightarrow> save_found name ns managed now db_ok existing t
             | Inr None \<Rightarrow>
                 if \<not> db_ok then (Inl DatabaseError, t)
                 else
                   let s = \<lparr>spec_nodes = ns, spec_managed = managed,
                            spec_created = now, spec_updated = now\<rparr>
                   in (Inr \<lparr>change_spec = s, change_created = True, change_updated = False,
                            change_added = [], change_removed = []\<rparr>,
                       AList.update name s t)))"

definition delete_managed ::
  "string \<Rightarrow> bool \<Rightarrow> partition_table \<Rightarrow> (partition_error + unit) \<times> partition_table" where
  "delete_managed name db_ok t =
     (if \<not> valid_partition_identifier name then (Inl InvalidName, t)
      else case load_partition name t of
          Inl e \<Rightarrow> (Inl e, t)
        | Inr None \<Rightarrow> (Inr (), t)
        | Inr (Some existing) \<Rightarrow>
            if \<not> spec_managed existing then (Inl ReadOnly, t)
            else if \<not> db_ok then (Inl DatabaseError, t)
            else (Inr (), AList.delete name t))"

text \<open>\<open>ORDER BY name\<close>, for one of the two sources.\<close>

definition list_partitions :: "bool \<Rightarrow> partition_table \<Rightarrow> (string \<times> partition_spec) list" where
  "list_partitions managed t =
     sort_key fst (filter (\<lambda>e. spec_managed (snd e) = managed) t)"

datatype partition_op =
  Upsert string "string list" int bool
| ImportSystem string "string list" int bool
| DeleteManaged string bool

fun partition_table_act :: "partition_op \<Rightarrow> partition_table \<Rightarrow> partition_table" where
  "partition_table_act (Upsert name ns now db_ok) t = snd (upsert name ns True now db_ok t)"
| "partition_table_act (ImportSystem name ns now db_ok) t = snd (upsert name ns False now db_ok t)"
| "partition_table_act (DeleteManaged name db_ok) t = snd (delete_managed name db_ok t)"

fun run_table :: "partition_op list \<Rightarrow> partition_table \<Rightarrow> partition_table" where
  "run_table [] t = t"
| "run_table (e # es) t = run_table es (partition_table_act e t)"

section \<open>Lists of nodes\<close>

definition node_list_ok :: "string list \<Rightarrow> bool" where
  "node_list_ok ns \<longleftrightarrow>
     sorted ns \<and> distinct ns \<and> (\<forall>n \<in> set ns. valid_partition_identifier n)"

lemma valid_trim: "valid_partition_identifier n \<Longrightarrow> trim_space n = n"
  by (auto simp: valid_partition_identifier_def)

lemma valid_facts:
  "valid_partition_identifier n \<Longrightarrow> n \<noteq> [] \<and> CHR '' '' \<notin> set n \<and> length n \<le> 64"
  by (auto simp: valid_partition_identifier_def forbidden_chars_def list_all_iff)

lemma check_nodes_ok:
  "check_nodes seen ns = Inr xs \<Longrightarrow>
     xs = map trim_space ns \<and> distinct xs \<and> set xs \<inter> set seen = {}
   \<and> (\<forall>n \<in> set xs. valid_partition_identifier n)"
proof (induction seen ns arbitrary: xs rule: check_nodes.induct)
  case (2 seen n ns)
  let ?n = "trim_space n"
  obtain rest where step: "valid_partition_identifier ?n" "?n \<notin> set seen"
    "check_nodes (?n # seen) ns = Inr rest" "xs = ?n # rest"
    using "2.prems" by (auto simp: Let_def split: if_splits sum.splits)
  have "rest = map trim_space ns \<and> distinct rest
      \<and> set rest \<inter> set (?n # seen) = {} \<and> (\<forall>n \<in> set rest. valid_partition_identifier n)"
    using "2.IH" [OF refl _ _ step(3)] step(1,2) by blast
  then have rest: "map trim_space ns = rest" "distinct rest" "set rest \<inter> set (?n # seen) = {}"
      "\<forall>n \<in> set rest. valid_partition_identifier n"
    by blast+
  show ?case
    using rest(2-4) step(1,2) unfolding list.map(2) rest(1) step(4) by auto
qed simp

lemma check_nodes_valid:
  "\<forall>n \<in> set ns. valid_partition_identifier n \<Longrightarrow> distinct ns \<Longrightarrow> set ns \<inter> set seen = {} \<Longrightarrow>
     check_nodes seen ns = Inr ns"
  by (induction seen ns rule: check_nodes.induct) (auto simp: valid_trim Let_def)

lemma normalize_ok:
  "normalize_partition_nodes ns = Inr xs \<Longrightarrow>
     node_list_ok xs \<and> set xs = trim_space ` set ns \<and> length xs = length ns"
  using check_nodes_ok [of "[]" ns]
  by (auto simp: normalize_partition_nodes_def node_list_ok_def split: sum.splits)

lemma normalize_id: "node_list_ok ns \<Longrightarrow> normalize_partition_nodes ns = Inr ns"
  by (simp add: normalize_partition_nodes_def node_list_ok_def check_nodes_valid sorted_sort_id)

section \<open>The table\<close>

definition spec_ok :: "string \<Rightarrow> partition_spec \<Rightarrow> bool" where
  "spec_ok name s \<longleftrightarrow>
     valid_partition_identifier name \<and> spec_nodes s \<noteq> [] \<and> node_list_ok (spec_nodes s)"

definition table_ok :: "partition_table \<Rightarrow> bool" where
  "table_ok t \<longleftrightarrow> distinct (map fst t) \<and> (\<forall>(name, s) \<in> set t. spec_ok name s)"

lemma table_ok_lookup: "table_ok t \<Longrightarrow> map_of t name = Some s \<Longrightarrow> spec_ok name s"
  using map_of_SomeD by (force simp: table_ok_def)

lemma load_table: "table_ok t \<Longrightarrow> load_partition name t = Inr (map_of t name)"
  using table_ok_lookup [of t name]
  by (auto simp: load_partition_def spec_ok_def normalize_id split: option.splits)

lemma table_ok_update: "table_ok t \<Longrightarrow> spec_ok name s \<Longrightarrow> table_ok (AList.update name s t)"
  using set_update_subset [of name s t] by (auto simp: table_ok_def distinct_update)

lemma table_ok_delete: "table_ok t \<Longrightarrow> table_ok (AList.delete name t)"
  by (auto simp: table_ok_def delete_filter distinct_map_filter)


lemma upsert_cases:
  assumes "table_ok t"
  obtains (kept) e where "upsert name ns managed now db_ok t = (Inl e, t)"
  | (unchanged) old xs where "map_of t name = Some old" "spec_managed old = managed"
      "normalize_partition_nodes ns = Inr xs" "set xs = set (spec_nodes old)"
      "upsert name ns managed now db_ok t
         = (Inr \<lparr>change_spec = old, change_created = False, change_updated = False,
                 change_added = [], change_removed = []\<rparr>, t)"
  | (updated) old xs where "valid_partition_identifier name" "ns \<noteq> []" "map_of t name = Some old"
      "spec_managed old = managed"
      "normalize_partition_nodes ns = Inr xs" "set xs \<noteq> set (spec_nodes old)"
      "upsert name ns managed now db_ok t =
         (Inr \<lparr>change_spec = \<lparr>spec_nodes = xs, spec_managed = managed,
                 spec_created = spec_created old, spec_updated = now\<rparr>,
               change_created = False, change_updated = True,
               change_added = fst (diff_partition_nodes (spec_nodes old) xs),
               change_removed = snd (diff_partition_nodes (spec_nodes old) xs)\<rparr>,
          AList.update name \<lparr>spec_nodes = xs, spec_managed = managed,
            spec_created = spec_created old, spec_updated = now\<rparr> t)"
  | (created) xs where "valid_partition_identifier name" "ns \<noteq> []" "map_of t name = None"
      "normalize_partition_nodes ns = Inr xs"
      "upsert name ns managed now db_ok t =
         (Inr \<lparr>change_spec = \<lparr>spec_nodes = xs, spec_managed = managed,
                 spec_created = now, spec_updated = now\<rparr>,
               change_created = True, change_updated = False,
               change_added = [], change_removed = []\<rparr>,
          AList.update name \<lparr>spec_nodes = xs, spec_managed = managed,
            spec_created = now, spec_updated = now\<rparr> t)"
proof (cases "valid_partition_identifier name \<and> ns \<noteq> []")
  case False
  then have "upsert name ns managed now db_ok t
      = (Inl (if valid_partition_identifier name then NoNodes else InvalidName), t)"
    by (simp add: upsert_def)
  then show ?thesis by (rule kept)
next
  case True
  show ?thesis
  proof (cases "normalize_partition_nodes ns")
    case (Inl e)
    then show ?thesis using True kept by (simp add: upsert_def)
  next
    case (Inr xs)
    show ?thesis
    proof (cases "map_of t name")
      case None
      then show ?thesis
        using True Inr kept created load_table [OF assms, of name]
        by (cases db_ok) (simp_all add: upsert_def Let_def)
    next
      case (Some old)
      let ?d = "diff_partition_nodes (spec_nodes old) xs"
      have up: "upsert name ns managed now db_ok t = save_found name xs managed now db_ok old t"
        using True Inr Some load_table [OF assms, of name] by (simp add: upsert_def)
      show ?thesis
      proof (cases "spec_managed old \<noteq> managed \<or> \<not> db_ok")
        case True
        then have "upsert name ns managed now db_ok t
            = (Inl (if spec_managed old = managed then DatabaseError
                    else if managed then ReadOnly else AlreadyManaged), t)"
          unfolding up by (cases managed) (auto simp: save_found_def split_def)
        then show ?thesis by (rule kept)
      next
        case ok: False
        show ?thesis
        proof (cases "fst ?d = [] \<and> snd ?d = []")
          case same: True
          then have "set xs = set (spec_nodes old)"
            by (auto simp: diff_partition_nodes_def filter_empty_conv)
          then show ?thesis
            using ok same up Inr Some unchanged by (simp add: save_found_def split_def)
        next
          case differ: False
          then have "set xs \<noteq> set (spec_nodes old)"
            by (auto simp: diff_partition_nodes_def filter_empty_conv)
          then show ?thesis
            using differ True ok up Inr Some updated by (simp add: save_found_def split_def Let_def)
        qed
      qed
    qed
  qed
qed

lemma normalize_spec_ok:
  assumes "valid_partition_identifier name" and "ns \<noteq> []"
    and "normalize_partition_nodes ns = Inr xs" and "spec_nodes s = xs"
  shows "spec_ok name s"
  using normalize_ok [OF assms(3)] assms by (auto simp: spec_ok_def)

lemma table_ok_upsert:
  assumes "table_ok t"
  shows "table_ok (snd (upsert name ns managed now db_ok t))"
  using assms
proof (cases rule: upsert_cases [of t name ns managed now db_ok])
  case (updated old xs)
  then show ?thesis using assms normalize_spec_ok by (simp add: table_ok_update)
next
  case (created xs)
  then show ?thesis using assms normalize_spec_ok by (simp add: table_ok_update)
qed (use assms in simp_all)

lemma delete_managed_table:
  assumes "table_ok t"
  shows "snd (delete_managed name db_ok t) = t
    \<or> snd (delete_managed name db_ok t) = AList.delete name t
      \<and> (\<exists>s. map_of t name = Some s \<and> spec_managed s)"
  using load_table [OF assms, of name]
  by (auto simp: delete_managed_def split: option.splits)

lemma table_ok_act: "table_ok t \<Longrightarrow> table_ok (partition_table_act e t)"
  using delete_managed_table table_ok_delete
  by (cases e) (auto simp: table_ok_upsert, metis)

lemma table_ok_run: "table_ok t \<Longrightarrow> table_ok (run_table es t)"
  by (induction es arbitrary: t) (auto intro: table_ok_act)

lemma table_ok_empty: "table_ok []"
  by (simp add: table_ok_def)

section \<open>The page\<close>

text \<open>
  The handlers \<open>savePartition\<close> and \<open>deletePartition\<close> and the two messages of the page. A
  redirect is the list of its query parameters, as the page reads them back; the messages in
  Chinese are the UTF-8 bytes of the source's literals. \<open>live\<close> are the names of Slurm's nodes,
  \<open>None\<close> when Slurm does not answer; \<open>sync\<close> is the answer of Slurm's partition administration,
  \<open>None\<close> when there is none. Audit records are left out.
\<close>

datatype page_response = HttpError nat | Redirect "(string \<times> string) list"

definition zh_partition :: string where
  "zh_partition = [CHR 0xE5, CHR 0x88, CHR 0x86, CHR 0xE5, CHR 0x8C, CHR 0xBA] @ '' ''"

definition partition_error_for :: "string \<Rightarrow> string \<Rightarrow> string \<Rightarrow> string" where
  "partition_error_for lang code name =
     (if code = ''readonly'' then
        if lang = ''en'' then ''Partition '' @ name @ '' is read-only.''
        else zh_partition @ name @ '' '' @ [CHR 0xE4, CHR 0xB8, CHR 0xBA, CHR 0xE5, CHR 0x8F,
     CHR 0xAA, CHR 0xE8, CHR 0xAF, CHR 0xBB, CHR 0xE3, CHR 0x80, CHR 0x82]
      else if code = ''save_failed'' then
        if lang = ''en'' then ''Partition '' @ name @ '' could not be saved.''
        else zh_partition @ name @ '' '' @ [CHR 0xE4, CHR 0xBF, CHR 0x9D, CHR 0xE5, CHR 0xAD,
     CHR 0x98, CHR 0xE5, CHR 0xA4, CHR 0xB1, CHR 0xE8, CHR 0xB4, CHR 0xA5, CHR 0xE3, CHR 0x80,
     CHR 0x82]
      else if code = ''sync_failed'' then
        if lang = ''en'' then ''Partition '' @ name @ '' could not be synced to Slurm.''
        else zh_partition @ name @ '' '' @ [CHR 0xE6, CHR 0x97, CHR 0xA0, CHR 0xE6, CHR 0xB3,
     CHR 0x95, CHR 0xE5, CHR 0x90, CHR 0x8C, CHR 0xE6, CHR 0xAD, CHR 0xA5, CHR 0xE5, CHR 0x88,
     CHR 0xB0] @ '' Slurm'' @ [CHR 0xE3, CHR 0x80, CHR 0x82]
      else if code = ''delete_failed'' then
        if lang = ''en'' then ''Partition '' @ name @ '' could not be deleted.''
        else zh_partition @ name @ '' '' @ [CHR 0xE5, CHR 0x88, CHR 0xA0, CHR 0xE9, CHR 0x99,
     CHR 0xA4, CHR 0xE5, CHR 0xA4, CHR 0xB1, CHR 0xE8, CHR 0xB4, CHR 0xA5, CHR 0xE3, CHR 0x80,
     CHR 0x82]
      else [])"

definition partition_success_for :: "string \<Rightarrow> string \<Rightarrow> string \<Rightarrow> string" where
  "partition_success_for lang code name =
     (if code = ''deleted'' then
        if lang = ''en'' then ''Partition deleted.''
        else [CHR 0xE5, CHR 0x88, CHR 0x86, CHR 0xE5, CHR 0x8C, CHR 0xBA, CHR 0xE5, CHR 0xB7,
     CHR 0xB2, CHR 0xE5, CHR 0x88, CHR 0xA0, CHR 0xE9, CHR 0x99, CHR 0xA4, CHR 0xE3, CHR 0x80,
     CHR 0x82]
      else if code = [] \<or> name = [] then []
      else if code = ''created'' then
        if lang = ''en'' then ''Partition '' @ name @ '' created.''
        else zh_partition @ name @ '' '' @ [CHR 0xE5, CHR 0xB7, CHR 0xB2, CHR 0xE5, CHR 0x88,
     CHR 0x9B, CHR 0xE5, CHR 0xBB, CHR 0xBA, CHR 0xE3, CHR 0x80, CHR 0x82]
      else if code = ''updated'' then
        if lang = ''en'' then ''Partition '' @ name @ '' patched.''
        else zh_partition @ name @ '' '' @ [CHR 0xE5, CHR 0xB7, CHR 0xB2, CHR 0xE6, CHR 0x9B,
     CHR 0xB4, CHR 0xE6, CHR 0x96, CHR 0xB0, CHR 0xE3, CHR 0x80, CHR 0x82]
      else if code = ''unchanged'' then
        if lang = ''en'' then ''Partition '' @ name @ '' is unchanged.''
        else zh_partition @ name @ '' '' @ [CHR 0xE6, CHR 0x97, CHR 0xA0, CHR 0xE5, CHR 0x8F,
     CHR 0x98, CHR 0xE5, CHR 0x8C, CHR 0x96, CHR 0xE3, CHR 0x80, CHR 0x82]
      else [])"

definition error_redirect :: "string \<Rightarrow> string \<Rightarrow> string \<Rightarrow> page_response" where
  "error_redirect lang code name =
     Redirect [(''error'', partition_error_for lang code name), (''name'', name)]"

definition save_partition ::
  "string \<Rightarrow> string \<Rightarrow> string list \<Rightarrow> string list option \<Rightarrow> bool option \<Rightarrow> int \<Rightarrow> bool
     \<Rightarrow> partition_table \<Rightarrow> page_response \<times> partition_table" where
  "save_partition lang form_name selected live sync now db_ok t =
     (let name = trim_space form_name
      in case live of
          None \<Rightarrow> (HttpError 503, t)
        | Some live \<Rightarrow>
            if name = [] \<or> selected = [] \<or> \<not> list_all (\<lambda>n. n \<in> set live) selected
            then (HttpError 400, t)
            else case upsert name selected True now db_ok t of
                (Inl e, t') \<Rightarrow>
                  (error_redirect lang (if e = ReadOnly then ''readonly'' else ''save_failed'') name, t')
              | (Inr change, t') \<Rightarrow>
                  (if sync = Some False then error_redirect lang ''sync_failed'' name
                   else Redirect [(''saved'', if change_created change then ''created''
                                              else if \<not> change_updated change then ''unchanged''
                                              else ''updated''), (''name'', name)], t'))"

definition delete_partition ::
  "string \<Rightarrow> string \<Rightarrow> bool option \<Rightarrow> int \<Rightarrow> bool \<Rightarrow> bool
     \<Rightarrow> partition_table \<Rightarrow> page_response \<times> partition_table" where
  \<comment> \<open>\<open>db_ok\<close> for the deletion, \<open>restore_ok\<close> for the second \<open>Upsert\<close>\<close>
  "delete_partition lang form_name sync now db_ok restore_ok t =
     (let name = trim_space form_name
      in if name = [] then (HttpError 400, t)
         else case get_partition name t of
             Inl e \<Rightarrow> (HttpError 400, t)
           | Inr None \<Rightarrow> (Redirect [(''saved'', ''deleted'')], t)
           | Inr (Some spec) \<Rightarrow>
               if \<not> spec_managed spec then (error_redirect lang ''readonly'' name, t)
               else case delete_managed name db_ok t of
                   (Inl e, t') \<Rightarrow> (error_redirect lang ''delete_failed'' name, t')
                 | (Inr _, t') \<Rightarrow>
                     if sync = Some False
                     then (error_redirect lang ''sync_failed'' name,
                           snd (upsert name (spec_nodes spec) True now restore_ok t'))
                     else (Redirect [(''saved'', ''deleted'')], t'))"

definition query_param :: "string \<Rightarrow> (string \<times> string) list \<Rightarrow> string" where
  "query_param key q = (case map_of q key of None \<Rightarrow> [] | Some v \<Rightarrow> v)"

text \<open>The two messages of \<open>slurmPartitions\<close>: success and error.\<close>

definition page_messages :: "string \<Rightarrow> (string \<times> string) list \<Rightarrow> string \<times> string" where
  "page_messages lang q =
     (let name = trim_space (query_param ''name'' q)
      in (partition_success_for lang (query_param ''saved'' q) name,
          partition_error_for lang (query_param ''error'' q) name))"

section \<open>Lemmas on the handlers\<close>

lemma spec_ok_upsert_result:
  assumes "table_ok t" and "upsert name ns managed now db_ok t = (Inr change, t')"
  shows "map_of t' name = Some (change_spec change)
    \<and> spec_managed (change_spec change) = managed
    \<and> set (spec_nodes (change_spec change)) = trim_space ` set ns
    \<and> (\<forall>other. other \<noteq> name \<longrightarrow> map_of t' other = map_of t other)"
  using assms(1)
proof (cases rule: upsert_cases [of t name ns managed now db_ok])
  case (kept e)
  then show ?thesis using assms(2) by simp
next
  case (unchanged old xs)
  then show ?thesis using assms(2) normalize_ok [OF unchanged(3)] by auto
next
  case (updated old xs)
  then show ?thesis
    using assms(2) normalize_ok [OF updated(5)] by (auto simp: update_conv')
next
  case (created xs)
  then show ?thesis
    using assms(2) normalize_ok [OF created(4)] by (auto simp: update_conv')
qed

lemma upsert_other_source:
  assumes "table_ok t" and "map_of t name = Some s" and "spec_managed s \<noteq> managed"
  shows "snd (upsert key ns managed now db_ok t) = t \<or> key \<noteq> name"
  using assms(1)
proof (cases rule: upsert_cases [of t key ns managed now db_ok])
  case (updated old xs)
  then show ?thesis using assms by auto
next
  case (created xs)
  then show ?thesis using assms by auto
qed simp_all

lemma upsert_lookup_other:
  assumes "table_ok t" and "key \<noteq> name"
  shows "map_of (snd (upsert key ns managed now db_ok t)) name = map_of t name"
  using assms(1)
  by (cases rule: upsert_cases [of t key ns managed now db_ok]) (use assms(2) in \<open>auto simp: update_conv'\<close>)

lemma upsert_keeps_other_source:
  assumes "table_ok t" and "map_of t name = Some s" and "spec_managed s \<noteq> managed"
  shows "map_of (snd (upsert key ns managed now db_ok t)) name = Some s"
  using upsert_other_source [OF assms, of key ns now db_ok] upsert_lookup_other [OF assms(1)] assms(2)
  by metis

lemma delete_keeps_system:
  assumes "table_ok t" and "map_of t name = Some s" and "\<not> spec_managed s"
  shows "map_of (snd (delete_managed key db_ok t)) name = Some s"
  using delete_managed_table [OF assms(1), of key db_ok] assms(2,3)
  by (auto simp: delete_conv')

lemma error_text_no_code: "partition_error_for lang (partition_error_for lang' code name') name = []"
  by (simp add: partition_error_for_def zh_partition_def)

lemma error_redirect_silent:
  "error_redirect lang code name = Redirect q \<Longrightarrow> page_messages lang' q = ([], [])"
  by (auto simp: error_redirect_def page_messages_def query_param_def Let_def error_text_no_code
      partition_success_for_def)

lemma saved_redirect: "query_param ''saved'' ((''saved'', c) # q) = c"
  by (simp add: query_param_def)

lemma save_answers:
  "(\<exists>code. fst (save_partition lang form_name selected live sync now db_ok t) = HttpError code)
 \<or> (\<exists>code name. fst (save_partition lang form_name selected live sync now db_ok t)
      = error_redirect lang code name)
 \<or> (\<exists>c q. c \<noteq> [] \<and> fst (save_partition lang form_name selected live sync now db_ok t)
      = Redirect ((''saved'', c) # q))"
  by (auto simp: save_partition_def Let_def split: option.splits sum.splits prod.splits)

lemma delete_answers:
  "(\<exists>code. fst (delete_partition lang form_name sync now db_ok restore_ok t) = HttpError code)
 \<or> (\<exists>code name. fst (delete_partition lang form_name sync now db_ok restore_ok t)
      = error_redirect lang code name)
 \<or> (\<exists>c q. c \<noteq> [] \<and> fst (delete_partition lang form_name sync now db_ok restore_ok t)
      = Redirect ((''saved'', c) # q))"
  by (auto simp: delete_partition_def Let_def split: option.splits sum.splits prod.splits)

lemma silent_answer:
  assumes "Redirect q = r"
    and "(\<exists>code. r = HttpError code) \<or> (\<exists>code name. r = error_redirect lang code name)
       \<or> (\<exists>c q. c \<noteq> [] \<and> r = Redirect ((''saved'', c) # q))"
    and "query_param ''saved'' q = []"
  shows "page_messages lang' q = ([], [])"
proof -
  consider code name where "error_redirect lang code name = Redirect q"
    | c q' where "c \<noteq> []" "q = (''saved'', c) # q'"
    using assms(1,2) by auto
  then show ?thesis
  proof cases
    case 1
    then show ?thesis by (rule error_redirect_silent)
  next
    case 2
    then show ?thesis using assms(3) by (simp add: saved_redirect)
  qed
qed

lemma delete_partition_table:
  assumes "table_ok t"
  shows "snd (delete_partition lang form_name (Some False) now db_ok True t) = t
    \<or> (\<exists>s. map_of t (trim_space form_name) = Some s \<and> spec_managed s
         \<and> snd (delete_partition lang form_name (Some False) now db_ok True t)
           = snd (upsert (trim_space form_name) (spec_nodes s) True now True
               (AList.delete (trim_space form_name) t)))"
  using load_table [OF assms, of "trim_space form_name"]
  by (auto simp: delete_partition_def get_partition_def delete_managed_def Let_def
      split: option.splits)

lemma upsert_deleted:
  assumes "table_ok t" and "map_of t name = Some s" and "spec_managed s"
  shows "map_option (\<lambda>s. (spec_nodes s, spec_managed s))
       (map_of (snd (upsert name (spec_nodes s) True now True (AList.delete name t))) key)
     = map_option (\<lambda>s. (spec_nodes s, spec_managed s)) (map_of t key)"
proof -
  have "spec_ok name s" by (rule table_ok_lookup [OF assms(1,2)])
  then have "snd (upsert name (spec_nodes s) True now True (AList.delete name t))
      = AList.update name \<lparr>spec_nodes = spec_nodes s, spec_managed = True,
          spec_created = now, spec_updated = now\<rparr> (AList.delete name t)"
    using load_table [OF table_ok_delete [OF assms(1)], of name name]
    by (simp add: upsert_def spec_ok_def normalize_id delete_conv' Let_def)
  then show ?thesis using assms(2,3) by (simp add: update_conv' delete_conv')
qed

section \<open>Properties\<close>

text \<open>
  Reading back. From the empty table, after any operations, a successful \<open>Upsert\<close> or
  \<open>ImportSystem\<close> is read back by \<open>Get\<close> as the specification it returned: the trimmed nodes,
  sorted, without repetition and each a valid name, under the requested source; no other
  partition has changed.
\<close>

theorem stored_partition_read_back:
  assumes "upsert name ns managed now db_ok (run_table es []) = (Inr change, t')"
  shows "get_partition name t' = Inr (Some (change_spec change))
    \<and> spec_managed (change_spec change) = managed
    \<and> set (spec_nodes (change_spec change)) = trim_space ` set ns
    \<and> sorted (spec_nodes (change_spec change)) \<and> distinct (spec_nodes (change_spec change))
    \<and> (\<forall>n \<in> set (spec_nodes (change_spec change)). valid_partition_identifier n)
    \<and> (\<forall>other. other \<noteq> name \<longrightarrow> map_of t' other = map_of (run_table es []) other)"
proof -
  have ok: "table_ok (run_table es [])" by (rule table_ok_run [OF table_ok_empty])
  have ok': "table_ok t'"
    using table_ok_upsert [OF ok, of name ns managed now db_ok] assms by simp
  note result = spec_ok_upsert_result [OF ok assms]
  then have "spec_ok name (change_spec change)" using table_ok_lookup [OF ok'] by blast
  then show ?thesis
    using result load_table [OF ok', of name]
    by (simp add: spec_ok_def node_list_ok_def get_partition_def)
qed

lemma stored_partition_read_back_witness:
  "get_partition ''gpu'' [(''gpu'', \<lparr>spec_nodes = [''n1'', ''n2''], spec_managed = True,
       spec_created = 5, spec_updated = 5\<rparr>)]
     = Inr (Some \<lparr>spec_nodes = [''n1'', ''n2''], spec_managed = True,
                  spec_created = 5, spec_updated = 5\<rparr>)"
proof -
  have "upsert ''gpu'' ['' n2'', ''n1''] True 5 True (run_table [] []) =
      (Inr \<lparr>change_spec = \<lparr>spec_nodes = [''n1'', ''n2''], spec_managed = True,
              spec_created = 5, spec_updated = 5\<rparr>,
            change_created = True, change_updated = False, change_added = [], change_removed = []\<rparr>,
       [(''gpu'', \<lparr>spec_nodes = [''n1'', ''n2''], spec_managed = True,
           spec_created = 5, spec_updated = 5\<rparr>)])"
    by code_simp
  then show ?thesis using stored_partition_read_back by fastforce
qed

text \<open>
  The two sources are separate. An operation of the platform leaves every partition of the
  system as it is, and an import from the system every managed one, whatever its name and
  nodes; so a partition that is there never changes its source.
\<close>

theorem partition_sources_separate:
  assumes "map_of (run_table es []) name = Some s"
  shows "(spec_managed s \<longrightarrow>
            map_of (partition_table_act (ImportSystem key ns now db_ok) (run_table es [])) name = Some s)
    \<and> (\<not> spec_managed s \<longrightarrow>
            map_of (partition_table_act (Upsert key ns now db_ok) (run_table es [])) name = Some s
          \<and> map_of (partition_table_act (DeleteManaged key db_ok) (run_table es [])) name = Some s)"
proof -
  have ok: "table_ok (run_table es [])" by (rule table_ok_run [OF table_ok_empty])
  show ?thesis
    using upsert_keeps_other_source [OF ok assms] delete_keeps_system [OF ok assms] by simp
qed

lemma partition_sources_separate_witness:
  "map_of (partition_table_act (DeleteManaged ''all'' True)
       (run_table [ImportSystem ''all'' [''n1''] 3 True] [])) ''all''
     = Some \<lparr>spec_nodes = [''n1''], spec_managed = False, spec_created = 3, spec_updated = 3\<rparr>"
proof -
  have "map_of (run_table [ImportSystem ''all'' [''n1''] 3 True] []) ''all''
      = Some \<lparr>spec_nodes = [''n1''], spec_managed = False, spec_created = 3, spec_updated = 3\<rparr>"
    by code_simp
  from partition_sources_separate [OF this] show ?thesis by simp
qed

text \<open>
  The patch is exact. When a save changes a partition, the reported nodes are those that
  the old list lacks and those it loses: the new nodes are the old ones without the removed and
  with the added ones, and at least one node differs. A save that changes no node writes
  nothing.
\<close>

theorem upsert_patch_exact:
  assumes "map_of (run_table es []) name = Some old"
    and "upsert name ns managed now db_ok (run_table es []) = (Inr change, t')"
  shows "set (spec_nodes (change_spec change))
      = set (spec_nodes old) - set (change_removed change) \<union> set (change_added change)
    \<and> set (change_removed change) \<subseteq> set (spec_nodes old)
    \<and> set (change_added change) \<inter> set (spec_nodes old) = {}
    \<and> (change_updated change \<longleftrightarrow> set (spec_nodes (change_spec change)) \<noteq> set (spec_nodes old))
    \<and> (\<not> change_updated change \<longrightarrow> t' = run_table es [] \<and> change_spec change = old)
    \<and> \<not> change_created change"
proof -
  have "table_ok (run_table es [])" by (rule table_ok_run [OF table_ok_empty])
  then show ?thesis
  proof (cases rule: upsert_cases [of _ name ns managed now db_ok])
    case (updated old' xs)
    then have "old' = old" using assms(1) by simp
    then show ?thesis using updated assms(2) by (auto simp: diff_partition_nodes_def)
  qed (use assms in auto)
qed

lemma upsert_patch_exact_witness:
  "set [''n2''] = set [''n1''] - set [''n1''] \<union> set [''n2'']"
proof -
  have valid: "valid_partition_identifier ''gpu''" "valid_partition_identifier ''n1''"
      "valid_partition_identifier ''n2''"
    by code_simp+
  then have nodes: "node_list_ok [''n1'']" "node_list_ok [''n2'']"
    by (simp_all add: node_list_ok_def)
  note eval = upsert_def Let_def load_partition_def valid normalize_id nodes save_found_def
    diff_partition_nodes_def
  have old: "map_of (run_table [Upsert ''gpu'' [''n1''] 5 True] []) ''gpu''
      = Some \<lparr>spec_nodes = [''n1''], spec_managed = True, spec_created = 5, spec_updated = 5\<rparr>"
    by (simp add: eval)
  have new: "upsert ''gpu'' [''n2''] True 7 True (run_table [Upsert ''gpu'' [''n1''] 5 True] [])
      = (Inr \<lparr>change_spec = \<lparr>spec_nodes = [''n2''], spec_managed = True,
              spec_created = 5, spec_updated = 7\<rparr>,
            change_created = False, change_updated = True,
            change_added = [''n2''], change_removed = [''n1'']\<rparr>,
         [(''gpu'', \<lparr>spec_nodes = [''n2''], spec_managed = True,
             spec_created = 5, spec_updated = 7\<rparr>)])"
    by (simp add: eval)
  from upsert_patch_exact [OF old new] show ?thesis by simp
qed

text \<open>
  The errors of the partitions page are lost. The handlers put the text of an error into
  the parameter that the page reads as a code, so every redirect that does not report success
  leads to a page with neither message, in both languages: a read-only partition, a failed save
  and a failed synchronisation look like a page just loaded.
\<close>

theorem partition_errors_not_shown:
  assumes "Redirect q \<in> {fst (save_partition lang form_name selected live sync now db_ok t),
                         fst (delete_partition lang form_name sync now db_ok restore_ok t)}"
    and "query_param ''saved'' q = []"
  shows "page_messages lang' q = ([], [])"
proof -
  consider "Redirect q = fst (save_partition lang form_name selected live sync now db_ok t)"
    | "Redirect q = fst (delete_partition lang form_name sync now db_ok restore_ok t)"
    using assms(1) by blast
  then show ?thesis
  proof cases
    case 1
    then show ?thesis by (rule silent_answer [OF _ save_answers assms(2)])
  next
    case 2
    then show ?thesis by (rule silent_answer [OF _ delete_answers assms(2)])
  qed
qed

lemma partition_errors_not_shown_witness:
  "page_messages ''en'' [(''error'', ''Partition gpu could not be saved.''), (''name'', ''gpu'')]
     = ([], [])"
proof -
  have "fst (save_partition ''en'' ''gpu'' [''n1''] (Some [''n1'']) None 5 False [])
      = Redirect [(''error'', ''Partition gpu could not be saved.''), (''name'', ''gpu'')]"
    by code_simp
  then show ?thesis
    by (intro partition_errors_not_shown [of _ "''en''" "''gpu''" "[''n1'']" "Some [''n1'']" None 5
          False "[]" True]) (simp_all add: query_param_def)
qed

text \<open>
  A deletion that Slurm refuses is undone. If the partition was deleted but the
  administration of Slurm fails, the second \<open>Upsert\<close> puts it back: every name has the nodes and
  the source it had, and only the times of the partition are new.
\<close>

theorem refused_deletion_undone:
  assumes "snd (delete_partition lang form_name (Some False) now db_ok True (run_table es [])) = t'"
  shows "map_option (\<lambda>s. (spec_nodes s, spec_managed s)) (map_of t' key)
       = map_option (\<lambda>s. (spec_nodes s, spec_managed s)) (map_of (run_table es []) key)"
proof -
  let ?name = "trim_space form_name" and ?t = "run_table es []"
  have ok: "table_ok ?t" by (rule table_ok_run [OF table_ok_empty])
  from delete_partition_table [OF ok, of lang form_name now db_ok] assms
  consider "t' = ?t"
    | s where "map_of ?t ?name = Some s" "spec_managed s"
        "t' = snd (upsert ?name (spec_nodes s) True now True (AList.delete ?name ?t))"
    by blast
  then show ?thesis
    by cases (simp_all add: upsert_deleted [OF ok])
qed


lemma refused_deletion_undone_witness:
  "map_option (\<lambda>s. (spec_nodes s, spec_managed s))
     (map_of (snd (delete_partition ''en'' ''gpu'' (Some False) 9 True True
        (run_table [Upsert ''gpu'' [''n1''] 5 True] []))) ''gpu'')
   = Some ([''n1''], True)"
proof -
  have "map_of (run_table [Upsert ''gpu'' [''n1''] 5 True] []) ''gpu''
      = Some \<lparr>spec_nodes = [''n1''], spec_managed = True, spec_created = 5, spec_updated = 5\<rparr>"
    by code_simp
  then show ?thesis
    by (simp add: refused_deletion_undone [OF refl] del: run_table.simps)
qed

end
