(* ===== verification/PartitionContract.thy ===== *)
theory PartitionContract
  imports PartitionStore
begin

text \<open>
  What the store of partitions promises, as a map from names to a set of nodes and a source, and
  the proof that the tables of \<open>PartitionStore\<close> implement it for every sequence of operations:
  the order of nodes, the times, the order of rows and the way a save finds out what changed
  do not show.
\<close>

section \<open>The contract\<close>

type_synonym partitions = "string \<rightharpoonup> string set \<times> bool"

definition acceptable :: "string list \<Rightarrow> bool" where
  "acceptable ns \<longleftrightarrow>
     ns \<noteq> [] \<and> distinct (map trim_space ns)
   \<and> (\<forall>n \<in> set ns. valid_partition_identifier (trim_space n))"

definition save_contract :: "bool \<Rightarrow> string \<Rightarrow> string list \<Rightarrow> partitions \<Rightarrow> partitions" where
  "save_contract managed name ns m =
     (if valid_partition_identifier name \<and> acceptable ns
         \<and> (case m name of None \<Rightarrow> True | Some (_, source) \<Rightarrow> source = managed)
      then m(name \<mapsto> (trim_space ` set ns, managed)) else m)"

definition delete_contract :: "string \<Rightarrow> partitions \<Rightarrow> partitions" where
  "delete_contract name m =
     (case m name of
        Some (_, True) \<Rightarrow> if valid_partition_identifier name then m(name := None) else m
      | _ \<Rightarrow> m)"

fun contract_act :: "partition_op \<Rightarrow> partitions \<Rightarrow> partitions" where
  "contract_act (Upsert name ns now db_ok) m = (if db_ok then save_contract True name ns m else m)"
| "contract_act (ImportSystem name ns now db_ok) m =
     (if db_ok then save_contract False name ns m else m)"
| "contract_act (DeleteManaged name db_ok) m = (if db_ok then delete_contract name m else m)"

fun contract_run :: "partition_op list \<Rightarrow> partitions \<Rightarrow> partitions" where
  "contract_run [] m = m"
| "contract_run (e # es) m = contract_run es (contract_act e m)"

definition partitions_of :: "partition_table \<Rightarrow> partitions" where
  "partitions_of t = map_option (\<lambda>s. (set (spec_nodes s), spec_managed s)) \<circ> map_of t"

section \<open>The operations implement it\<close>

lemma check_nodes_accepts:
  "distinct (map trim_space ns) \<Longrightarrow> trim_space ` set ns \<inter> set seen = {} \<Longrightarrow>
   \<forall>n \<in> set ns. valid_partition_identifier (trim_space n) \<Longrightarrow>
     check_nodes seen ns = Inr (map trim_space ns)"
  by (induction seen ns rule: check_nodes.induct) (auto simp: Let_def)

lemma normalize_iff:
  "ns \<noteq> [] \<Longrightarrow> acceptable ns \<longleftrightarrow> (\<exists>xs. normalize_partition_nodes ns = Inr xs)"
  using check_nodes_ok [of "[]" ns] check_nodes_accepts [of ns "[]"]
  by (cases "check_nodes [] ns") (auto simp: acceptable_def normalize_partition_nodes_def)

lemma partitions_of_update:
  "partitions_of (AList.update name s t) = (partitions_of t)(name \<mapsto> (set (spec_nodes s), spec_managed s))"
  by (auto simp: partitions_of_def update_conv')

lemma partitions_of_delete: "partitions_of (AList.delete name t) = (partitions_of t)(name := None)"
  by (auto simp: partitions_of_def delete_conv')

lemma upsert_failed:
  "\<not> db_ok \<Longrightarrow> snd (upsert name ns managed now db_ok t) = t"
  by (auto simp: upsert_def save_found_def split: sum.splits option.splits prod.splits)

lemma upsert_contract:
  assumes t: "table_ok t"
  shows "partitions_of (snd (upsert name ns managed now True t))
    = save_contract managed name ns (partitions_of t)"
proof (cases "valid_partition_identifier name \<and> acceptable ns")
  case False
  then have "snd (upsert name ns managed now True t) = t"
    using normalize_iff [of ns] by (auto simp: upsert_def acceptable_def split: sum.splits)
  then show ?thesis using False by (auto simp: save_contract_def)
next
  case valid: True
  then obtain xs where xs: "normalize_partition_nodes ns = Inr xs" "ns \<noteq> []"
    using normalize_iff [of ns] by (auto simp: acceptable_def)
  note nodes = normalize_ok [OF xs(1)]
  show ?thesis
  proof (cases "map_of t name")
    case None
    then show ?thesis
      using valid xs nodes load_table [OF t, of name]
      by (simp add: upsert_def save_contract_def partitions_of_update Let_def)
        (simp add: partitions_of_def)
  next
    case (Some old)
    have up: "upsert name ns managed now True t = save_found name xs managed now True old t"
      using valid xs Some load_table [OF t, of name] by (simp add: upsert_def)
    have old: "partitions_of t name = Some (set (spec_nodes old), spec_managed old)"
      using Some by (simp add: partitions_of_def)
    consider (other) "spec_managed old \<noteq> managed"
      | (same) "spec_managed old = managed" "set (spec_nodes old) = set xs"
      | (differ) "spec_managed old = managed" "set (spec_nodes old) \<noteq> set xs" by blast
    then show ?thesis
    proof cases
      case other
      then show ?thesis using old unfolding up by (simp add: save_found_def save_contract_def)
    next
      case same
      then have "(partitions_of t)(name \<mapsto> (trim_space ` set ns, managed)) = partitions_of t"
        using old nodes by (simp add: fun_upd_idem)
      then show ?thesis
        using same old valid unfolding up
        by (simp add: save_found_def save_contract_def diff_partition_nodes_def filter_empty_conv)
    next
      case differ
      then have "\<not> (fst (diff_partition_nodes (spec_nodes old) xs) = []
          \<and> snd (diff_partition_nodes (spec_nodes old) xs) = [])"
        by (auto simp: diff_partition_nodes_def filter_empty_conv)
      then show ?thesis
        using differ old valid nodes unfolding up
        by (auto simp: save_found_def save_contract_def split_def Let_def partitions_of_update)
    qed
  qed
qed

lemma delete_refines:
  assumes "table_ok t"
  shows "partitions_of (snd (delete_managed name db_ok t))
    = (if db_ok then delete_contract name (partitions_of t) else partitions_of t)"
  using load_table [OF assms, of name]
  by (auto simp: delete_managed_def delete_contract_def partitions_of_delete
      split: option.splits bool.splits) (auto simp: partitions_of_def)

lemma act_refines:
  assumes "table_ok t"
  shows "partitions_of (partition_table_act e t) = contract_act e (partitions_of t)"
  using upsert_contract [OF assms] upsert_failed delete_refines [OF assms] by (cases e) auto

lemma run_refines:
  "table_ok t \<Longrightarrow> partitions_of (run_table es t) = contract_run es (partitions_of t)"
  by (induction es arbitrary: t) (simp_all add: act_refines table_ok_act)

text \<open>
  C13. The store keeps its contract. After every sequence of saves, imports and deletions, with
  transactions that commit or fail, the tables hold exactly what the contract says: a save
  with acceptable nodes replaces the set of nodes of its partition unless the other source
  owns it, a deletion removes a partition of the platform, and everything else does nothing.
\<close>

theorem partition_store_refines:
  "partitions_of (run_table es []) = contract_run es Map.empty"
  using run_refines [OF table_ok_empty] by (simp add: partitions_of_def)

end
