(* ===== verification/JobReader.thy ===== *)
theory JobReader
  imports Prelude
begin

text \<open>
  The server's side of the job output (\<open>internal/web/job_output.go\<close>): the job numbers it accepts,
  and the slots that bound how many output files are read at once. A request is a handler
  and, once the job is found, a second goroutine that reads the file; the slot is taken by
  the handler, handed to the reader, and given back by whoever owns it. The two run
  interleaved with those of other requests, and the handler may give up first.
\<close>

section \<open>parsePositiveJobID\<close>

definition parse_positive_job_id :: "string \<Rightarrow> int option" where
  "parse_positive_job_id s =
     (if s = [] \<or> length s > 19 \<or> hd s = CHR ''0'' then None
      else if \<not> list_all is_digit s then None
      else case parse_int64 s of
          None \<Rightarrow> None
        | Some i \<Rightarrow> if i \<le> 0 then None else Some i)"

section \<open>A request\<close>

datatype read_result = ReadOk string bool | ReadCancelled | ReadTimeout | ReadFailed

text \<open>
  The goroutine: not started, reading, its result sent but its slot not yet given back, over.
\<close>

datatype reader = NotStarted | Running | Sent read_result | Released read_result

record output_request =
  answer :: "nat option"        \<comment> \<open>the status the handler has answered with\<close>
  owns_slot :: bool             \<comment> \<open>\<open>slotOwnedByHandler\<close>\<close>
  reader :: reader

datatype lookup_result = LookupError | NoSuchJob | NotAllowed | JobFound

definition audited :: "bool \<Rightarrow> nat \<Rightarrow> nat" where
  \<comment> \<open>every answer is preceded by an audit record, and is 503 when that fails\<close>
  "audited audit_ok code = (if audit_ok then code else 503)"

definition lookup_status :: "lookup_result \<Rightarrow> nat" where
  "lookup_status l = (case l of LookupError \<Rightarrow> 503 | _ \<Rightarrow> 404)"

definition read_status :: "read_result \<Rightarrow> nat" where
  "read_status x =
     (case x of ReadOk _ _ \<Rightarrow> 200 | ReadCancelled \<Rightarrow> 408 | ReadTimeout \<Rightarrow> 504 | ReadFailed \<Rightarrow> 404)"

definition max_output_reads :: nat where
  "max_output_reads = 4"

record readers =
  slots :: nat
  requests :: "(nat \<times> output_request) list"

definition set_request :: "nat \<Rightarrow> output_request \<Rightarrow> readers \<Rightarrow> readers" where
  "set_request r q s = s\<lparr>requests := AList.update r q (requests s)\<rparr>"

section \<open>Steps\<close>

inductive reader_step :: "readers \<Rightarrow> readers \<Rightarrow> bool" where
  refuse:
    "map_of (requests s) r = None \<Longrightarrow> code \<in> {400, 503} \<Longrightarrow>
     reader_step s (set_request r \<lparr>answer = Some code, owns_slot = False, reader = NotStarted\<rparr> s)"
| full:
    "map_of (requests s) r = None \<Longrightarrow> slots s = max_output_reads \<Longrightarrow>
     reader_step s
       (set_request r \<lparr>answer = Some (audited ok 429), owns_slot = False, reader = NotStarted\<rparr> s)"
| admit:
    "map_of (requests s) r = None \<Longrightarrow> slots s < max_output_reads \<Longrightarrow>
     reader_step s (set_request r \<lparr>answer = None, owns_slot = True, reader = NotStarted\<rparr>
       (s\<lparr>slots := slots s + 1\<rparr>))"
| turn_away:
    "map_of (requests s) r = Some q \<Longrightarrow> owns_slot q \<Longrightarrow> l \<noteq> JobFound \<Longrightarrow>
     reader_step s
       (set_request r (q\<lparr>answer := Some (audited ok (lookup_status l)), owns_slot := False\<rparr>)
         (s\<lparr>slots := slots s - 1\<rparr>))"
| start:
    "map_of (requests s) r = Some q \<Longrightarrow> owns_slot q \<Longrightarrow>
     reader_step s (set_request r (q\<lparr>owns_slot := False, reader := Running\<rparr>) s)"
| send:
    "map_of (requests s) r = Some q \<Longrightarrow> reader q = Running \<Longrightarrow>
     reader_step s (set_request r (q\<lparr>reader := Sent x\<rparr>) s)"
| release:
    "map_of (requests s) r = Some q \<Longrightarrow> reader q = Sent x \<Longrightarrow>
     reader_step s (set_request r (q\<lparr>reader := Released x\<rparr>) (s\<lparr>slots := slots s - 1\<rparr>))"
| deliver:
    "map_of (requests s) r = Some q \<Longrightarrow> answer q = None \<Longrightarrow> reader q \<in> {Sent x, Released x} \<Longrightarrow>
     reader_step s (set_request r (q\<lparr>answer := Some (audited ok (read_status x))\<rparr>) s)"
| give_up:
    "map_of (requests s) r = Some q \<Longrightarrow> answer q = None \<Longrightarrow> reader q \<noteq> NotStarted \<Longrightarrow>
     code \<in> {408, 504} \<Longrightarrow>
     reader_step s (set_request r (q\<lparr>answer := Some (audited ok code)\<rparr>) s)"

inductive reachable_readers :: "readers \<Rightarrow> bool" where
  initial: "reachable_readers \<lparr>slots = 0, requests = []\<rparr>"
| step: "reachable_readers s \<Longrightarrow> reader_step s s' \<Longrightarrow> reachable_readers s'"

section \<open>Who holds a slot\<close>

definition holds_slot :: "output_request \<Rightarrow> bool" where
  "holds_slot q \<longleftrightarrow> owns_slot q \<or> (\<exists>x. reader q \<in> {Running, Sent x})"

definition holders :: "readers \<Rightarrow> nat set" where
  "holders s = {r. \<exists>q. map_of (requests s) r = Some q \<and> holds_slot q}"

definition request_ok :: "output_request \<Rightarrow> bool" where
  "request_ok q \<longleftrightarrow>
     (owns_slot q \<longrightarrow> answer q = None \<and> reader q = NotStarted)
   \<and> (answer q = None \<longrightarrow> owns_slot q \<or> reader q \<noteq> NotStarted)"

definition readers_ok :: "readers \<Rightarrow> bool" where
  "readers_ok s \<longleftrightarrow>
     slots s = card (holders s) \<and> slots s \<le> max_output_reads
   \<and> (\<forall>r q. map_of (requests s) r = Some q \<longrightarrow> request_ok q)"

lemma finite_holders: "finite (holders s)"
proof (rule finite_subset)
  show "holders s \<subseteq> fst ` set (requests s)"
    by (auto simp: holders_def dest!: map_of_SomeD intro: rev_image_eqI)
qed simp

lemma set_request_fields [simp]:
  "slots (set_request r q s) = slots s"
  "map_of (requests (set_request r q s)) = (map_of (requests s))(r \<mapsto> q)"
  by (simp_all add: set_request_def update_conv')

lemma holders_set_request:
  "holders (set_request r q s) = (if holds_slot q then insert r (holders s) else holders s - {r})"
  by (auto simp: holders_def)

lemma holders_slots [simp]: "holders (s\<lparr>slots := n\<rparr>) = holders s"
  by (simp add: holders_def)

lemma holder_iff: "map_of (requests s) r = Some q \<Longrightarrow> r \<in> holders s \<longleftrightarrow> holds_slot q"
  by (simp add: holders_def)

lemma new_no_holder: "map_of (requests s) r = None \<Longrightarrow> r \<notin> holders s"
  by (simp add: holders_def)

lemmas slot_facts = holders_set_request holder_iff new_no_holder finite_holders holds_slot_def
  insert_absorb

lemma slots_step:
  assumes "reader_step s s'" and "readers_ok s"
  shows "slots s' = card (holders s') \<and> slots s' \<le> max_output_reads"
  using assms(1)
proof cases
  case (turn_away r q l ok)
  have "r \<in> holders s" using turn_away by (simp add: slot_facts)
  moreover have "reader q = NotStarted" using assms(2) turn_away by (auto simp: readers_ok_def request_ok_def)
  ultimately show ?thesis
    using assms(2) turn_away by (auto simp: readers_ok_def holders_set_request holds_slot_def finite_holders)
next
  case (release r q x)
  have "r \<in> holders s" using release by (simp add: slot_facts)
  moreover have "\<not> owns_slot q" using assms(2) release by (auto simp: readers_ok_def request_ok_def)
  ultimately show ?thesis
    using assms(2) release by (auto simp: readers_ok_def holders_set_request holds_slot_def finite_holders)
next
  case (start r q)
  have "r \<in> holders s" using start by (simp add: slot_facts)
  then show ?thesis
    using assms(2) start by (simp add: readers_ok_def holders_set_request holds_slot_def insert_absorb)
next
  case (send r q x)
  have "r \<in> holders s" using send by (simp add: slot_facts)
  then show ?thesis
    using assms(2) send by (simp add: readers_ok_def holders_set_request holds_slot_def insert_absorb)
qed (use assms(2) in \<open>auto simp: readers_ok_def slot_facts\<close>)

lemma requests_step:
  assumes "reader_step s s'" and "readers_ok s"
  shows "map_of (requests s') r = Some q \<Longrightarrow> request_ok q"
  using assms by cases (auto simp: readers_ok_def request_ok_def split: if_splits)

lemma readers_ok_reachable: "reachable_readers s \<Longrightarrow> readers_ok s"
proof (induction rule: reachable_readers.induct)
  case initial
  then show ?case by (simp add: readers_ok_def holders_def)
next
  case (step s s')
  then show ?case
    using slots_step [OF step(2)] requests_step [OF step(2)] by (auto simp: readers_ok_def)
qed

section \<open>Progress\<close>

definition work_of :: "output_request \<Rightarrow> nat" where
  "work_of q = (if answer q = None then 1 else 0) + (if owns_slot q then 3 else 0)
     + (case reader q of Running \<Rightarrow> 2 | Sent _ \<Rightarrow> 1 | _ \<Rightarrow> 0)"

definition request_ids :: "readers \<Rightarrow> nat set" where
  "request_ids s = fst ` set (requests s)"

definition work :: "readers \<Rightarrow> nat" where
  "work s = (\<Sum>r \<in> request_ids s. work_of (the (map_of (requests s) r)))"

lemma request_ids_set [simp]: "request_ids (set_request r q s) = insert r (request_ids s)"
  by (simp add: request_ids_def set_request_def dom_update)

lemma request_ids_slots [simp]: "request_ids (s\<lparr>slots := n\<rparr>) = request_ids s"
  by (simp add: request_ids_def)

lemma request_ids_iff: "r \<in> request_ids s \<longleftrightarrow> (\<exists>q. map_of (requests s) r = Some q)"
  unfolding request_ids_def using map_of_eq_None_iff [of "requests s" r] by auto

lemma work_slots [simp]: "work (s\<lparr>slots := n\<rparr>) = work s"
  by (simp add: work_def)

lemma work_set_request:
  assumes "map_of (requests s) r = Some q" and "work_of q' < work_of q"
  shows "work (set_request r q' s) < work s"
proof -
  have r: "r \<in> request_ids s" using assms(1) by (simp add: request_ids_iff)
  have fin: "finite (request_ids s)" by (simp add: request_ids_def)
  have "work (set_request r q' s)
      = work_of q' + (\<Sum>i \<in> request_ids s - {r}. work_of (the (map_of (requests s) i)))"
    using r unfolding work_def by (simp add: insert_absorb sum.remove [OF fin r])
  also have "\<dots> < work_of q + (\<Sum>i \<in> request_ids s - {r}. work_of (the (map_of (requests s) i)))"
    using assms(2) by simp
  also have "\<dots> = work s" using assms(1) unfolding work_def by (simp add: sum.remove [OF fin r])
  finally show ?thesis .
qed

lemma work_set_request_slots:
  assumes "map_of (requests s) r = Some q" and "work_of q' < work_of q"
  shows "work (set_request r q' (s\<lparr>slots := n\<rparr>)) < work s"
proof -
  have "set_request r q' (s\<lparr>slots := n\<rparr>) = (set_request r q' s)\<lparr>slots := n\<rparr>"
    by (simp add: set_request_def)
  then show ?thesis using work_set_request [OF assms] by simp
qed

lemma new_request_id:
  "map_of (requests s) r = None \<Longrightarrow> insert r (request_ids s) = request_ids s \<longleftrightarrow> False"
  using request_ids_iff [of r s] by (metis insertI1 option.distinct(1))

lemma quiet_step_works:
  assumes "reader_step s s'" and "readers_ok s" and "request_ids s' = request_ids s"
  shows "work s' < work s"
  using assms(1)
proof cases
  case (turn_away r q l ok)
  then show ?thesis by (auto intro!: work_set_request work_set_request_slots simp: work_of_def)
next
  case (start r q)
  moreover have "reader q = NotStarted"
    using start assms(2) by (auto simp: readers_ok_def request_ok_def)
  ultimately show ?thesis by (auto intro!: work_set_request work_set_request_slots simp: work_of_def)
next
  case (send r q x)
  then show ?thesis by (auto intro!: work_set_request work_set_request_slots simp: work_of_def)
next
  case (release r q x)
  then show ?thesis by (auto intro!: work_set_request work_set_request_slots simp: work_of_def)
next
  case (deliver r q x ok)
  then show ?thesis by (auto intro!: work_set_request work_set_request_slots simp: work_of_def)
next
  case (give_up r q code ok)
  then show ?thesis by (auto intro!: work_set_request work_set_request_slots simp: work_of_def)
qed (use assms(3) in \<open>auto simp: new_request_id\<close>)

lemma unfinished_can_step:
  assumes "readers_ok s" and "map_of (requests s) r = Some q" and "answer q = None \<or> holds_slot q"
  shows "\<exists>s'. reader_step s s' \<and> request_ids s' = request_ids s"
proof -
  have r: "insert r (request_ids s) = request_ids s"
    using assms(2) by (simp add: request_ids_iff insert_absorb)
  show ?thesis
  proof (cases "owns_slot q")
    case True
    show ?thesis using reader_step.start [OF assms(2) True] r by fastforce
  next
    case False
    show ?thesis
    proof (cases "reader q")
      case NotStarted
      then show ?thesis
        using assms False by (auto simp: readers_ok_def request_ok_def holds_slot_def)
    next
      case Running
      show ?thesis using reader_step.send [OF assms(2) Running] r by fastforce
    next
      case (Sent x)
      show ?thesis using reader_step.release [OF assms(2) Sent] r by fastforce
    next
      case (Released x)
      then have "answer q = None" using assms(3) False by (auto simp: holds_slot_def)
      then show ?thesis using reader_step.deliver [OF assms(2), of x] Released r by fastforce
    qed
  qed
qed

section \<open>Properties\<close>

text \<open>
  Job numbers. The server accepts exactly the decimal numbers from 1 to the largest 64-bit
  integer as they are printed: no sign, no space, no leading zero, no other digits.
\<close>

theorem parse_job_id_exact:
  "parse_positive_job_id s = Some i \<longleftrightarrow> 0 < i \<and> i \<le> int64_max \<and> s = dec (nat i)"
proof
  assume parsed: "parse_positive_job_id s = Some i"
  then have s: "s \<noteq> []" "hd s \<noteq> CHR ''0''" "list_all is_digit s" "parse_int64 s = Some i" "0 < i"
    by (auto simp: parse_positive_job_id_def split: if_splits option.splits)
  then have "i = int (dec_val s)" "i \<le> int64_max"
    using parse_int64_digits [of s] by (auto simp: list_all_iff split: if_splits)
  then show "0 < i \<and> i \<le> int64_max \<and> s = dec (nat i)"
    using s dec_dec_val [OF s(1,3,2)] by simp
next
  assume i: "0 < i \<and> i \<le> int64_max \<and> s = dec (nat i)"
  have "nat i < 10 ^ 19" using i by (simp add: int64_max_def nat_less_iff)
  then have "length s \<le> 19" using i length_dec [of "nat i" 19] by simp
  then show "parse_positive_job_id s = Some i"
    using i hd_dec [of "nat i"] dec_digits [of "nat i"] parse_int64_dec [of "nat i"]
    by (simp add: parse_positive_job_id_def list_all_iff)
qed

text \<open>
  The slots of the readers. In every interleaving of handlers and readers, also when handlers
  give up before their readers are done, the slots in use are exactly the requests whose
  handler or reader still owes one back, and they are never more than four.
\<close>

theorem reader_slots_bounded:
  assumes "reachable_readers s"
  shows "slots s = card (holders s) \<and> slots s \<le> 4
    \<and> (\<forall>r q. map_of (requests s) r = Some q \<longrightarrow> \<not> (owns_slot q \<and> reader q \<noteq> NotStarted))"
  using readers_ok_reachable [OF assms]
  by (auto simp: readers_ok_def request_ok_def max_output_reads_def)

text \<open>
  C34. The readers finish. Without new requests every step brings the readers closer to the end,
  and when no step is left every request has its answer and every slot is free: no slot is
  lost, whatever came before.
\<close>

theorem readers_finish:
  assumes "reachable_readers s"
  shows "(\<forall>s'. reader_step s s' \<and> request_ids s' = request_ids s \<longrightarrow> work s' < work s)
    \<and> ((\<nexists>s'. reader_step s s' \<and> request_ids s' = request_ids s) \<longrightarrow>
         slots s = 0 \<and> (\<forall>r q. map_of (requests s) r = Some q \<longrightarrow> answer q \<noteq> None))"
proof -
  note ok = readers_ok_reachable [OF assms]
  have "slots s = 0 \<and> (\<forall>r q. map_of (requests s) r = Some q \<longrightarrow> answer q \<noteq> None)"
    if stuck: "\<nexists>s'. reader_step s s' \<and> request_ids s' = request_ids s"
  proof -
    have "answer q \<noteq> None \<and> \<not> holds_slot q" if "map_of (requests s) r = Some q" for r q
      using unfinished_can_step [OF ok that] stuck by (cases "answer q") auto
    note done_ = this
    then have "holders s = {}" by (auto simp: holders_def)
    then have "slots s = 0" using ok by (simp add: readers_ok_def)
    then show ?thesis using done_ by blast
  qed
  then show ?thesis using quiet_step_works [OF _ ok] by blast
qed

section \<open>Witnesses\<close>

definition one_reader :: readers where
  "one_reader = \<lparr>slots = 1,
     requests = [(7, \<lparr>answer = None, owns_slot = False, reader = Running\<rparr>)]\<rparr>"

lemma one_reader_reachable: "reachable_readers one_reader"
proof -
  let ?s1 = "set_request 7 \<lparr>answer = None, owns_slot = True, reader = NotStarted\<rparr>
      (\<lparr>slots = 0, requests = []\<rparr>\<lparr>slots := slots \<lparr>slots = 0, requests = []\<rparr> + 1\<rparr>)"
  have "reachable_readers ?s1"
    by (rule reachable_readers.step [OF reachable_readers.initial reader_step.admit])
      (simp_all add: max_output_reads_def)
  moreover have "reader_step ?s1 one_reader"
    using reader_step.start [of ?s1 7 "\<lparr>answer = None, owns_slot = True, reader = NotStarted\<rparr>"]
    by (simp add: one_reader_def set_request_def)
  ultimately show ?thesis by (rule reachable_readers.step)
qed

lemma reader_slots_bounded_witness: "card (holders one_reader) = 1"
  using reader_slots_bounded [OF one_reader_reachable] by (simp add: one_reader_def)

lemma readers_finish_witness:
  "work (set_request 7 \<lparr>answer = None, owns_slot = False, reader = Sent ReadFailed\<rparr> one_reader)
     < work one_reader"
proof -
  have "map_of (requests one_reader) 7 = Some \<lparr>answer = None, owns_slot = False, reader = Running\<rparr>"
    by (simp add: one_reader_def)
  from reader_step.send [OF this, of ReadFailed]
  have "reader_step one_reader
      (set_request 7 \<lparr>answer = None, owns_slot = False, reader = Sent ReadFailed\<rparr> one_reader)"
    by simp
  moreover have "request_ids one_reader = {7}" by (simp add: request_ids_def one_reader_def)
  ultimately show ?thesis using readers_finish [OF one_reader_reachable] by simp
qed

end
