(* ===== verification/WebAuth.thy ===== *)
theory WebAuth
  imports Prelude
begin

text \<open>
  Who may do what (\<open>internal/web/app.go\<close>, with the accounts of \<open>internal/platform/users.go\<close> and
  \<open>internal/web/platform_users.go\<close>): the throttle of logins, the login, the session store, the
  three middlewares in front of every protected route, logout and the status of accounts.

  Times are nanoseconds. The maps of the code are association lists with distinct keys, the
  ranges over them go in list order. What bcrypt answers is the parameter \<open>matches\<close>; what the
  directory answers, the random tokens and whether the databases work come with the request.
\<close>

section \<open>State\<close>

datatype role = RoleAdmin | RoleUser

type_synonym principal = "string \<times> role"

record account =
  acc_hash :: string
  acc_role :: role
  acc_enabled :: bool

record session_data =
  ends_at :: int
  session_csrf :: string
  session_user :: string
  session_role :: role

record attempt =
  att_count :: nat
  att_start :: int

record web =
  accounts :: "(string \<times> account) list"
  web_sessions :: "(string \<times> session_data) list"
  login_attempts :: "(string \<times> attempt) list"

section \<open>The throttle of logins\<close>

definition minute :: int where
  "minute = 60 * 1000000000"

definition attempt_window :: int where
  "attempt_window = 15 * minute"

definition max_attempts :: nat where
  "max_attempts = 5"

definition max_attempt_keys :: nat where
  "max_attempt_keys = 4096"

definition current_attempt :: "string \<Rightarrow> int \<Rightarrow> (string \<times> attempt) list \<Rightarrow> attempt" where
  "current_attempt key now atts =
     (case map_of atts key of
        None \<Rightarrow> \<lparr>att_count = 0, att_start = now\<rparr>
      | Some a \<Rightarrow> if now - att_start a \<ge> attempt_window then \<lparr>att_count = 0, att_start = now\<rparr> else a)"

definition oldest_attempt :: "string \<Rightarrow> int \<Rightarrow> (string \<times> attempt) list \<Rightarrow> string" where
  "oldest_attempt key now atts =
     fst (foldl (\<lambda>(oldest, start) (k, a).
            if k \<noteq> key \<and> att_start a \<le> start then (k, att_start a) else (oldest, start))
          (key, now) atts)"

definition reserve_attempt ::
  "string \<Rightarrow> int \<Rightarrow> (string \<times> attempt) list \<Rightarrow> bool \<times> (string \<times> attempt) list" where
  "reserve_attempt key now atts =
     (let current = current_attempt key now atts
      in if att_count current \<ge> max_attempts then (False, atts)
         else
           let updated = filter (\<lambda>(k, a). now - att_start a < attempt_window) atts;
               updated = AList.update key (current\<lparr>att_count := att_count current + 1\<rparr>) updated
           in (True,
               if length updated > max_attempt_keys
               then AList.delete (oldest_attempt key now updated) updated else updated))"

definition reset_attempts :: "string \<Rightarrow> (string \<times> attempt) list \<Rightarrow> (string \<times> attempt) list" where
  "reset_attempts key atts = filter (\<lambda>(k, a). k \<noteq> key) atts"

section \<open>Accounts\<close>

definition username_char :: "char \<Rightarrow> bool" where
  "username_char c \<longleftrightarrow>
     (let n = of_char c :: nat
      in 65 \<le> n \<and> n \<le> 90 \<or> 97 \<le> n \<and> n \<le> 122 \<or> 48 \<le> n \<and> n \<le> 57
       \<or> c \<in> set ''._-'')"

definition valid_username :: "string \<Rightarrow> bool" where
  "valid_username name \<longleftrightarrow>
     list_all username_char name \<and> 1 \<le> length name \<and> length name \<le> 64
   \<and> name \<noteq> ''.'' \<and> name \<noteq> ''..''"

text \<open>\<open>UserStore.Get\<close>: an error for a name outside the pattern and when the database fails.\<close>

definition get_account :: "bool \<Rightarrow> string \<Rightarrow> web \<Rightarrow> unit + account option" where
  "get_account db_ok name w =
     (if \<not> valid_username name \<or> \<not> db_ok then Inl () else Inr (map_of (accounts w) name))"

section \<open>Sessions\<close>

definition session_lifetime :: int where
  "session_lifetime = 12 * 60 * minute"

definition add_web_session :: "int \<Rightarrow> string \<Rightarrow> session_data \<Rightarrow> web \<Rightarrow> web" where
  "add_web_session now token d w =
     w\<lparr>web_sessions :=
         AList.update token d (filter (\<lambda>(k, v). now < ends_at v) (web_sessions w))\<rparr>"

definition remove_web_session :: "string \<Rightarrow> web \<Rightarrow> web" where
  "remove_web_session token w =
     w\<lparr>web_sessions := filter (\<lambda>(k, v). k \<noteq> token) (web_sessions w)\<rparr>"

definition remove_username :: "string \<Rightarrow> web \<Rightarrow> web" where
  "remove_username name w =
     w\<lparr>web_sessions := filter (\<lambda>(k, v). session_user v \<noteq> name) (web_sessions w)\<rparr>"

definition session_identity :: "string \<Rightarrow> int \<Rightarrow> web \<Rightarrow> principal option" where
  "session_identity token now w =
     (case map_of (web_sessions w) token of
        None \<Rightarrow> None
      | Some d \<Rightarrow>
          if \<not> now < ends_at d \<or> session_user d = [] then None
          else Some (session_user d, session_role d))"

definition csrf_of_session :: "string \<Rightarrow> int \<Rightarrow> web \<Rightarrow> string option" where
  \<comment> \<open>the stored token when the session exists and has not expired\<close>
  "csrf_of_session token now w =
     (case map_of (web_sessions w) token of
        None \<Rightarrow> None
      | Some d \<Rightarrow> if now < ends_at d then Some (session_csrf d) else None)"

section \<open>Login\<close>

definition safe_next :: "string \<Rightarrow> string" where
  "safe_next v =
     (if v \<noteq> [] \<and> prefix ''/'' v \<and> \<not> prefix ''//'' v \<and> CHR 0x5C \<notin> set v then v
      else ''/dashboard'')"

record login_request =
  lr_now :: int
  lr_client :: string
  lr_username :: string
  lr_password :: string
  lr_next :: string
  lr_ldap :: "bool option"       \<comment> \<open>the answer of the directory, \<open>None\<close> for an error\<close>
  lr_token :: "string option"    \<comment> \<open>the two random tokens, \<open>None\<close> for an error\<close>
  lr_csrf :: "string option"
  lr_db_ok :: bool
  lr_audit_ok :: bool

datatype login_answer = LoginStatus nat | LoggedIn string string string

definition local_account :: "login_request \<Rightarrow> string \<Rightarrow> web \<Rightarrow> unit + account option" where
  "local_account r name w = (if valid_username name then get_account (lr_db_ok r) name w else Inr None)"

definition login ::
  "(string \<Rightarrow> string \<Rightarrow> bool) \<Rightarrow> login_request \<Rightarrow> web \<Rightarrow> login_answer \<times> web" where
  "login matches r w =
     (let name = trim_space (lr_username r)
      in if name = [] \<or> length name > 64 \<or> lr_password r = [] \<or> length (lr_password r) > 256
         then (LoginStatus 400, w)
         else
           let (granted, atts) = reserve_attempt (lr_client r) (lr_now r) (login_attempts w);
               w = w\<lparr>login_attempts := atts\<rparr>
           in if \<not> granted then (LoginStatus 429, w)
              else case local_account r name w of
                  Inl _ \<Rightarrow> (LoginStatus 503, w)
                | Inr found \<Rightarrow>
                    let password_matches =
                          (case found of None \<Rightarrow> False
                           | Some a \<Rightarrow> acc_enabled a \<and> matches (acc_hash a) (lr_password r))
                    in if found = None \<and> lr_ldap r = None then (LoginStatus 503, w)
                       else
                         let ldap_matches = (found = None \<and> lr_ldap r = Some True)
                         in if \<not> password_matches \<and> \<not> ldap_matches
                            then (LoginStatus (if lr_audit_ok r then 401 else 503), w)
                            else case (lr_token r, lr_csrf r) of
                                (Some token, Some csrf) \<Rightarrow>
                                  if \<not> lr_audit_ok r then (LoginStatus 503, w)
                                  else
                                    let r_role = (case found of Some a \<Rightarrow> acc_role a | None \<Rightarrow> RoleUser);
                                        d = \<lparr>ends_at = lr_now r + session_lifetime, session_csrf = csrf,
                                             session_user = name, session_role = r_role\<rparr>
                                    in (LoggedIn token csrf (safe_next (lr_next r)),
                                        add_web_session (lr_now r) token d
                                          (w\<lparr>login_attempts := reset_attempts (lr_client r) atts\<rparr>))
                              | _ \<Rightarrow> (LoginStatus 500, w))"

section \<open>The middlewares\<close>

record request =
  rq_now :: int
  rq_session :: "string option"    \<comment> \<open>the two cookies\<close>
  rq_csrf :: "string option"
  rq_header :: string              \<comment> \<open>\<open>X-CSRF-Token\<close>, empty when missing\<close>
  rq_form :: string                \<comment> \<open>the field \<open>_csrf\<close>\<close>
  rq_multipart :: bool
  rq_safe :: bool                  \<comment> \<open>GET, HEAD or OPTIONS\<close>
  rq_admin_route :: bool           \<comment> \<open>the route has \<open>requireAdmin\<close>\<close>
  rq_db_ok :: bool

datatype gate = ToLogin | GateStatus nat | Handle principal

definition require_authentication :: "request \<Rightarrow> web \<Rightarrow> gate \<times> web" where
  "require_authentication rq w =
     (case rq_session rq of
        None \<Rightarrow> (ToLogin, w)
      | Some token \<Rightarrow>
          (case session_identity token (rq_now rq) w of
             None \<Rightarrow> (ToLogin, w)
           | Some who \<Rightarrow>
               (case get_account (rq_db_ok rq) (fst who) w of
                  Inl _ \<Rightarrow> (GateStatus 503, w)
                | Inr None \<Rightarrow> (Handle who, w)
                | Inr (Some a) \<Rightarrow>
                    if \<not> acc_enabled a then (ToLogin, remove_web_session token w)
                    else (Handle who, w))))"

definition sent_csrf :: "request \<Rightarrow> string" where
  "sent_csrf rq = (if rq_header rq = [] \<and> \<not> rq_multipart rq then rq_form rq else rq_header rq)"

definition require_csrf :: "request \<Rightarrow> web \<Rightarrow> bool" where
  "require_csrf rq w \<longleftrightarrow>
     rq_safe rq
   \<or> (case (rq_session rq, rq_csrf rq) of
        (Some token, Some cookie) \<Rightarrow>
          (case csrf_of_session token (rq_now rq) w of
             None \<Rightarrow> False
           | Some stored \<Rightarrow> stored = cookie \<and> stored = sent_csrf rq)
      | _ \<Rightarrow> False)"

definition require_admin :: "principal \<Rightarrow> bool" where
  "require_admin who \<longleftrightarrow> snd who = RoleAdmin"

definition protected :: "request \<Rightarrow> web \<Rightarrow> gate \<times> web" where
  "protected rq w =
     (case require_authentication rq w of
        (Handle who, w) \<Rightarrow>
          if \<not> require_csrf rq w then (GateStatus 403, w)
          else if rq_admin_route rq \<and> \<not> require_admin who then (GateStatus 403, w)
          else (Handle who, w)
      | r \<Rightarrow> r)"

section \<open>Handlers that change accounts and sessions\<close>

text \<open>
  Logout and the disabling of an account also close the user's terminal sessions:
  \<open>close_username\<close> of \<open>TerminalSessions\<close>. A status form whose field \<open>enabled\<close> is neither \<open>true\<close>
  nor \<open>false\<close> changes nothing and is left out.
\<close>

definition logout :: "request \<Rightarrow> web \<Rightarrow> web" where
  "logout rq w =
     (case protected rq w of
        (Handle who, w) \<Rightarrow>
          (case rq_session rq of Some token \<Rightarrow> remove_web_session token w | None \<Rightarrow> w)
      | (_, w) \<Rightarrow> w)"

definition set_account_status :: "request \<Rightarrow> string \<Rightarrow> bool \<Rightarrow> bool \<Rightarrow> web \<Rightarrow> web" where
  "set_account_status rq form_name enabled confirmed w =
     (case protected (rq\<lparr>rq_admin_route := True\<rparr>) w of
        (Handle who, w) \<Rightarrow>
          (let name = trim_space form_name
           in if name = fst who then w
              else if \<not> enabled \<and> \<not> confirmed then w
              else case get_account (rq_db_ok rq) name w of
                  Inr (Some a) \<Rightarrow>
                    let w = w\<lparr>accounts := AList.update name (a\<lparr>acc_enabled := enabled\<rparr>) (accounts w)\<rparr>
                    in if enabled then w else remove_username name w
                | _ \<Rightarrow> w)
      | (_, w) \<Rightarrow> w)"

text \<open>
  \<open>createPlatformUser\<close>; \<open>input_ok\<close> stands for the checks of the password's length, the role and
  the profile, \<open>hash\<close> is bcrypt's.
\<close>

definition create_account :: "request \<Rightarrow> string \<Rightarrow> role \<Rightarrow> string \<Rightarrow> bool \<Rightarrow> web \<Rightarrow> web" where
  "create_account rq form_name r hash input_ok w =
     (case protected (rq\<lparr>rq_admin_route := True\<rparr>) w of
        (Handle who, w) \<Rightarrow>
          (let name = trim_space form_name
           in if \<not> valid_username name \<or> \<not> input_ok \<or> \<not> rq_db_ok rq
                 \<or> map_of (accounts w) name \<noteq> None then w
              else w\<lparr>accounts := AList.update name
                       \<lparr>acc_hash = hash, acc_role = r, acc_enabled = True\<rparr> (accounts w)\<rparr>)
      | (_, w) \<Rightarrow> w)"

datatype web_event =
  Login login_request
| Visit request
| Logout request
| SetStatus request string bool bool
| CreateAccount request string role string bool

fun web_act :: "(string \<Rightarrow> string \<Rightarrow> bool) \<Rightarrow> web_event \<Rightarrow> web \<Rightarrow> web" where
  "web_act matches (Login r) w = snd (login matches r w)"
| "web_act matches (Visit rq) w = snd (protected rq w)"
| "web_act matches (Logout rq) w = logout rq w"
| "web_act matches (SetStatus rq name enabled confirmed) w =
     set_account_status rq name enabled confirmed w"
| "web_act matches (CreateAccount rq name r hash ok) w = create_account rq name r hash ok w"

fun run_web :: "(string \<Rightarrow> string \<Rightarrow> bool) \<Rightarrow> web_event list \<Rightarrow> web \<Rightarrow> web" where
  "run_web matches [] w = w"
| "run_web matches (e # es) w = run_web matches es (web_act matches e w)"

definition fresh_web :: "(string \<times> account) list \<Rightarrow> web" where
  \<comment> \<open>\<open>New\<close>, for the accounts of the database\<close>
  "fresh_web accs = \<lparr>accounts = accs, web_sessions = [], login_attempts = []\<rparr>"

lemma run_web_append:
  "run_web matches (es @ es') w = run_web matches es' (run_web matches es w)"
  by (induction es arbitrary: w) auto

section \<open>What the operations leave alone\<close>

lemma get_account_attempts [simp]:
  "get_account ok name (w\<lparr>login_attempts := x\<rparr>) = get_account ok name w"
  by (simp add: get_account_def)

lemma local_account_attempts [simp]:
  "local_account r name (w\<lparr>login_attempts := x\<rparr>) = local_account r name w"
  by (simp add: local_account_def)

lemma session_fields [simp]:
  "accounts (add_web_session now token d w) = accounts w"
  "accounts (remove_web_session token w) = accounts w"
  "accounts (remove_username name w) = accounts w"
  "set (web_sessions (remove_web_session token w)) = {e \<in> set (web_sessions w). fst e \<noteq> token}"
  "set (web_sessions (remove_username name w)) = {e \<in> set (web_sessions w). session_user (snd e) \<noteq> name}"
  by (auto simp: add_web_session_def remove_web_session_def remove_username_def)

lemma get_account_found:
  "get_account ok name w = Inr (Some a) \<Longrightarrow> map_of (accounts w) name = Some a \<and> valid_username name"
  by (auto simp: get_account_def split: if_splits)

text \<open>A middleware changes the state at most by dropping the session of a disabled account.\<close>

lemma authentication_state:
  "snd (require_authentication rq w) = w
 \<or> (\<exists>token. rq_session rq = Some token \<and> fst (require_authentication rq w) = ToLogin
      \<and> snd (require_authentication rq w) = remove_web_session token w)"
  by (auto simp: require_authentication_def split: option.splits sum.splits)

lemma protected_state:
  "snd (protected rq w) = w
 \<or> (\<exists>token. rq_session rq = Some token \<and> snd (protected rq w) = remove_web_session token w)"
  using authentication_state [of rq w]
  by (auto simp: protected_def split: prod.splits gate.splits)

lemma protected_accounts [simp]: "accounts (snd (protected rq w)) = accounts w"
  using protected_state [of rq w] by auto

lemma protected_sessions: "set (web_sessions (snd (protected rq w))) \<subseteq> set (web_sessions w)"
  using protected_state [of rq w] by auto

lemma protected_handle:
  assumes "fst (protected rq w) = Handle who"
  obtains token where "snd (protected rq w) = w" "rq_session rq = Some token"
    "session_identity token (rq_now rq) w = Some who"
    "get_account (rq_db_ok rq) (fst who) w = Inr None
     \<or> (\<exists>a. get_account (rq_db_ok rq) (fst who) w = Inr (Some a) \<and> acc_enabled a)"
    "require_csrf rq w" "rq_admin_route rq \<longrightarrow> require_admin who"
proof -
  obtain who' w' where auth: "require_authentication rq w = (Handle who', w')"
    using assms by (auto simp: protected_def split: prod.splits gate.splits)
  then have w': "w' = w" using authentication_state [of rq w] by auto
  then have checks: "who' = who" "require_csrf rq w" "rq_admin_route rq \<longrightarrow> require_admin who"
      "snd (protected rq w) = w"
    using assms auth by (auto simp: protected_def split: if_splits)
  from auth obtain token where "rq_session rq = Some token"
      "session_identity token (rq_now rq) w = Some who"
      "get_account (rq_db_ok rq) (fst who) w = Inr None
       \<or> (\<exists>a. get_account (rq_db_ok rq) (fst who) w = Inr (Some a) \<and> acc_enabled a)"
    using checks(1) by (auto simp: require_authentication_def split: option.splits sum.splits if_splits)
  then show thesis using that checks by blast
qed

section \<open>What a login does\<close>

definition login_session :: "login_request \<Rightarrow> string \<Rightarrow> account option \<Rightarrow> session_data" where
  "login_session r csrf found =
     \<lparr>ends_at = lr_now r + session_lifetime, session_csrf = csrf,
      session_user = trim_space (lr_username r),
      session_role = (case found of Some a \<Rightarrow> acc_role a | None \<Rightarrow> RoleUser)\<rparr>"

definition accepts ::
  "(string \<Rightarrow> string \<Rightarrow> bool) \<Rightarrow> login_request \<Rightarrow> account option \<Rightarrow> bool" where
  "accepts matches r found \<longleftrightarrow>
     (case found of
        Some a \<Rightarrow> acc_enabled a \<and> matches (acc_hash a) (lr_password r)
      | None \<Rightarrow> lr_ldap r = Some True)"

lemma login_outcome:
  "(\<exists>code. fst (login matches r w) = LoginStatus code)
      \<and> web_sessions (snd (login matches r w)) = web_sessions w
 \<or> (\<exists>token csrf found. fst (login matches r w) = LoggedIn token csrf (safe_next (lr_next r))
      \<and> lr_token r = Some token \<and> lr_csrf r = Some csrf \<and> trim_space (lr_username r) \<noteq> []
      \<and> local_account r (trim_space (lr_username r)) w = Inr found \<and> accepts matches r found
      \<and> web_sessions (snd (login matches r w))
        = AList.update token (login_session r csrf found)
            (filter (\<lambda>(k, v). lr_now r < ends_at v) (web_sessions w)))"
  by (auto simp: login_def login_session_def accepts_def add_web_session_def Let_def
      split: prod.splits option.splits sum.splits if_splits)

lemma login_accounts [simp]: "accounts (snd (login matches r w)) = accounts w"
  by (auto simp: login_def Let_def split: prod.splits option.splits sum.splits)

section \<open>Where sessions come from\<close>

definition with_status :: "string \<Rightarrow> account \<Rightarrow> bool \<Rightarrow> web \<Rightarrow> web" where
  "with_status name a enabled w =
     w\<lparr>accounts := AList.update name (a\<lparr>acc_enabled := enabled\<rparr>) (accounts w)\<rparr>"

lemma with_status_fields [simp]:
  "web_sessions (with_status name a enabled w) = web_sessions w"
  "accounts (with_status name a enabled w) = AList.update name (a\<lparr>acc_enabled := enabled\<rparr>) (accounts w)"
  by (simp_all add: with_status_def)

lemma logout_outcome:
  "logout rq w = snd (protected rq w)
 \<or> (\<exists>token. logout rq w = remove_web_session token (snd (protected rq w)))"
  by (cases "protected rq w"; cases "fst (protected rq w)") (auto simp: logout_def split: option.splits)

lemma status_outcome:
  fixes rq w
  defines "w1 \<equiv> snd (protected (rq\<lparr>rq_admin_route := True\<rparr>) w)"
  shows "set_account_status rq name enabled conf w = w1
    \<or> (\<exists>a. map_of (accounts w) (trim_space name) = Some a
         \<and> set_account_status rq name enabled conf w
           = (if enabled then with_status (trim_space name) a enabled w1
              else remove_username (trim_space name) (with_status (trim_space name) a enabled w1)))"
proof -
  have "accounts w1 = accounts w" unfolding w1_def by simp
  moreover obtain g where "protected (rq\<lparr>rq_admin_route := True\<rparr>) w = (g, w1)"
    unfolding w1_def by (cases "protected (rq\<lparr>rq_admin_route := True\<rparr>) w") simp
  ultimately show ?thesis
    by (cases g) (auto simp: set_account_status_def with_status_def Let_def get_account_def
        split: option.splits sum.splits)
qed

lemma create_outcome:
  fixes rq w
  defines "w1 \<equiv> snd (protected (rq\<lparr>rq_admin_route := True\<rparr>) w)"
  shows "create_account rq name r hash ok w = w1
    \<or> map_of (accounts w) (trim_space name) = None
      \<and> create_account rq name r hash ok w
        = w1\<lparr>accounts := AList.update (trim_space name)
               \<lparr>acc_hash = hash, acc_role = r, acc_enabled = True\<rparr> (accounts w)\<rparr>"
proof -
  have "accounts w1 = accounts w" unfolding w1_def by simp
  moreover obtain g where "protected (rq\<lparr>rq_admin_route := True\<rparr>) w = (g, w1)"
    unfolding w1_def by (cases "protected (rq\<lparr>rq_admin_route := True\<rparr>) w") simp
  ultimately show ?thesis
    by (cases g) (auto simp: create_account_def Let_def)
qed

lemma sessions_handlers:
  "set (web_sessions (logout rq w)) \<subseteq> set (web_sessions w)"
  "set (web_sessions (set_account_status rq name en conf w)) \<subseteq> set (web_sessions w)"
  "set (web_sessions (create_account rq name r hash ok w)) \<subseteq> set (web_sessions w)"
proof -
  note sub = protected_sessions
  show "set (web_sessions (logout rq w)) \<subseteq> set (web_sessions w)"
    using logout_outcome [of rq w] sub [of rq w] by auto
  show "set (web_sessions (set_account_status rq name en conf w)) \<subseteq> set (web_sessions w)"
    using status_outcome [of rq name en conf w] sub [of "rq\<lparr>rq_admin_route := True\<rparr>" w]
    by (auto split: if_splits)
  show "set (web_sessions (create_account rq name r hash ok w)) \<subseteq> set (web_sessions w)"
    using create_outcome [of rq name r hash ok w] sub [of "rq\<lparr>rq_admin_route := True\<rparr>" w]
    by auto
qed

lemma sessions_act:
  assumes "(token, d) \<in> set (web_sessions (web_act matches e w))"
  shows "(token, d) \<in> set (web_sessions w)
    \<or> (\<exists>r csrf found. e = Login r
         \<and> fst (login matches r w) = LoggedIn token csrf (safe_next (lr_next r))
         \<and> local_account r (trim_space (lr_username r)) w = Inr found \<and> accepts matches r found
         \<and> lr_token r = Some token \<and> d = login_session r csrf found)"
proof (cases e)
  case (Login r)
  show ?thesis
    using login_outcome [of matches r w]
  proof (elim disjE exE conjE)
    assume "web_sessions (snd (login matches r w)) = web_sessions w"
    then show ?thesis using assms Login by simp
  next
    fix token' csrf found
    assume granted: "fst (login matches r w) = LoggedIn token' csrf (safe_next (lr_next r))"
      "lr_token r = Some token'"
      "local_account r (trim_space (lr_username r)) w = Inr found" "accepts matches r found"
      and added: "web_sessions (snd (login matches r w))
        = AList.update token' (login_session r csrf found)
            (filter (\<lambda>(k, v). lr_now r < ends_at v) (web_sessions w))"
    have "(token, d) \<in> insert (token', login_session r csrf found) (set (web_sessions w))"
      using assms Login added set_update_subset by fastforce
    then show ?thesis using granted Login by blast
  qed
next
  case (Visit rq)
  then show ?thesis using assms protected_sessions [of rq w] by auto
next
  case (Logout rq)
  then show ?thesis using assms sessions_handlers(1) [of rq w] by auto
next
  case (SetStatus rq name enabled conf)
  then show ?thesis using assms sessions_handlers(2) [of rq name enabled conf w] by auto
next
  case (CreateAccount rq name r hash ok)
  then show ?thesis using assms sessions_handlers(3) [of rq name r hash ok w] by auto
qed

lemma session_origin:
  "(token, d) \<in> set (web_sessions (run_web matches es (fresh_web accs))) \<Longrightarrow>
     \<exists>es1 r es2 csrf found. es = es1 @ Login r # es2
       \<and> fst (login matches r (run_web matches es1 (fresh_web accs)))
         = LoggedIn token csrf (safe_next (lr_next r))
       \<and> local_account r (trim_space (lr_username r)) (run_web matches es1 (fresh_web accs)) = Inr found
       \<and> accepts matches r found \<and> d = login_session r csrf found"
proof (induction es rule: rev_induct)
  case Nil
  then show ?case by (simp add: fresh_web_def)
next
  case (snoc e es)
  let ?w = "run_web matches es (fresh_web accs)"
  have "(token, d) \<in> set (web_sessions (web_act matches e ?w))"
    using snoc.prems by (simp add: run_web_append)
  from sessions_act [OF this] show ?case
  proof (elim disjE exE conjE)
    assume "(token, d) \<in> set (web_sessions ?w)"
    from snoc.IH [OF this] show ?thesis by (metis append.assoc append_Cons)
  next
    fix r csrf found
    assume "e = Login r" "fst (login matches r ?w) = LoggedIn token csrf (safe_next (lr_next r))"
      "local_account r (trim_space (lr_username r)) ?w = Inr found" "accepts matches r found"
      "d = login_session r csrf found"
    then show ?thesis by blast
  qed
qed

lemma session_identity_found:
  assumes "session_identity token now w = Some who"
  obtains d where "(token, d) \<in> set (web_sessions w)" "map_of (web_sessions w) token = Some d"
    "now < ends_at d" "who = (session_user d, session_role d)"
  using assms map_of_SomeD by (force simp: session_identity_def split: option.splits if_splits)

text \<open>
  C5. Nobody acts without a login. Whatever came before, a request that passes the middlewares
  of a protected route carries the token of an earlier login by the same user, less than
  twelve hours old, that either the local password of an enabled account or the directory
  accepted; a request that may change something carries that session's second token in its
  cookie and in its form or header; the rights of an administrator come only from a local
  account with that role, and the routes for administrators ask for them.
\<close>

theorem handled_request_has_login:
  assumes "fst (protected rq (run_web matches es (fresh_web accs))) = Handle who"
  shows "\<exists>es1 r es2 token csrf found.
      es = es1 @ Login r # es2
    \<and> fst (login matches r (run_web matches es1 (fresh_web accs)))
      = LoggedIn token csrf (safe_next (lr_next r))
    \<and> local_account r (fst who) (run_web matches es1 (fresh_web accs)) = Inr found
    \<and> accepts matches r found
    \<and> rq_session rq = Some token \<and> rq_now rq < lr_now r + session_lifetime
    \<and> fst who = trim_space (lr_username r)
    \<and> (rq_safe rq \<or> rq_csrf rq = Some csrf \<and> sent_csrf rq = csrf)
    \<and> (snd who = RoleAdmin \<longrightarrow> (\<exists>a. found = Some a \<and> acc_role a = RoleAdmin))
    \<and> (rq_admin_route rq \<longrightarrow> snd who = RoleAdmin)"
proof -
  let ?w = "run_web matches es (fresh_web accs)"
  from protected_handle [OF assms] obtain token where req: "rq_session rq = Some token"
      "session_identity token (rq_now rq) ?w = Some who" "require_csrf rq ?w"
      "rq_admin_route rq \<longrightarrow> require_admin who" by blast
  from session_identity_found [OF req(2)] obtain d where d: "(token, d) \<in> set (web_sessions ?w)"
      "map_of (web_sessions ?w) token = Some d" "rq_now rq < ends_at d"
      "who = (session_user d, session_role d)" by blast
  from session_origin [OF d(1)] obtain es1 r es2 csrf found where "es = es1 @ Login r # es2"
      "fst (login matches r (run_web matches es1 (fresh_web accs)))
         = LoggedIn token csrf (safe_next (lr_next r))"
      "local_account r (trim_space (lr_username r)) (run_web matches es1 (fresh_web accs)) = Inr found"
      "accepts matches r found" "d = login_session r csrf found" by blast
  moreover from this d req(3) have "rq_safe rq \<or> rq_csrf rq = Some csrf \<and> sent_csrf rq = csrf"
    by (auto simp: require_csrf_def req(1) csrf_of_session_def login_session_def split: option.splits)
  moreover have "snd who = RoleAdmin \<longrightarrow> (\<exists>a. found = Some a \<and> acc_role a = RoleAdmin)"
    using d(4) calculation(5) by (auto simp: login_session_def split: option.splits)
  moreover have "rq_admin_route rq \<longrightarrow> snd who = RoleAdmin"
    using req(4) by (simp add: require_admin_def)
  ultimately show ?thesis
    using req(1) d(3,4) by (intro exI conjI) (auto simp: login_session_def)
qed

section \<open>Disabled accounts\<close>

definition enables :: "string \<Rightarrow> web_event \<Rightarrow> bool" where
  "enables name e \<longleftrightarrow>
     (case e of SetStatus rq form_name enabled conf \<Rightarrow> enabled \<and> trim_space form_name = name
      | _ \<Rightarrow> False)"

definition disabled :: "string \<Rightarrow> web \<Rightarrow> bool" where
  "disabled name w \<longleftrightarrow> (\<exists>a. map_of (accounts w) name = Some a \<and> \<not> acc_enabled a)"

lemma disabled_act:
  assumes "disabled name w" and "\<not> enables name e"
  shows "disabled name (web_act matches e w)"
proof (cases e)
  case (Login r)
  then show ?thesis using assms by (simp add: disabled_def)
next
  case (Visit rq)
  then show ?thesis using assms by (simp add: disabled_def)
next
  case (Logout rq)
  then show ?thesis using assms logout_outcome [of rq w] by (auto simp: disabled_def)
next
  case (SetStatus rq form_name enabled conf)
  then show ?thesis
    using assms status_outcome [of rq form_name enabled conf w]
    by (auto simp: disabled_def enables_def update_conv' split: if_splits)
next
  case (CreateAccount rq form_name r hash ok)
  then show ?thesis
    using assms create_outcome [of rq form_name r hash ok w]
    by (auto simp: disabled_def update_conv')
qed

lemma disabled_run:
  "disabled name w \<Longrightarrow> \<forall>e \<in> set es. \<not> enables name e \<Longrightarrow> disabled name (run_web matches es w)"
  by (induction es arbitrary: w) (auto intro: disabled_act)

lemma disabled_no_request:
  assumes "disabled name w" and "fst (protected rq w) = Handle who"
  shows "fst who \<noteq> name"
proof -
  have "get_account (rq_db_ok rq) (fst who) w = Inr None
      \<or> (\<exists>a. get_account (rq_db_ok rq) (fst who) w = Inr (Some a) \<and> acc_enabled a)"
    using protected_handle [OF assms(2)] by metis
  then show ?thesis using assms(1) by (auto simp: disabled_def get_account_def split: if_splits)
qed

lemma disabled_no_login:
  assumes "disabled name w" and "trim_space (lr_username r) = name"
  shows "fst (login matches r w) \<noteq> LoggedIn token csrf nxt \<or> \<not> valid_username name"
  using login_outcome [of matches r w] assms
  by (auto simp: disabled_def local_account_def get_account_def accepts_def split: if_splits)

section \<open>Sessions that are gone\<close>

definition hands_out :: "string \<Rightarrow> web_event \<Rightarrow> bool" where
  "hands_out token e \<longleftrightarrow> (case e of Login r \<Rightarrow> lr_token r = Some token | _ \<Rightarrow> False)"

lemma no_session_act:
  "token \<notin> fst ` set (web_sessions w) \<Longrightarrow> \<not> hands_out token e \<Longrightarrow>
     token \<notin> fst ` set (web_sessions (web_act matches e w))"
  using sessions_act [of token _ matches e w] by (fastforce simp: hands_out_def)

lemma no_session_run:
  "token \<notin> fst ` set (web_sessions w) \<Longrightarrow> \<forall>e \<in> set es. \<not> hands_out token e \<Longrightarrow>
     token \<notin> fst ` set (web_sessions (run_web matches es w))"
  by (induction es arbitrary: w) (auto simp: no_session_act)

lemma no_session_to_login:
  assumes "token \<notin> fst ` set (web_sessions w)" and "rq_session rq = Some token"
  shows "protected rq w = (ToLogin, w)"
proof -
  have "map_of (web_sessions w) token = None" using assms(1) by (simp add: map_of_eq_None_iff)
  then show ?thesis
    using assms(2) by (simp add: protected_def require_authentication_def session_identity_def)
qed

section \<open>The throttle\<close>

definition throttle_inv :: "int \<Rightarrow> int \<Rightarrow> string \<Rightarrow> int \<Rightarrow> (string \<times> attempt) list \<Rightarrow> bool" where
  \<comment> \<open>since \<open>t0\<close>, \<open>n\<close> attempts of the client were let through; it is \<open>now\<close>\<close>
  "throttle_inv t0 now client n atts \<longleftrightarrow>
     t0 \<le> now
   \<and> (case map_of atts client of
        None \<Rightarrow> n \<le> 5 * ((now - t0) div attempt_window)
      | Some a \<Rightarrow>
          t0 \<le> att_start a \<and> att_start a \<le> now \<and> att_count a \<le> 5
        \<and> n \<le> 5 * ((att_start a - t0) div attempt_window) + int (att_count a))"

lemma window_pos: "0 < attempt_window"
  by (simp add: attempt_window_def minute_def)

lemma window_passed:
  assumes "attempt_window \<le> now - start"
  shows "(start - t0) div attempt_window + 1 \<le> (now - t0) div attempt_window"
proof -
  have "(start - t0) div attempt_window + 1 = (start - t0 + attempt_window) div attempt_window"
    by (rule div_add_self2 [symmetric]) (use window_pos in simp)
  also have "\<dots> \<le> (now - t0) div attempt_window"
    using assms window_pos by (intro zdiv_mono1) auto
  finally show ?thesis .
qed

lemma throttle_bound:
  assumes "throttle_inv t0 now client n atts" and "now \<le> t"
  shows "n \<le> 5 * ((t - t0) div attempt_window + 1)"
proof -
  have mono: "(s - t0) div attempt_window \<le> (t - t0) div attempt_window" if "s \<le> t" for s
    using that window_pos by (intro zdiv_mono1) auto
  show ?thesis
    using assms mono [of now] mono [of "att_start (the (map_of atts client))"]
    by (auto simp: throttle_inv_def split: option.splits)
qed

text \<open>Time passes, and expired entries may go.\<close>

lemma throttle_later:
  assumes "throttle_inv t0 now client n atts" and "now \<le> now'"
    and "map_of atts' client = map_of atts client
       \<or> map_of atts' client = None \<and> (\<forall>a. map_of atts client = Some a \<longrightarrow> attempt_window \<le> now' - att_start a)"
  shows "throttle_inv t0 now' client n atts'"
proof -
  have mono: "(now - t0) div attempt_window \<le> (now' - t0) div attempt_window"
    using assms(2) window_pos by (intro zdiv_mono1) auto
  show ?thesis
  proof (cases "map_of atts client")
    case None
    then show ?thesis using assms mono by (auto simp: throttle_inv_def)
  next
    case (Some a)
    then show ?thesis
      using assms window_passed [of now' "att_start a" t0] by (auto simp: throttle_inv_def)
  qed
qed

lemma throttle_current:
  assumes "throttle_inv t0 now client n atts" and "now \<le> now'"
  shows "t0 \<le> att_start (current_attempt client now' atts)
    \<and> att_start (current_attempt client now' atts) \<le> now'
    \<and> n \<le> 5 * ((att_start (current_attempt client now' atts) - t0) div attempt_window)
        + int (att_count (current_attempt client now' atts))"
proof (cases "map_of atts client")
  case None
  have "(now - t0) div attempt_window \<le> (now' - t0) div attempt_window"
    using assms(2) window_pos by (intro zdiv_mono1) auto
  then show ?thesis using assms None by (simp add: throttle_inv_def current_attempt_def)
next
  case (Some a)
  show ?thesis
  proof (cases "attempt_window \<le> now' - att_start a")
    case True
    then show ?thesis
      using assms Some window_passed [OF True, of t0]
      by (simp add: throttle_inv_def current_attempt_def)
  next
    case False
    then show ?thesis using assms Some by (simp add: throttle_inv_def current_attempt_def)
  qed
qed

lemma length_attempts:
  assumes "distinct (map fst atts)" and "fst ` set atts \<subseteq> K" and "finite K"
  shows "length atts \<le> card K"
proof -
  have "length atts = card (fst ` set atts)"
    using distinct_card [OF assms(1)] by simp
  then show ?thesis using card_mono [OF assms(3,2)] by simp
qed

definition kept_attempts :: "int \<Rightarrow> (string \<times> attempt) list \<Rightarrow> (string \<times> attempt) list" where
  "kept_attempts now atts = filter (\<lambda>(k, a). now - att_start a < attempt_window) atts"

lemma kept_lookup:
  assumes "distinct (map fst atts)"
  shows "map_of (kept_attempts now atts) key = map_of atts key
    \<or> map_of (kept_attempts now atts) key = None
      \<and> (\<forall>a. map_of atts key = Some a \<longrightarrow> attempt_window \<le> now - att_start a)"
  using assms
proof (induction atts)
  case (Cons e atts)
  obtain k a where e: "e = (k, a)" by (cases e)
  have "map_of atts key = None" if "k = key"
    using Cons.prems that unfolding e by (simp add: map_of_eq_None_iff)
  then have gone: "map_of (kept_attempts now atts) key = None" if "k = key"
    using Cons that by (auto simp: kept_attempts_def)
  show ?case
    using Cons gone unfolding e by (cases "k = key") (auto simp: kept_attempts_def)
qed (simp add: kept_attempts_def)

lemma reserve_small:
  assumes "distinct (map fst atts)" and "insert key (fst ` set atts) \<subseteq> K"
    and "finite K" and "card K \<le> max_attempt_keys"
  shows "reserve_attempt key now atts =
    (if att_count (current_attempt key now atts) \<ge> max_attempts then (False, atts)
     else (True, AList.update key
       ((current_attempt key now atts)\<lparr>att_count := att_count (current_attempt key now atts) + 1\<rparr>)
       (kept_attempts now atts)))"
proof -
  let ?c = "current_attempt key now atts"
  let ?u = "AList.update key (?c\<lparr>att_count := att_count ?c + 1\<rparr>) (kept_attempts now atts)"
  have "distinct (map fst ?u)"
    using assms(1) by (simp add: kept_attempts_def distinct_map_filter distinct_update)
  moreover have "fst ` set ?u = insert key (fst ` set (kept_attempts now atts))"
    by (simp add: dom_update)
  then have "fst ` set ?u \<subseteq> K" using assms(2) by (auto simp: kept_attempts_def)
  ultimately have "length ?u \<le> card K" using assms(3) by (intro length_attempts)
  then show ?thesis
    using assms(4) by (simp add: reserve_attempt_def kept_attempts_def Let_def)
qed

lemma reset_lookup:
  "map_of (reset_attempts key atts) client = (if client = key then None else map_of atts client)"
  by (induction atts) (auto simp: reset_attempts_def)

lemma login_attempts_after:
  "fst (login matches r w) = LoginStatus 400 \<and> login_attempts (snd (login matches r w)) = login_attempts w
 \<or> \<not> fst (reserve_attempt (lr_client r) (lr_now r) (login_attempts w))
    \<and> fst (login matches r w) = LoginStatus 429
    \<and> login_attempts (snd (login matches r w))
      = snd (reserve_attempt (lr_client r) (lr_now r) (login_attempts w))
 \<or> fst (reserve_attempt (lr_client r) (lr_now r) (login_attempts w))
    \<and> fst (login matches r w) \<notin> {LoginStatus 400, LoginStatus 429}
    \<and> (login_attempts (snd (login matches r w))
        = snd (reserve_attempt (lr_client r) (lr_now r) (login_attempts w))
      \<or> (\<exists>token csrf nxt. fst (login matches r w) = LoggedIn token csrf nxt)
        \<and> login_attempts (snd (login matches r w))
          = reset_attempts (lr_client r) (snd (reserve_attempt (lr_client r) (lr_now r) (login_attempts w))))"
  by (cases "reserve_attempt (lr_client r) (lr_now r) (login_attempts w)")
    (auto simp: login_def add_web_session_def Let_def split: option.splits sum.splits)

lemma protected_attempts [simp]: "login_attempts (snd (protected rq w)) = login_attempts w"
  using protected_state [of rq w] by (auto simp: remove_web_session_def)

lemma attempts_other:
  assumes "\<And>r. e \<noteq> Login r"
  shows "login_attempts (web_act matches e w) = login_attempts w"
proof (cases e)
  case (Logout rq)
  then show ?thesis using logout_outcome [of rq w] by (auto simp: remove_web_session_def)
next
  case (SetStatus rq name enabled conf)
  then show ?thesis
    using status_outcome [of rq name enabled conf w]
    by (auto simp: remove_username_def with_status_def split: if_splits)
next
  case (CreateAccount rq name r hash ok)
  then show ?thesis using create_outcome [of rq name r hash ok w] by auto
qed (use assms in simp_all)

text \<open>A login whose password was looked at, and how many of them a client gets in a run.\<close>

definition examined :: "(string \<Rightarrow> string \<Rightarrow> bool) \<Rightarrow> string \<Rightarrow> web_event \<Rightarrow> web \<Rightarrow> bool" where
  "examined matches client e w \<longleftrightarrow>
     (case e of
        Login r \<Rightarrow> lr_client r = client
          \<and> fst (login matches r w) \<notin> {LoginStatus 400, LoginStatus 429}
      | _ \<Rightarrow> False)"

definition succeeds :: "(string \<Rightarrow> string \<Rightarrow> bool) \<Rightarrow> string \<Rightarrow> web_event \<Rightarrow> web \<Rightarrow> bool" where
  "succeeds matches client e w \<longleftrightarrow>
     (case e of
        Login r \<Rightarrow> lr_client r = client
          \<and> (case fst (login matches r w) of LoggedIn _ _ _ \<Rightarrow> True | LoginStatus _ \<Rightarrow> False)
      | _ \<Rightarrow> False)"

fun examined_count ::
  "(string \<Rightarrow> string \<Rightarrow> bool) \<Rightarrow> string \<Rightarrow> web_event list \<Rightarrow> web \<Rightarrow> int" where
  "examined_count matches client [] w = 0"
| "examined_count matches client (e # es) w =
     (if examined matches client e w then 1 else 0)
     + examined_count matches client es (web_act matches e w)"

fun never_succeeds ::
  "(string \<Rightarrow> string \<Rightarrow> bool) \<Rightarrow> string \<Rightarrow> web_event list \<Rightarrow> web \<Rightarrow> bool" where
  "never_succeeds matches client [] w \<longleftrightarrow> True"
| "never_succeeds matches client (e # es) w \<longleftrightarrow>
     \<not> succeeds matches client e w \<and> never_succeeds matches client es (web_act matches e w)"

text \<open>The logins of a run come in the order of time, between \<open>now\<close> and \<open>t\<close>.\<close>

fun in_order :: "int \<Rightarrow> web_event list \<Rightarrow> int \<Rightarrow> bool" where
  "in_order now [] t \<longleftrightarrow> now \<le> t"
| "in_order now (Login r # es) t \<longleftrightarrow> now \<le> lr_now r \<and> in_order (lr_now r) es t"
| "in_order now (_ # es) t \<longleftrightarrow> in_order now es t"

definition login_clients :: "web_event list \<Rightarrow> string set" where
  "login_clients es = {lr_client r |r. Login r \<in> set es}"

definition keys_ok :: "string set \<Rightarrow> (string \<times> attempt) list \<Rightarrow> bool" where
  "keys_ok K atts \<longleftrightarrow> distinct (map fst atts) \<and> fst ` set atts \<subseteq> K"

lemma keys_ok_reserve:
  assumes "keys_ok K atts" and "key \<in> K" and "finite K" and "card K \<le> max_attempt_keys"
  shows "keys_ok K (snd (reserve_attempt key now atts))"
    and "keys_ok K (reset_attempts key (snd (reserve_attempt key now atts)))"
proof -
  have "reserve_attempt key now atts =
    (if att_count (current_attempt key now atts) \<ge> max_attempts then (False, atts)
     else (True, AList.update key
       ((current_attempt key now atts)\<lparr>att_count := att_count (current_attempt key now atts) + 1\<rparr>)
       (kept_attempts now atts)))"
    using assms by (intro reserve_small) (auto simp: keys_ok_def)
  then show ok: "keys_ok K (snd (reserve_attempt key now atts))"
    using assms(1,2)
    by (auto simp: keys_ok_def dom_update kept_attempts_def distinct_map_filter distinct_update)
  then show "keys_ok K (reset_attempts key (snd (reserve_attempt key now atts)))"
    by (auto simp: keys_ok_def reset_attempts_def distinct_map_filter)
qed

lemma throttle_reserve:
  assumes "throttle_inv t0 now client n atts" and "now \<le> now'" and "keys_ok K atts"
    and "key \<in> K" and "finite K" and "card K \<le> max_attempt_keys"
  shows "throttle_inv t0 now' client
      (n + (if key = client \<and> fst (reserve_attempt key now' atts) then 1 else 0))
      (snd (reserve_attempt key now' atts))"
proof -
  let ?c = "current_attempt key now' atts"
  have res: "reserve_attempt key now' atts =
    (if att_count ?c \<ge> max_attempts then (False, atts)
     else (True, AList.update key (?c\<lparr>att_count := att_count ?c + 1\<rparr>) (kept_attempts now' atts)))"
    using assms(3-6) by (intro reserve_small) (auto simp: keys_ok_def)
  have kept: "throttle_inv t0 now' client n (kept_attempts now' atts)"
    using throttle_later [OF assms(1,2) kept_lookup] assms(3) by (simp add: keys_ok_def)
  have same: "throttle_inv t0 now' client n atts"
    using throttle_later [OF assms(1,2), of atts] by simp
  show ?thesis
  proof (cases "att_count ?c \<ge> max_attempts")
    case True
    then show ?thesis using same res by simp
  next
    case free: False
    show ?thesis
    proof (cases "key = client")
      case True
      have "t0 \<le> now'" using assms(1,2) by (simp add: throttle_inv_def)
      then show ?thesis
        using throttle_current [OF assms(1,2)] free res True
        by (simp add: throttle_inv_def update_conv' max_attempts_def)
    next
      case False
      then show ?thesis
        using kept free res by (simp add: throttle_inv_def update_conv')
    qed
  qed
qed

lemma login_clients_Cons:
  "login_clients (e # es) \<subseteq> K \<Longrightarrow> login_clients es \<subseteq> K \<and> (\<forall>r. e = Login r \<longrightarrow> lr_client r \<in> K)"
  by (auto simp: login_clients_def)

lemma throttle_login:
  assumes inv: "throttle_inv t0 now client n (login_attempts w)" and later: "now \<le> lr_now r"
    and keys: "keys_ok K (login_attempts w)" "lr_client r \<in> K" "finite K" "card K \<le> max_attempt_keys"
    and fails: "\<not> succeeds matches client (Login r) w"
  shows "throttle_inv t0 (lr_now r) client
      (n + (if examined matches client (Login r) w then 1 else 0))
      (login_attempts (snd (login matches r w)))"
    and "keys_ok K (login_attempts (snd (login matches r w)))"
proof -
  let ?res = "reserve_attempt (lr_client r) (lr_now r) (login_attempts w)"
  let ?after = "login_attempts (snd (login matches r w))"
  note reserved = throttle_reserve [OF inv later keys]
  note kept = keys_ok_reserve [OF keys, of "lr_now r"]
  have unchanged: "throttle_inv t0 (lr_now r) client n (login_attempts w)"
    using throttle_later [OF inv later, of "login_attempts w"] by simp
  consider (bad) "fst (login matches r w) = LoginStatus 400" "?after = login_attempts w"
    | (full) "\<not> fst ?res" "fst (login matches r w) = LoginStatus 429" "?after = snd ?res"
    | (failed) "fst ?res" "fst (login matches r w) \<notin> {LoginStatus 400, LoginStatus 429}"
        "?after = snd ?res"
    | (done_) "fst ?res" "fst (login matches r w) \<notin> {LoginStatus 400, LoginStatus 429}"
        "lr_client r \<noteq> client" "?after = reset_attempts (lr_client r) (snd ?res)"
    using login_attempts_after [of matches r w] fails by (auto simp: succeeds_def)
  then have both: "throttle_inv t0 (lr_now r) client
      (n + (if examined matches client (Login r) w then 1 else 0)) ?after \<and> keys_ok K ?after"
  proof cases
    case bad
    then show ?thesis using unchanged keys(1) by (simp add: examined_def)
  next
    case full
    then show ?thesis using reserved kept by (simp add: examined_def)
  next
    case failed
    then show ?thesis using reserved kept by (simp add: examined_def)
  next
    case done_
    have "throttle_inv t0 (lr_now r) client n (reset_attempts (lr_client r) (snd ?res))"
    proof (rule throttle_later [OF _ order.refl])
      show "throttle_inv t0 (lr_now r) client n (snd ?res)" using reserved done_(3) by simp
    qed (use done_(3) in \<open>simp add: reset_lookup\<close>)
    then show ?thesis using done_ kept by (simp add: examined_def)
  qed
  then show "throttle_inv t0 (lr_now r) client
      (n + (if examined matches client (Login r) w then 1 else 0)) ?after"
    and "keys_ok K ?after" by simp_all
qed

lemma throttle_run:
  assumes "throttle_inv t0 now client n (login_attempts w)" and "in_order now es t"
    and "keys_ok K (login_attempts w)" and "login_clients es \<subseteq> K" and "finite K"
    and "card K \<le> max_attempt_keys" and "never_succeeds matches client es w"
  shows "n + examined_count matches client es w \<le> 5 * ((t - t0) div attempt_window + 1)"
  using assms(1-4,7)
proof (induction es arbitrary: now n w)
  case Nil
  then show ?case using throttle_bound by simp
next
  case (Cons e es)
  note clients = login_clients_Cons [OF Cons.prems(4)]
  show ?case
  proof (cases "\<exists>r. e = Login r")
    case True
    then obtain r where e: "e = Login r" by blast
    have order: "now \<le> lr_now r" "in_order (lr_now r) es t" using Cons.prems(2) e by simp_all
    have fails: "\<not> succeeds matches client (Login r) w"
      "never_succeeds matches client es (snd (login matches r w))"
      using Cons.prems(5) e by simp_all
    have in_K: "lr_client r \<in> K" and rest: "login_clients es \<subseteq> K" using clients e by simp_all
    note step = throttle_login [OF Cons.prems(1) order(1) Cons.prems(3) in_K assms(5,6) fails(1)]
    have "n + (if examined matches client (Login r) w then 1 else 0)
        + examined_count matches client es (snd (login matches r w))
        \<le> 5 * ((t - t0) div attempt_window + 1)"
      by (rule Cons.IH [OF step(1) order(2) step(2) rest fails(2)])
    then show ?thesis using e by simp
  next
    case False
    have "in_order now es t" using Cons.prems(2) False by (cases e) auto
    moreover have "\<not> examined matches client e w"
      using False by (cases e) (auto simp: examined_def)
    moreover have "login_attempts (web_act matches e w) = login_attempts w"
      using False by (intro attempts_other) blast
    ultimately show ?thesis
      using Cons.IH [of now n "web_act matches e w"] Cons.prems clients by simp
  qed
qed

section \<open>Where a redirect leads\<close>

text \<open>
  The header \<open>Location\<close> as Go writes it (line breaks become spaces) and as a browser reads a
  reference that begins with a slash: tabs and line breaks are removed first; two leading
  slashes or backslashes, in any mix, then begin the name of another host.
\<close>

abbreviation TAB :: char where "TAB \<equiv> CHR 0x09"

definition location_header :: "string \<Rightarrow> string" where
  "location_header v = map (\<lambda>c. if c \<in> {CHR 0x0D, CHR 0x0A} then CHR '' '' else c) v"

definition names_host :: "string \<Rightarrow> bool" where
  "names_host v \<longleftrightarrow>
     (case filter (\<lambda>c. c \<notin> {TAB, CHR 0x0D, CHR 0x0A}) v of
        a # b # _ \<Rightarrow> {a, b} \<subseteq> {CHR ''/'', CHR 0x5C}
      | _ \<Rightarrow> False)"

lemma names_host_header:
  "names_host (location_header v) \<longleftrightarrow>
     (case filter (\<lambda>c. c \<noteq> TAB) v of
        a # b # _ \<Rightarrow> {a, b} \<subseteq> {CHR ''/'', CHR 0x5C}
      | _ \<Rightarrow> False)"
proof -
  have "filter (\<lambda>c. c \<notin> {TAB, CHR 0x0D, CHR 0x0A}) (location_header v)
      = location_header (filter (\<lambda>c. c \<noteq> TAB) v)"
    by (induction v) (auto simp: location_header_def)
  then show ?thesis
    by (auto simp: names_host_def location_header_def split: list.splits)
qed

lemma filter_Cons_span:
  "filter (\<lambda>c. c \<noteq> z) v = a # rest \<longleftrightarrow>
     (\<exists>us w. v = us @ a # w \<and> set us \<subseteq> {z} \<and> a \<noteq> z \<and> rest = filter (\<lambda>c. c \<noteq> z) w)"
  by (auto simp: filter_eq_Cons_iff)

section \<open>Further properties\<close>

text \<open>
  C6. A disabled account is locked out. Once the account is disabled, and for as long as nobody
  enables it, no login under its name succeeds and no request passes the middlewares under its
  name, whatever sessions there were and whatever the directory says.
\<close>

theorem disabled_account_locked_out:
  assumes "disabled name (run_web matches es (fresh_web accs))" and "valid_username name"
    and "\<forall>e \<in> set later. \<not> enables name e"
    and "w = run_web matches (es @ later) (fresh_web accs)"
  shows "(fst (protected rq w) = Handle who \<longrightarrow> fst who \<noteq> name)
    \<and> (trim_space (lr_username r) = name \<longrightarrow> fst (login matches r w) \<noteq> LoggedIn token csrf nxt)"
proof -
  have "disabled name w"
    using disabled_run [OF assms(1,3)] assms(4) by (simp add: run_web_append)
  then show ?thesis
    using disabled_no_request disabled_no_login [of name w r matches token csrf nxt] assms(2) by blast
qed

text \<open>
  Logging out ends the session. After a logout that the middlewares let through, and for as
  long as no login draws the same random token again, every request with the token is sent to
  the login page.
\<close>

theorem logout_ends_session:
  assumes "fst (protected rq w) = Handle who" and "rq_session rq = Some token"
    and "\<forall>e \<in> set later. \<not> hands_out token e"
    and "rq_session rq' = Some token"
  shows "fst (protected rq' (run_web matches (Logout rq # later) w)) = ToLogin"
proof -
  obtain w' where "protected rq w = (Handle who, w')" using assms(1) by (cases "protected rq w") auto
  then have "logout rq w = remove_web_session token w'" by (simp add: logout_def assms(2))
  then have "token \<notin> fst ` set (web_sessions (logout rq w))" by auto
  from no_session_run [OF this assms(3)] show ?thesis
    using no_session_to_login [OF _ assms(4)] by simp
qed

text \<open>
  C25. The throttle of logins. While at most 4096 clients log in, and for as long as no login of a
  client succeeds, its passwords are looked at no more than five times per fifteen minutes
  begun, whatever the other clients do.
\<close>

theorem login_guesses_bounded:
  assumes "in_order t0 es t" and "card (login_clients es) \<le> max_attempt_keys"
    and "never_succeeds matches client es (fresh_web accs)"
  shows "examined_count matches client es (fresh_web accs)
    \<le> 5 * ((t - t0) div attempt_window + 1)"
proof -
  have "finite (login_clients es)"
  proof -
    have "login_clients es \<subseteq> (\<lambda>e. case e of Login r \<Rightarrow> lr_client r | _ \<Rightarrow> []) ` set es"
      by (force simp: login_clients_def)
    then show ?thesis by (rule finite_subset) simp
  qed
  moreover have "throttle_inv t0 t0 client 0 (login_attempts (fresh_web accs))"
    "keys_ok (login_clients es) (login_attempts (fresh_web accs))"
    by (simp_all add: throttle_inv_def keys_ok_def fresh_web_def)
  ultimately show ?thesis
    using throttle_run [OF _ assms(1) _ order.refl _ assms(2,3)] by fastforce
qed

text \<open>
  C40. The redirect after the login. The path that \<open>safeNext\<close> lets through stays on the site unless
  tabs stand between its first two slashes: a browser drops them, and what is left names
  another host. So a link to the login page can send its victim to any site after the login.
\<close>

theorem safe_next_tab_escapes:
  "names_host (location_header (safe_next v)) \<longleftrightarrow>
     (\<exists>tabs rest. tabs \<noteq> [] \<and> set tabs \<subseteq> {TAB} \<and> v = ''/'' @ tabs @ ''/'' @ rest
        \<and> CHR 0x5C \<notin> set v)"
proof (cases "safe_next v = v \<and> CHR 0x5C \<notin> set v \<and> prefix ''/'' v \<and> \<not> prefix ''//'' v")
  case True
  then obtain u where v: "v = CHR ''/'' # u" by (auto simp: prefix_def)
  have no_backslash: "filter (\<lambda>c. c \<noteq> TAB) u \<noteq> CHR 0x5C # rest" for rest
  proof
    assume "filter (\<lambda>c. c \<noteq> TAB) u = CHR 0x5C # rest"
    then have "CHR 0x5C \<in> set (filter (\<lambda>c. c \<noteq> TAB) u)" by simp
    then show False using True v by simp
  qed
  have "names_host (location_header v) \<longleftrightarrow>
      (\<exists>rest. filter (\<lambda>c. c \<noteq> TAB) u = CHR ''/'' # rest)"
    using True no_backslash unfolding names_host_header v by (auto split: list.splits)
  also have "\<dots> \<longleftrightarrow> (\<exists>tabs rest. set tabs \<subseteq> {TAB} \<and> u = tabs @ CHR ''/'' # rest)"
    unfolding filter_Cons_span by auto
  also have "\<dots> \<longleftrightarrow> (\<exists>tabs rest. tabs \<noteq> [] \<and> set tabs \<subseteq> {TAB} \<and> u = tabs @ CHR ''/'' # rest)"
    using True unfolding v by (metis append_Nil append_Cons prefix_def)
  finally show ?thesis using True v by auto
next
  case False
  have "safe_next v = ''/dashboard''"
    using False by (auto simp: safe_next_def)
  moreover have "\<not> (\<exists>tabs rest. tabs \<noteq> [] \<and> set tabs \<subseteq> {TAB} \<and> v = ''/'' @ tabs @ ''/'' @ rest
        \<and> CHR 0x5C \<notin> set v)"
  proof
    assume "\<exists>tabs rest. tabs \<noteq> [] \<and> set tabs \<subseteq> {TAB} \<and> v = ''/'' @ tabs @ ''/'' @ rest
        \<and> CHR 0x5C \<notin> set v"
    then obtain tabs rest where "tabs \<noteq> []" "set tabs \<subseteq> {TAB}" "v = ''/'' @ tabs @ ''/'' @ rest"
      "CHR 0x5C \<notin> set v" by blast
    then show False using False by (cases tabs) (auto simp: safe_next_def)
  qed
  ultimately show ?thesis by (simp add: names_host_header)
qed

text \<open>
  A directory name outside the pattern. The login asks the directory about a name that no
  local account may have; when the directory accepts it, the login hands out a session with
  which every protected request fails with status 503, the logout among them, until it expires.
\<close>

theorem foreign_name_unusable:
  assumes "fst (login matches r w) = LoggedIn token csrf nxt"
    and "\<not> valid_username (trim_space (lr_username r))"
    and "rq_session rq = Some token" and "rq_now rq < lr_now r + session_lifetime"
  shows "protected rq (snd (login matches r w)) = (GateStatus 503, snd (login matches r w))"
proof -
  obtain found where "trim_space (lr_username r) \<noteq> []"
    "web_sessions (snd (login matches r w)) = AList.update token (login_session r csrf found)
        (filter (\<lambda>(k, v). lr_now r < ends_at v) (web_sessions w))"
    using login_outcome [of matches r w] assms(1) by auto
  then have "session_identity token (rq_now rq) (snd (login matches r w))
      = Some (trim_space (lr_username r), session_role (login_session r csrf found))"
    using assms(4) by (simp add: session_identity_def update_conv' login_session_def)
  then show ?thesis
    using assms(2,3) by (simp add: protected_def require_authentication_def get_account_def)
qed

section \<open>Witnesses\<close>

definition example_accounts :: "(string \<times> account) list" where
  "example_accounts =
     [(''admin'', \<lparr>acc_hash = ''h1'', acc_role = RoleAdmin, acc_enabled = True\<rparr>),
      (''bob'', \<lparr>acc_hash = ''h2'', acc_role = RoleUser, acc_enabled = False\<rparr>)]"

definition example_matches :: "string \<Rightarrow> string \<Rightarrow> bool" where
  "example_matches hash password \<longleftrightarrow> (hash, password) \<in> {(''h1'', ''secret''), (''h2'', ''hidden'')}"

definition example_login :: login_request where
  "example_login =
     \<lparr>lr_now = 100, lr_client = ''10.0.0.1'', lr_username = '' admin'', lr_password = ''secret'',
      lr_next = ''/slurm/nodes'', lr_ldap = Some False, lr_token = Some ''t'', lr_csrf = Some ''c'',
      lr_db_ok = True, lr_audit_ok = True\<rparr>"

definition example_request :: request where
  "example_request =
     \<lparr>rq_now = 200, rq_session = Some ''t'', rq_csrf = Some ''c'', rq_header = [], rq_form = ''c'',
      rq_multipart = False, rq_safe = False, rq_admin_route = True, rq_db_ok = True\<rparr>"

lemma example_handled:
  "fst (protected example_request
     (run_web example_matches [Login example_login] (fresh_web example_accounts)))
   = Handle (''admin'', RoleAdmin)"
  by code_simp

lemma handled_request_has_login_witness:
  "\<exists>r token csrf. [Login example_login] = [Login r] \<and> rq_session example_request = Some token
     \<and> fst (login example_matches r (fresh_web example_accounts))
       = LoggedIn token csrf (safe_next (lr_next r))
     \<and> rq_now example_request < lr_now r + session_lifetime"
proof -
  from handled_request_has_login [OF example_handled]
  obtain es1 r es2 token csrf where "[Login example_login] = es1 @ Login r # es2"
    "fst (login example_matches r (run_web example_matches es1 (fresh_web example_accounts)))
      = LoggedIn token csrf (safe_next (lr_next r))"
    "rq_session example_request = Some token" "rq_now example_request < lr_now r + session_lifetime"
    by blast
  then show ?thesis by (cases es1) auto
qed

lemma disabled_account_locked_out_witness:
  "fst (login example_matches (example_login\<lparr>lr_username := ''bob'', lr_password := ''hidden''\<rparr>)
      (run_web example_matches ([] @ [Login example_login]) (fresh_web example_accounts)))
   \<noteq> LoggedIn ''t'' ''c'' ''/slurm/nodes''"
proof -
  let ?r = "example_login\<lparr>lr_username := ''bob'', lr_password := ''hidden''\<rparr>"
  have bob: "disabled ''bob'' (run_web example_matches [] (fresh_web example_accounts))"
    by (simp add: disabled_def fresh_web_def example_accounts_def)
  have valid: "valid_username ''bob''" and name: "trim_space (lr_username ?r) = ''bob''"
    by code_simp+
  have later: "\<forall>e \<in> set [Login example_login]. \<not> enables ''bob'' e"
    by (simp add: enables_def)
  show ?thesis
    using disabled_account_locked_out [OF bob valid later refl, where r = ?r] name by blast
qed

lemma logout_ends_session_witness:
  "fst (protected example_request (run_web example_matches [Logout example_request]
      (run_web example_matches [Login example_login] (fresh_web example_accounts)))) = ToLogin"
proof -
  have "rq_session example_request = Some ''t''" by (simp add: example_request_def)
  then show ?thesis
    using logout_ends_session [OF example_handled, of "''t''" "[]" example_request example_matches]
    by (simp del: run_web.simps)
qed

lemma login_guesses_bounded_witness:
  "examined_count example_matches ''10.0.0.1''
     (replicate 7 (Login (example_login\<lparr>lr_password := ''guess''\<rparr>))) (fresh_web example_accounts) \<le> 5"
proof -
  let ?es = "replicate 7 (Login (example_login\<lparr>lr_password := ''guess''\<rparr>))"
  have "in_order 100 ?es 100" by code_simp
  moreover have "login_clients ?es \<subseteq> {''10.0.0.1''}"
    by (auto simp: login_clients_def example_login_def)
  then have "card (login_clients ?es) \<le> card {''10.0.0.1''}" by (intro card_mono) simp_all
  then have "card (login_clients ?es) \<le> max_attempt_keys" by (simp add: max_attempt_keys_def)
  moreover have "\<not> succeeds example_matches ''10.0.0.1''
      (Login (example_login\<lparr>lr_password := ''guess''\<rparr>)) w" for w
    using login_outcome [of example_matches "example_login\<lparr>lr_password := ''guess''\<rparr>" w]
    by (auto simp: succeeds_def accepts_def example_matches_def example_login_def split: option.splits)
  then have "never_succeeds example_matches ''10.0.0.1'' (replicate n
      (Login (example_login\<lparr>lr_password := ''guess''\<rparr>))) w" for n w
    by (induction n arbitrary: w) simp_all
  ultimately show ?thesis using login_guesses_bounded by fastforce
qed

lemma foreign_name_unusable_witness:
  "fst (protected example_request (snd (login example_matches
      (example_login\<lparr>lr_username := ''a@b'', lr_ldap := Some True\<rparr>) (fresh_web example_accounts))))
   = GateStatus 503"
proof -
  let ?r = "example_login\<lparr>lr_username := ''a@b'', lr_ldap := Some True\<rparr>"
  have "fst (login example_matches ?r (fresh_web example_accounts)) = LoggedIn ''t'' ''c'' ''/slurm/nodes''"
    by code_simp
  moreover have "\<not> valid_username (trim_space (lr_username ?r))" by code_simp
  moreover have "rq_now example_request < lr_now ?r + session_lifetime" by code_simp
  moreover have "rq_session example_request = Some ''t''" by (simp add: example_request_def)
  ultimately show ?thesis by (simp add: foreign_name_unusable)
qed

end
