(* ===== verification/AuditLog.thy ===== *)
theory AuditLog
  imports Prelude
begin

text \<open>
  The audit log: its table (\<open>internal/platform/audit.go\<close>) and its page (\<open>auditLog\<close> of
  \<open>internal/web/app.go\<close> with \<open>templates/audit.html\<close>). The table is a list of rows with the
  counter behind \<open>AUTOINCREMENT\<close>; a transaction commits or leaves both as they were, and
  \<open>db_ok\<close> tells which. Times are numbers; the round trip of a time through its text is left
  out.
\<close>

section \<open>The table\<close>

record audit_event =
  actor :: string
  action :: string
  outcome :: string
  created_at :: int

type_synonym audit_row = "int \<times> audit_event"

record audit_store =
  next_id :: int
  audit_rows :: "audit_row list"

definition max_audit_events :: nat where
  "max_audit_events = 100000"

definition max_id :: "audit_row list \<Rightarrow> int" where
  \<comment> \<open>\<open>COALESCE(MAX(id), 0)\<close>\<close>
  "max_id rows = (if rows = [] then 0 else Max (fst ` set rows))"

definition record_event :: "bool \<Rightarrow> audit_event \<Rightarrow> audit_store \<Rightarrow> bool \<times> audit_store" where
  "record_event db_ok ev s =
     (if \<not> db_ok \<or> next_id s > int64_max then (False, s)
      else
        let rows = audit_rows s @ [(next_id s, ev)]
        in (True,
            \<lparr>next_id = next_id s + 1,
             audit_rows =
               filter (\<lambda>(i, e). \<not> i \<le> max_id rows - int max_audit_events) rows\<rparr>))"

record audit_page =
  page_events :: "audit_row list"
  next_before_id :: int
  has_more :: bool

definition empty_page :: audit_page where
  "empty_page = \<lparr>page_events = [], next_before_id = 0, has_more = False\<rparr>"

definition list_events :: "bool \<Rightarrow> int \<Rightarrow> int \<Rightarrow> audit_store \<Rightarrow> audit_page option" where
  "list_events db_ok before limit s =
     (if before < 0 \<or> limit < 1 \<or> limit > 100 \<or> \<not> db_ok then None
      else
        let newest_first = rev (sort_key fst
              (if before > 0 then filter (\<lambda>(i, e). i < before) (audit_rows s) else audit_rows s));
            events = take (nat (limit + 1)) newest_first
        in if length events > nat limit
           then let shown = take (nat limit) events
                in Some \<lparr>page_events = shown, next_before_id = fst (last shown), has_more = True\<rparr>
           else Some \<lparr>page_events = events, next_before_id = 0, has_more = False\<rparr>)"

section \<open>The page\<close>

definition audit_page_size :: int where
  "audit_page_size = 50"

definition parse_audit_cursor :: "string \<Rightarrow> int option" where
  "parse_audit_cursor v =
     (if v = [] then Some 0
      else if length v > 19 \<or> hd v = CHR ''0'' then None
      else if \<not> list_all is_digit v then None
      else case parse_int64 v of
          None \<Rightarrow> None
        | Some cursor \<Rightarrow> if cursor \<le> 0 then None else Some cursor)"

record audit_view =
  view_events :: "audit_row list"
  view_available :: bool
  older_cursor :: "string option"
    \<comment> \<open>what follows \<open>/audit?before_id=\<close> in the link to older events, if the page has one\<close>

definition render_audit :: "bool \<Rightarrow> audit_page \<Rightarrow> audit_view" where
  "render_audit available page =
     \<lparr>view_events = (if available then page_events page else []),
      view_available = available,
      older_cursor =
        (if available \<and> page_events page \<noteq> [] \<and> has_more page
         then Some (dec_int (next_before_id page)) else None)\<rparr>"

definition audit_log :: "bool \<Rightarrow> string \<Rightarrow> audit_store \<Rightarrow> nat + audit_view" where
  \<comment> \<open>\<open>Inl\<close> a status\<close>
  "audit_log db_ok before_id s =
     (case parse_audit_cursor before_id of
        None \<Rightarrow> Inl 400
      | Some before \<Rightarrow>
          (case list_events db_ok before audit_page_size s of
             None \<Rightarrow> Inr (render_audit False empty_page)
           | Some page \<Rightarrow> Inr (render_audit True page)))"

section \<open>What the table holds\<close>

definition new_audit_store :: audit_store where
  "new_audit_store = \<lparr>next_id = 1, audit_rows = []\<rparr>"

fun record_all :: "(bool \<times> audit_event) list \<Rightarrow> audit_store \<Rightarrow> audit_store" where
  "record_all [] s = s"
| "record_all ((ok, ev) # es) s = record_all es (snd (record_event ok ev s))"

definition number_from :: "int \<Rightarrow> audit_event list \<Rightarrow> audit_row list" where
  "number_from k evs = zip (map (\<lambda>i. k + int i) [0..<length evs]) evs"

definition newest :: "nat \<Rightarrow> 'a list \<Rightarrow> 'a list" where
  "newest n xs = drop (length xs - n) xs"

text \<open>
  The contract: the table holds the newest of the events recorded so far, numbered from 1 in the
  order of their recording.
\<close>

definition holds_newest :: "audit_store \<Rightarrow> audit_event list \<Rightarrow> bool" where
  "holds_newest s evs \<longleftrightarrow>
     next_id s = int (length evs) + 1
   \<and> audit_rows s = newest max_audit_events (number_from 1 evs)"

lemma length_number_from [simp]: "length (number_from k evs) = length evs"
  by (simp add: number_from_def)

lemma number_from_snoc:
  "number_from k (evs @ [e]) = number_from k evs @ [(k + int (length evs), e)]"
  by (simp add: number_from_def)

lemma number_from_nth: "i < length evs \<Longrightarrow> number_from k evs ! i = (k + int i, evs ! i)"
  by (simp add: number_from_def)

lemma ids_number_from: "map fst (number_from k evs) = map (\<lambda>i. k + int i) [0..<length evs]"
  by (simp add: number_from_def)

lemma ids_newest:
  "map fst (newest n (number_from k evs))
     = map (\<lambda>i. k + int i) [length evs - n..<length evs]"
  by (simp add: newest_def drop_map [symmetric] ids_number_from) (simp add: drop_map)

text \<open>Deleting the rows up to a bound deletes a prefix.\<close>

lemma filter_number_from:
  "filter (\<lambda>(i, x). \<not> i \<le> z) (number_from 1 evs) = drop (nat z) (number_from 1 evs)"
proof -
  let ?P = "\<lambda>(i, x). \<not> i \<le> z" and ?zs = "number_from 1 evs"
  have "filter ?P (take (nat z) ?zs) = []"
    by (auto simp: filter_empty_conv in_set_conv_nth number_from_nth)
  moreover have "filter ?P (drop (nat z) ?zs) = drop (nat z) ?zs"
    by (auto simp: filter_id_conv in_set_conv_nth number_from_nth split: if_splits)
  ultimately show ?thesis
    by (metis (no_types, lifting) append_Nil append_take_drop_id filter_append)
qed

lemma newest_number_snoc:
  "newest n (number_from 1 (evs @ [e]))
     = filter (\<lambda>(i, x). \<not> i \<le> int (length evs) + 1 - int n)
         (newest n (number_from 1 evs) @ [(int (length evs) + 1, e)])"
proof -
  let ?z = "int (length evs) + 1 - int n" and ?zs = "number_from 1 evs"
  let ?P = "\<lambda>(i, x). \<not> i \<le> ?z"
  have "?P e'" if "e' \<in> set (drop (nat ?z) ?zs)" for e'
    using that unfolding filter_number_from [symmetric] by simp
  moreover have "newest n ?zs = drop (length evs - n) ?zs"
    by (simp add: newest_def)
  moreover have "filter ?P (take (length evs - n) ?zs) = []"
    by (auto simp: filter_empty_conv in_set_conv_nth number_from_nth)
  ultimately have "filter ?P (newest n ?zs) = filter ?P ?zs"
    by (metis (no_types, lifting) append_Nil append_take_drop_id filter_append)
  then have "filter ?P (newest n ?zs @ [(int (length evs) + 1, e)])
      = filter ?P (number_from 1 (evs @ [e]))"
    by (simp add: number_from_snoc add.commute)
  moreover have "nat ?z = Suc (length evs) - n" by simp
  ultimately show ?thesis
    unfolding filter_number_from by (simp add: newest_def)
qed

lemma max_id_newest:
  "max_id (newest n (number_from 1 evs) @ [(int (length evs) + 1, e)]) = int (length evs) + 1"
proof -
  let ?rows = "newest n (number_from 1 evs) @ [(int (length evs) + 1, e)]"
  have "fst ` set (newest n (number_from 1 evs)) = set (map fst (newest n (number_from 1 evs)))"
    by simp
  then have "Max (fst ` set ?rows) = int (length evs) + 1"
    unfolding ids_newest by (intro Max_eqI) auto
  then show ?thesis by (simp add: max_id_def)
qed

lemma record_holds_newest:
  assumes "holds_newest s evs"
  shows "holds_newest (snd (record_event ok ev s))
      (if ok \<and> int (length evs) < int64_max then evs @ [ev] else evs)"
  using assms
  by (auto simp: record_event_def holds_newest_def Let_def max_id_newest newest_number_snoc)


definition recorded :: "(bool \<times> audit_event) list \<Rightarrow> audit_event list" where
  "recorded es = map snd (filter fst es)"

lemma recorded_simps [simp]:
  "recorded [] = []" "recorded ((ok, ev) # es) = (if ok then [ev] else []) @ recorded es"
  by (simp_all add: recorded_def)

lemma length_recorded: "length (recorded es) \<le> length es"
  by (simp add: recorded_def)

lemma record_all_holds_newest:
  "holds_newest s evs \<Longrightarrow> int (length evs + length es) \<le> int64_max \<Longrightarrow>
   holds_newest (record_all es s) (evs @ recorded es)"
proof (induction es arbitrary: s evs)
  case (Cons e es)
  obtain ok ev where e: "e = (ok, ev)" by (cases e)
  have "holds_newest (snd (record_event ok ev s)) (evs @ (if ok then [ev] else []))"
    using record_holds_newest [OF Cons.prems(1), of ok ev] Cons.prems(2) by (cases ok) auto
  then show ?case using Cons.IH Cons.prems(2) e by (cases ok) fastforce+
qed simp

lemma empty_holds_newest: "holds_newest new_audit_store []"
  by (simp add: holds_newest_def new_audit_store_def newest_def number_from_def)

text \<open>
  C27. Recording refines an unbounded log. After any sequence of records, some of which fail, the
  table holds the last 100000 of the events whose record succeeded, in their order, under
  consecutive numbers that start at 1 and are never given out twice.
\<close>

theorem audit_keeps_newest:
  assumes "int (length es) \<le> int64_max"
  shows "audit_rows (record_all es new_audit_store)
    = newest max_audit_events (number_from 1 (recorded es))"
  using record_all_holds_newest [OF empty_holds_newest, of es] assms
  by (simp add: holds_newest_def)

theorem audit_keeps_newest_witness:
  "audit_rows (record_all
       [(True, \<lparr>actor = ''a'', action = ''auth.login'', outcome = ''success'', created_at = 1\<rparr>),
        (False, \<lparr>actor = ''b'', action = ''auth.login'', outcome = ''success'', created_at = 2\<rparr>),
        (True, \<lparr>actor = ''c'', action = ''auth.login'', outcome = ''denied'', created_at = 3\<rparr>)]
       new_audit_store)
   = [(1, \<lparr>actor = ''a'', action = ''auth.login'', outcome = ''success'', created_at = 1\<rparr>),
      (2, \<lparr>actor = ''c'', action = ''auth.login'', outcome = ''denied'', created_at = 3\<rparr>)]"
  by (subst audit_keeps_newest)
    (simp_all add: int64_max_def newest_def number_from_def max_audit_events_def upt_rec)

section \<open>What the pages show\<close>

text \<open>The older part of the table, as a page finds it.\<close>

lemma sorted_number_from: "sorted (map fst (number_from k evs))"
  by (simp add: ids_number_from sorted_map sorted_wrt_upt)

lemma older_rows:
  "filter (\<lambda>(i, e). i < int k + 1) (newest n (number_from 1 evs))
     = drop (length evs - n) (take k (number_from 1 evs))"
proof -
  let ?P = "\<lambda>(i :: int, e :: audit_event). i < int k + 1" and ?zs = "number_from 1 evs"
  have "?P x" if "x \<in> set (take k ?zs)" for x
    using that by (auto simp: in_set_conv_nth number_from_nth)
  then have "filter ?P (drop m (take k ?zs)) = drop m (take k ?zs)" for m
    by (simp add: filter_id_conv in_set_dropD)
  moreover have "\<not> ?P x" if "x \<in> set (drop k ?zs)" for x
    using that by (auto simp: in_set_conv_nth number_from_nth)
  then have "filter ?P (drop m (drop k ?zs)) = []" for m
    by (metis (no_types, lifting) filter_False in_set_dropD)
  moreover have "drop m ?zs = drop m (take k ?zs) @ drop (m - length (take k ?zs)) (drop k ?zs)" for m
    by (metis append_take_drop_id drop_append)
  ultimately have "filter ?P (drop m ?zs) = drop m (take k ?zs)" for m
    by (metis append_Nil2 filter_append)
  then show ?thesis by (simp add: newest_def)
qed

lemma list_events_page:
  assumes "holds_newest s evs" and "before = 0 \<and> k = length evs \<or> before = int k + 1"
    and "k \<le> length evs"
  shows "list_events True before audit_page_size s
    = Some (let old = drop (length evs - max_audit_events) (take k (number_from 1 evs))
            in if length old > 50
               then \<lparr>page_events = take 50 (rev old), next_before_id = int (k - 50) + 1,
                     has_more = True\<rparr>
               else \<lparr>page_events = rev old, next_before_id = 0, has_more = False\<rparr>)"
proof -
  let ?old = "drop (length evs - max_audit_events) (take k (number_from 1 evs))"
  have sel: "(if before > 0 then filter (\<lambda>(i, e). i < before) (audit_rows s) else audit_rows s) = ?old"
    using assms by (auto simp: holds_newest_def older_rows [simplified]) (simp add: newest_def)
  have "sorted (map fst ?old)"
    using sorted_number_from [of 1 evs]
    by (simp add: drop_map [symmetric] take_map [symmetric] sorted_wrt_drop sorted_wrt_take)
  then have "sort_key fst ?old = ?old" by (rule sort_key_id_if_sorted)
  moreover have "fst (last (take 50 (rev ?old))) = int (k - 50) + 1" if "length ?old > 50"
  proof -
    have "take 50 (rev ?old) \<noteq> []" using that by auto
    then have "last (take 50 (rev ?old)) = rev ?old ! 49"
      using that by (simp add: last_conv_nth)
    also have "\<dots> = number_from 1 evs ! (k - 50)"
      using that assms(3) by (simp add: rev_nth nth_append)
    finally show ?thesis using that assms(3) by (simp add: number_from_nth)
  qed
  moreover have "0 \<le> before" using assms(2) by auto
  ultimately show ?thesis
    unfolding list_events_def sel audit_page_size_def Let_def by auto
qed


text \<open>
  A reader opens \<open>/audit\<close> and follows the link to older events, page after page. Before each
  further page other requests may record events: the lists of the second argument, one for each
  page the reader is willing to open.
\<close>

fun audit_walk :: "string \<Rightarrow> (bool \<times> audit_event) list list \<Rightarrow> audit_store \<Rightarrow> audit_row list" where
  "audit_walk cursor [] s = []"
| "audit_walk cursor (es # later) s =
     (case audit_log True cursor s of
        Inl status \<Rightarrow> []
      | Inr view \<Rightarrow>
          view_events view
          @ (case older_cursor view of
               None \<Rightarrow> []
             | Some older \<Rightarrow> audit_walk older later (record_all es s)))"

lemma parse_audit_cursor_link:
  assumes "0 < i" and "i \<le> int64_max"
  shows "parse_audit_cursor (dec_int i) = Some i"
proof -
  have eq: "dec_int i = dec (nat i)" using assms(1) by (simp add: dec_int_def)
  have "nat i < 10 ^ 19" using assms by (simp add: int64_max_def nat_less_iff)
  then have "length (dec (nat i)) \<le> 19" by (rule length_dec) simp
  moreover have "hd (dec (nat i)) \<noteq> CHR ''0''" using assms(1) by (simp add: hd_dec)
  ultimately show ?thesis
    using assms dec_digits [of "nat i"]
    by (simp add: parse_audit_cursor_def eq parse_int64_dec list_all_iff)
qed

lemma drop_min_take:
  assumes "i \<le> k" and "k \<le> length zs"
  shows "drop (min j i) (take k zs) = drop j (take i zs) @ drop i (take k zs)"
proof -
  have "take k zs = take i zs @ drop i (take k zs)"
    using assms(1) by (metis append_take_drop_id min.absorb1 take_take)
  then obtain rest where rest: "take k zs = take i zs @ rest" "drop i (take k zs) = rest"
    by blast
  show ?thesis
    unfolding rest(2) unfolding rest(1) using assms by (cases "j \<le> i") (simp_all add: min_def)
qed

lemma audit_walk_from:
  assumes "holds_newest s evs" and "k \<le> length evs"
    and "parse_audit_cursor cursor = Some before"
    and "before = 0 \<and> k = length evs \<or> before = int k + 1"
    and "int (length evs + length (concat ess)) \<le> int64_max"
    and "k - (length evs - max_audit_events) < 50 * length ess"
  shows "\<exists>j. length evs - max_audit_events \<le> j
    \<and> j \<le> length evs + length (concat ess) - max_audit_events
    \<and> audit_walk cursor ess s = rev (drop j (take k (number_from 1 evs)))"
  using assms
proof (induction ess arbitrary: s evs k cursor before)
  case (Cons es later)
  let ?L = "length evs - max_audit_events" and ?zs = "number_from 1 evs"
  let ?old = "drop ?L (take k ?zs)"
  note page = list_events_page [OF Cons.prems(1,4,2), unfolded Let_def]
  show ?case
  proof (cases "length ?old > 50")
    case False
    then have "audit_walk cursor (es # later) s = rev ?old"
      using page Cons.prems(3)
      by (simp add: audit_log_def render_audit_def)
    then show ?thesis by (intro exI [of _ ?L]) (auto intro: diff_le_mono)
  next
    case True
    then have k: "50 < k" "k - 50 \<le> length evs" using Cons.prems(2) by auto
    let ?evs = "evs @ recorded es" and ?s = "record_all es s" and ?b = "int (k - 50) + 1"
    have nonempty: "?old \<noteq> []" using True by auto
    have walk: "audit_walk cursor (es # later) s
        = take 50 (rev ?old) @ audit_walk (dec_int ?b) later ?s"
      using page True nonempty Cons.prems(3)
      by (simp add: audit_log_def render_audit_def del: drop_eq_Nil)
    have "holds_newest ?s ?evs"
      using Cons.prems(5) by (intro record_all_holds_newest [OF Cons.prems(1)]) simp
    moreover have "k - 50 \<le> length ?evs" using k by simp
    moreover have "parse_audit_cursor (dec_int ?b) = Some ?b"
      using Cons.prems(2,5) k by (intro parse_audit_cursor_link) auto
    moreover have "int (length ?evs + length (concat later)) \<le> int64_max"
      using Cons.prems(5) length_recorded [of es] by simp
    moreover have "k - 50 - (length ?evs - max_audit_events) < 50 * length later"
      using Cons.prems(6) True k by simp
    ultimately obtain j where j: "length ?evs - max_audit_events \<le> j"
      "j \<le> length ?evs + length (concat later) - max_audit_events"
      "audit_walk (dec_int ?b) later ?s = rev (drop j (take (k - 50) (number_from 1 ?evs)))"
      using Cons.IH [of ?s ?evs "k - 50" "dec_int ?b" ?b] by auto
    have pre: "take (k - 50) (number_from 1 ?evs) = take (k - 50) ?zs"
      using k by (simp add: number_from_def take_zip take_map)
    have old: "take 50 (rev ?old) = rev (drop (k - 50) (take k ?zs))"
      using True Cons.prems(2) k by (simp add: take_rev)
    have cut: "drop (min j (k - 50)) (take k ?zs)
        = drop j (take (k - 50) ?zs) @ drop (k - 50) (take k ?zs)"
      using Cons.prems(2) by (intro drop_min_take) simp_all
    have "audit_walk cursor (es # later) s = rev (drop (min j (k - 50)) (take k ?zs))"
      unfolding walk j(3) pre old cut by simp
    moreover have "min j (k - 50) \<le> length evs + length (concat (es # later)) - max_audit_events"
      using j(2) length_recorded [of es] by simp
    moreover have "?L \<le> min j (k - 50)"
      using j(1) True by (simp, linarith)
    ultimately show ?thesis by blast
  qed
qed simp

text \<open>
  C14. Reading the log to its end. From any state of the table the reader who opens the log and
  follows the links to older events sees the retained events newest first, each once and
  none left out, whatever other requests record in the meantime; only events that those
  records push out of the table before the reader gets to them are missed, and they are the
  oldest ones.
\<close>

theorem audit_walk_complete:
  assumes "s = record_all history new_audit_store"
    and "int (length history + length (concat ess)) \<le> int64_max"
    and "length (audit_rows s) < 50 * length ess"
  shows "\<exists>j \<le> (length (audit_rows s) + length (concat ess)) - max_audit_events.
    audit_walk '''' ess s = rev (drop j (audit_rows s))"
proof -
  let ?evs = "recorded history" and ?L = "length (recorded history) - max_audit_events"
  have holds: "holds_newest s ?evs"
    unfolding assms(1) using record_all_holds_newest [OF empty_holds_newest, of history] assms(2)
    by simp
  then have rows: "audit_rows s = drop ?L (number_from 1 ?evs)"
    by (simp add: holds_newest_def newest_def)
  moreover have "int (length ?evs + length (concat ess)) \<le> int64_max"
    using assms(2) length_recorded [of history] by simp
  ultimately obtain j where j: "?L \<le> j"
    "j \<le> length ?evs + length (concat ess) - max_audit_events"
    "audit_walk '''' ess s = rev (drop j (number_from 1 ?evs))"
    using audit_walk_from [OF holds le_refl, of "''''" 0 ess] assms(3)
    by (auto simp: parse_audit_cursor_def)
  have "audit_walk '''' ess s = rev (drop (j - ?L) (audit_rows s))"
    unfolding rows j(3) using j(1) by simp
  moreover have "j - ?L \<le> length (audit_rows s) + length (concat ess) - max_audit_events"
    using j(1,2) unfolding rows by simp
  ultimately show ?thesis by blast
qed

theorem audit_walk_complete_witness:
  "let e = \<lparr>actor = ''a'', action = ''auth.login'', outcome = ''success'', created_at = 1\<rparr>;
       s = record_all [(True, e), (False, e), (True, e)] new_audit_store
   in audit_walk '''' [[(True, e)], []] s = [(2, e), (1, e)]"
proof -
  define e where
    "e = \<lparr>actor = ''a'', action = ''auth.login'', outcome = ''success'', created_at = 1\<rparr>"
  define s where "s = record_all [(True, e), (False, e), (True, e)] new_audit_store"
  have rows: "audit_rows s = [(1, e), (2, e)]"
    by (simp add: s_def record_event_def new_audit_store_def int64_max_def max_id_def
        max_audit_events_def)
  have "\<exists>j \<le> length (audit_rows s) + length (concat [[(True, e)], []]) - max_audit_events.
    audit_walk '''' [[(True, e)], []] s = rev (drop j (audit_rows s))"
    by (rule audit_walk_complete [OF s_def]) (simp_all add: int64_max_def rows)
  then have "audit_walk '''' [[(True, e)], []] s = [(2, e), (1, e)]"
    by (simp add: max_audit_events_def rows)
  then show ?thesis by (simp add: Let_def e_def s_def)
qed

end
