(* ===== verification/OutputTail.thy ===== *)
theory OutputTail
  imports Utf8
begin

text \<open>
  Reading a job's output file on the server (\<open>readJobOutput\<close> and below in
  \<open>internal/web/job_output.go\<close>, and the process that reads as the job's user,
  \<open>internal/web/job_output_fsuid_linux.go\<close>): which paths are accepted, how the file is opened
  without following a link, which bytes of it are read and how they are made text, and how the
  reading process hands them back.

  The file tree is a value; what the kernel's permission checks say for the reading identity is
  the parameter \<open>may\<close>, at which length each \<open>read\<close> returns is the parameter \<open>short\<close>, and \<open>fault\<close>
  says which read fails. Failures of \<open>seek\<close>, \<open>fcntl\<close> and of starting the process are left out.
\<close>

datatype output_error = Unavailable | CannotOpen | ReadFault | ProcessError

section \<open>Paths\<close>

text \<open>\<open>filepath.Clean\<close> of a path that starts with the separator.\<close>

fun clean_step :: "string list \<Rightarrow> string \<Rightarrow> string list" where
  "clean_step stack c =
     (if c = '''' \<or> c = ''.'' then stack
      else if c = ''..'' then (if stack = [] then [] else butlast stack)
      else stack @ [c])"

definition clean_rooted :: "string \<Rightarrow> string" where
  "clean_rooted p = CHR ''/'' # join_str ''/'' (foldl clean_step [] (split_str ''/'' (tl p)))"

definition is_abs :: "string \<Rightarrow> bool" where
  "is_abs p \<longleftrightarrow> p \<noteq> [] \<and> hd p = CHR ''/''"

definition valid_job_output_path :: "string \<Rightarrow> bool" where
  "valid_job_output_path p \<longleftrightarrow> is_abs p \<and> clean_rooted p = p \<and> p \<noteq> ''/''"

definition plain_component :: "string \<Rightarrow> bool" where
  "plain_component c \<longleftrightarrow> c \<noteq> '''' \<and> c \<noteq> ''.'' \<and> c \<noteq> ''..''"

section \<open>Opening\<close>

datatype fs_node =
  Directory "(string \<times> fs_node) list"
| Regular string
| Symlink string
| Special

text \<open>
  \<open>openat(dir, c, O_NOFOLLOW | ...)\<close>: the entry of a directory, not a link, and a directory if
  \<open>O_DIRECTORY\<close> is given.
\<close>

definition openat :: "bool \<Rightarrow> string \<Rightarrow> fs_node \<Rightarrow> fs_node option" where
  "openat directory c node =
     (case node of
        Directory entries \<Rightarrow>
          (case map_of entries c of
             None \<Rightarrow> None
           | Some (Symlink target) \<Rightarrow> None
           | Some (Directory es) \<Rightarrow> Some (Directory es)
           | Some other \<Rightarrow> if directory then None else Some other)
      | _ \<Rightarrow> None)"

fun walk_open :: "(string list \<Rightarrow> bool) \<Rightarrow> string list \<Rightarrow> string list \<Rightarrow> fs_node \<Rightarrow> fs_node option" where
  \<comment> \<open>\<open>walkOpenNoFollow\<close>; the second argument is the way so far\<close>
  "walk_open may way [] node = Some node"
| "walk_open may way (c # cs) node =
     (if \<not> plain_component c \<or> \<not> may (way @ [c]) then None
      else case openat (cs \<noteq> []) c node of
          None \<Rightarrow> None
        | Some next_node \<Rightarrow> walk_open may (way @ [c]) cs next_node)"

definition open_absolute :: "(string list \<Rightarrow> bool) \<Rightarrow> fs_node \<Rightarrow> string \<Rightarrow> output_error + string" where
  "open_absolute may root p =
     (if \<not> valid_job_output_path p then Inl Unavailable
      else case walk_open may [] (split_str ''/'' (tl p)) root of
          None \<Rightarrow> Inl CannotOpen
        | Some (Regular bytes) \<Rightarrow> Inr bytes
        | Some _ \<Rightarrow> Inl Unavailable)"

section \<open>Reading\<close>

definition max_job_output_bytes :: nat where
  "max_job_output_bytes = 256 * 1024"

function read_bounded ::
  "(nat \<Rightarrow> nat) \<Rightarrow> (nat \<Rightarrow> bool) \<Rightarrow> nat \<Rightarrow> nat \<Rightarrow> string \<Rightarrow> string \<Rightarrow> output_error + string" where
  \<comment> \<open>\<open>readBoundedOutput\<close>: the number of the read, the buffer, what follows in the file, the result\<close>
  "read_bounded short fault i buffer rest result =
     (if length result < max_job_output_bytes
      then if fault i then Inl ReadFault
        else
          let buffer = min buffer (max_job_output_bytes - length result);
              count = min buffer (min (Suc (short i)) (length rest))
          in if count = 0 then Inr result
             else read_bounded short fault (Suc i) buffer (drop count rest)
                    (result @ take count rest)
      else Inr result)"
  by pat_completeness auto
termination
  by (relation "measure (\<lambda>(short, fault, i, buffer, rest, result).
        max_job_output_bytes - length result)")
    (auto simp: Let_def min_def simp flip: length_greater_0_conv)

declare read_bounded.simps [simp del]

definition cut_to_rune :: "string \<Rightarrow> string" where
  "cut_to_rune content =
     dropWhile (\<lambda>c. \<not> rune_start c) (drop (length content - max_job_output_bytes) content)"

definition tail_of :: "nat \<Rightarrow> (string \<Rightarrow> output_error + string) \<Rightarrow> string
    \<Rightarrow> output_error + string \<times> bool" where
  \<comment> \<open>the body of \<open>readJobOutputAtCurrentIdentity\<close> after the file is open; its size was taken then
     and it may have grown or shrunk since\<close>
  "tail_of stat_size read_from bytes =
     (let offset = stat_size - max_job_output_bytes
      in case read_from (drop offset bytes) of
          Inl e \<Rightarrow> Inl e
        | Inr content \<Rightarrow>
            let content = to_valid_utf8 content
            in if length content > max_job_output_bytes then Inr (cut_to_rune content, True)
               else Inr (content, offset > 0))"

definition read_at_current_identity ::
  "(string list \<Rightarrow> bool) \<Rightarrow> (string \<Rightarrow> string) \<Rightarrow> (nat \<Rightarrow> nat) \<Rightarrow> (nat \<Rightarrow> bool) \<Rightarrow> fs_node \<Rightarrow> string
     \<Rightarrow> output_error + string \<times> bool" where
  \<comment> \<open>\<open>later\<close> is what the file has become when it is read\<close>
  "read_at_current_identity may later short fault root p =
     (case open_absolute may root p of
        Inl e \<Rightarrow> Inl e
      | Inr bytes \<Rightarrow>
          tail_of (length bytes) (\<lambda>rest. read_bounded short fault 0 (32 * 1024) rest [])
            (later bytes))"

section \<open>Reading as another user\<close>

text \<open>\<open>runJobOutputReader\<close>: what the process writes, \<open>None\<close> when it fails.\<close>

definition valid_identity :: "int \<Rightarrow> bool" where
  \<comment> \<open>\<open>validJobOutputUserID\<close> and \<open>validJobOutputGroupID\<close>\<close>
  "valid_identity i \<longleftrightarrow> 0 < i \<and> i \<le> 2 ^ 32 - 1"

definition run_job_output_reader ::
  "int \<times> int \<Rightarrow> string list \<Rightarrow> string \<Rightarrow> (string \<Rightarrow> output_error + string \<times> bool) \<Rightarrow> string option" where
  "run_job_output_reader own arguments path read =
     (case arguments of
        [name, user_arg, group_arg] \<Rightarrow>
          (case (parse_int64 user_arg, parse_int64 group_arg) of
             (Some uid, Some gid) \<Rightarrow>
               if \<not> valid_identity uid \<or> \<not> valid_identity gid \<or> own \<noteq> (uid, gid)
                  \<or> length path > 2 ^ 20 \<or> path = [] \<or> CHR 0x00 \<in> set path
                  \<or> \<not> valid_job_output_path path
               then None
               else (case read path of
                   Inl e \<Rightarrow> None
                 | Inr (content, truncated) \<Rightarrow> Some ((if truncated then CHR 0x01 else CHR 0x00) # content))
           | _ \<Rightarrow> None)
      | _ \<Rightarrow> None)"

record bounded_response =
  received :: string
  exceeded :: bool

definition response_write :: "nat \<Rightarrow> string \<Rightarrow> bounded_response \<Rightarrow> bounded_response" where
  \<comment> \<open>\<open>boundedJobOutputResponse.Write\<close>\<close>
  "response_write limit content r =
     (let room = int limit - int (length (received r))
      in if int (length content) > room
         then \<lparr>received = received r @ take (nat room) content, exceeded = True\<rparr>
         else r\<lparr>received := received r @ content\<rparr>)"

definition decode_response :: "bounded_response \<Rightarrow> output_error + string \<times> bool" where
  "decode_response r =
     (if exceeded r \<or> received r = [] then Inl Unavailable
      else
        let truncated = (hd (received r) = CHR 0x01)
        in if hd (received r) \<noteq> CHR 0x00 \<and> \<not> truncated then Inl Unavailable
           else Inr (tl (received r), truncated))"

definition read_as_user ::
  "int \<times> int \<Rightarrow> (string \<Rightarrow> string list) \<Rightarrow> (int \<times> int \<Rightarrow> string \<Rightarrow> output_error + string \<times> bool)
     \<Rightarrow> int \<Rightarrow> int \<Rightarrow> string \<Rightarrow> output_error + string \<times> bool" where
  \<comment> \<open>\<open>pieces\<close> cuts what the process writes into the pieces in which it arrives; \<open>read\<close> reads with
     an identity, a user and a group; \<open>own\<close> is the server's\<close>
  "read_as_user own pieces read uid gid path =
     (if \<not> valid_identity uid then Inl Unavailable
      else if fst own = uid then read own path
      else if \<not> valid_identity gid then Inl Unavailable
      else case run_job_output_reader (uid, gid)
               [''--openhpc-job-output-reader'', dec_int uid, dec_int gid] path
               (read (uid, gid)) of
          None \<Rightarrow> Inl ProcessError
        | Some written \<Rightarrow>
            decode_response
              (fold (response_write (max_job_output_bytes + 1)) (pieces written)
                \<lparr>received = [], exceeded = False\<rparr>))"

definition read_job_output ::
  "(int \<Rightarrow> int \<Rightarrow> string \<Rightarrow> output_error + string \<times> bool) \<Rightarrow> int \<Rightarrow> int \<Rightarrow> string \<Rightarrow> string \<Rightarrow> string
     \<Rightarrow> output_error + string \<times> bool" where
  "read_job_output read_as uid gid std_out std_err stream =
     (let path = (if stream = ''stderr'' then std_err else std_out)
      in if \<not> valid_job_output_path path then Inl Unavailable else read_as uid gid path)"

section \<open>Accepted paths\<close>

lemma clean_step_set: "x \<in> set (clean_step stack c) \<Longrightarrow> x \<in> set stack \<or> x = c \<and> plain_component c"
  by (auto simp: plain_component_def dest: in_set_butlastD split: if_splits)

lemma clean_step_plain:
  "\<forall>c \<in> set stack. plain_component c \<and> CHR ''/'' \<notin> set c \<Longrightarrow> \<forall>c \<in> set cs. CHR ''/'' \<notin> set c \<Longrightarrow>
   \<forall>c \<in> set (foldl clean_step stack cs). plain_component c \<and> CHR ''/'' \<notin> set c"
proof (induction cs arbitrary: stack)
  case (Cons c cs)
  have "\<forall>c \<in> set (clean_step stack c). plain_component c \<and> CHR ''/'' \<notin> set c"
  proof
    fix x assume "x \<in> set (clean_step stack c)"
    from clean_step_set [OF this] show "plain_component x \<and> CHR ''/'' \<notin> set x"
      using Cons.prems by (elim disjE) simp_all
  qed
  then show ?case
    unfolding foldl_Cons by (rule Cons.IH) (use Cons.prems(2) in simp)
qed simp

lemma clean_step_id: "\<forall>c \<in> set cs. plain_component c \<Longrightarrow> foldl clean_step stack cs = stack @ cs"
  by (induction cs arbitrary: stack) (auto simp: plain_component_def)

text \<open>
  A path is accepted if and only if it is absolute and none of its components is empty or a dot
  or two dots, so that \<open>walkOpenNoFollow\<close> never refuses a component of an accepted path.
\<close>

lemma valid_path_iff:
  "valid_job_output_path p
     \<longleftrightarrow> is_abs p \<and> p \<noteq> ''/'' \<and> (\<forall>c \<in> set (split_str ''/'' (tl p)). plain_component c)"
proof -
  let ?cs = "split_str ''/'' (tl p)" and ?stack = "foldl clean_step [] (split_str ''/'' (tl p))"
  have abs: "p = CHR ''/'' # tl p" if "is_abs p" using that by (cases p) (auto simp: is_abs_def)
  have "?stack = ?cs" if valid: "valid_job_output_path p"
  proof -
    have "\<forall>c \<in> set ?stack. plain_component c \<and> CHR ''/'' \<notin> set c"
      by (rule clean_step_plain) (auto dest: split_char_pieces)
    moreover have join: "tl p = join_str ''/'' ?stack"
      using valid by (metis clean_rooted_def list.sel(3) valid_job_output_path_def)
    moreover have "?stack \<noteq> []"
      using valid join abs by (auto simp: valid_job_output_path_def)
    ultimately show ?thesis by (metis split_char_join)
  qed
  moreover have "\<forall>c \<in> set ?stack. plain_component c"
    using clean_step_plain [of "[]" ?cs] by (auto dest: split_char_pieces)
  moreover have "clean_rooted p = p" if "is_abs p" "\<forall>c \<in> set ?cs. plain_component c"
    using abs [OF that(1)] by (simp add: clean_rooted_def clean_step_id [OF that(2)] join_split_str)
  ultimately show ?thesis by (metis valid_job_output_path_def)
qed

section \<open>No link is followed\<close>

text \<open>What stands under a sequence of names, going through directories only.\<close>

fun plain_entry :: "fs_node \<Rightarrow> string list \<Rightarrow> fs_node option" where
  "plain_entry node [] = Some node"
| "plain_entry (Directory entries) (c # cs) =
     (case map_of entries c of None \<Rightarrow> None | Some n \<Rightarrow> plain_entry n cs)"
| "plain_entry node (c # cs) = None"

lemma walk_open_iff:
  assumes "\<forall>c \<in> set cs. plain_component c" and "\<And>t. n \<noteq> Symlink t"
  shows "walk_open may way cs node = Some n
    \<longleftrightarrow> plain_entry node cs = Some n \<and> (\<forall>k < length cs. may (way @ take (Suc k) cs))"
  using assms(1)
proof (induction cs arbitrary: way node)
  case (Cons c cs)
  show ?case
  proof (cases "\<exists>es m. node = Directory es \<and> map_of es c = Some m \<and> may (way @ [c])")
    case True
    then obtain es m where m: "node = Directory es" "map_of es c = Some m" "may (way @ [c])"
      by blast
    have all: "(\<forall>k < Suc (length cs). may (way @ take (Suc k) (c # cs)))
        \<longleftrightarrow> (\<forall>k < length cs. may ((way @ [c]) @ take (Suc k) cs))"
      using m(3) by (auto simp: less_Suc_eq_0_disj)
    show ?thesis
    proof (cases m)
      case (Directory d)
      then show ?thesis
        using m Cons.IH [of "way @ [c]" m] Cons.prems(1) all by (simp add: openat_def)
    next
      case (Regular b)
      then show ?thesis
        using m Cons.prems(1) all by (cases cs) (auto simp: openat_def)
    next
      case (Symlink t)
      then show ?thesis
        using m Cons.prems(1) assms(2) by (cases cs) (auto simp: openat_def)
    next
      case Special
      then show ?thesis
        using m Cons.prems(1) all by (cases cs) (auto simp: openat_def)
    qed
  next
    case False
    then show ?thesis
      by (cases node) (auto simp: openat_def split: option.splits)
  qed
qed simp

section \<open>The bytes that are read\<close>

lemma read_bounded_take:
  assumes "\<And>i. \<not> fault i" and "0 < buffer"
  shows "read_bounded short fault i buffer rest result
    = Inr (result @ take (max_job_output_bytes - length result) rest)"
  using assms(2)
proof (induction "max_job_output_bytes - length result" arbitrary: i buffer rest result
    rule: less_induct)
  case less
  let ?room = "max_job_output_bytes - length result"
  define count where "count = min (min buffer ?room) (min (Suc (short i)) (length rest))"
  show ?case
  proof (cases "count = 0")
    case True
    then have "?room = 0 \<or> rest = []"
      using less.prems by (cases rest) (auto simp: count_def min_def split: if_splits)
    then show ?thesis
      by (subst read_bounded.simps)
        (use True assms(1) in \<open>auto simp only: Let_def count_def [symmetric] zero_less_diff
          if_True if_False append_Nil2 take_0 take_Nil split: if_splits\<close>)
  next
    case False
    then have room: "0 < ?room" "count \<le> length rest" "count \<le> ?room" "0 < count"
      by (auto simp: count_def)
    have "read_bounded short fault i buffer rest result
        = read_bounded short fault (Suc i) (min buffer ?room) (drop count rest) (result @ take count rest)"
      by (subst read_bounded.simps)
        (use room(1) False assms(1) in \<open>simp only: Let_def count_def [symmetric] zero_less_diff
          if_True if_False\<close>)
    also have "\<dots> = Inr ((result @ take count rest) @ take (?room - count) (drop count rest))"
      using room less.prems less.hyps [of "result @ take count rest" "min buffer ?room"] by simp
    also have "\<dots> = Inr (result @ take ?room rest)"
      using room take_add [of count "?room - count" rest] by simp
    finally show ?thesis .
  qed
qed

lemma length_cut_to_rune: "length (cut_to_rune content) \<le> max_job_output_bytes"
proof -
  have "length (cut_to_rune content)
      \<le> length (drop (length content - max_job_output_bytes) content)"
    unfolding cut_to_rune_def by (rule length_dropWhile_le)
  then show ?thesis by simp
qed

lemma tail_of_bounded:
  assumes "tail_of n read_from bytes = Inr (content, truncated)"
  shows "valid_utf8 content \<and> length content \<le> max_job_output_bytes"
proof -
  obtain read where "content = to_valid_utf8 read \<and> length content \<le> max_job_output_bytes
      \<or> content = cut_to_rune (to_valid_utf8 read)"
    using assms by (auto simp: tail_of_def Let_def split: sum.splits if_splits)
  then show ?thesis
    using length_cut_to_rune valid_utf8_drop [OF valid_utf8_scrub] valid_utf8_scrub
    by (auto simp: to_valid_utf8_def) (simp add: cut_to_rune_def)
qed

text \<open>
  The tail of a text file: all of it if it is short enough, and otherwise its last characters, of
  which at most the one that the limit cuts in two is missing or replaced.
\<close>

lemma tail_of_text:
  assumes valid: "valid_utf8 bytes" and reads: "\<And>rest. read_from rest = Inr (take max_job_output_bytes rest)"
  defines "ending \<equiv> drop (length bytes - max_job_output_bytes) bytes"
  shows "tail_of (length bytes) read_from bytes = Inr
    (if length bytes \<le> max_job_output_bytes then (bytes, False)
     else if length (before_rune ending) = 3 then (replacement_char @ to_rune ending, True)
     else (to_rune ending, True))"
proof (cases "length bytes \<le> max_job_output_bytes")
  case True
  then show ?thesis
    using valid by (simp add: tail_of_def reads to_valid_utf8_def scrub_valid)
next
  case False
  then have len: "length ending = max_job_output_bytes" by (simp add: ending_def)
  have parts: "length (before_rune ending) + length (to_rune ending) = max_job_output_bytes"
    using len by (metis length_append takeWhile_dropWhile_id)
  have ok: "valid_utf8 (to_rune ending)" "length (before_rune ending) \<le> 3"
    using valid_utf8_drop [OF valid] by (simp_all add: ending_def)
  have content: "to_valid_utf8 ending
      = (if before_rune ending = [] then [] else replacement_char) @ to_rune ending"
    using to_valid_utf8_cut [OF valid] by (simp add: ending_def)
  have run: "tail_of (length bytes) read_from bytes =
      (if length (to_valid_utf8 ending) > max_job_output_bytes
       then Inr (cut_to_rune (to_valid_utf8 ending), True) else Inr (to_valid_utf8 ending, True))"
    using False len by (simp add: tail_of_def reads ending_def Let_def)
  consider "before_rune ending = []" | "length (before_rune ending) = 3"
    | "length (before_rune ending) = 1" | "length (before_rune ending) = 2"
    using ok(2) by (cases "before_rune ending") (auto simp: le_Suc_eq numeral_3_eq_3)
  then show ?thesis
  proof cases
    case 1
    then show ?thesis using False run content parts by simp
  next
    case 2
    then have "before_rune ending \<noteq> []" by auto
    then show ?thesis using False 2 run content parts by (simp add: replacement_char_def)
  next
    case 3
    have "cut_to_rune (to_valid_utf8 ending) = to_rune ending"
      using 3 parts content valid_utf8_start [OF ok(1)]
      by (auto simp: cut_to_rune_def replacement_char_def rune_start_def continuation_def)
    then show ?thesis using False 3 run content parts by (auto simp: replacement_char_def)
  next
    case 4
    have "cut_to_rune (to_valid_utf8 ending) = to_rune ending"
      using 4 parts content valid_utf8_start [OF ok(1)]
      by (auto simp: cut_to_rune_def replacement_char_def rune_start_def continuation_def)
    then show ?thesis using False 4 run content parts by (auto simp: replacement_char_def)
  qed
qed

section \<open>The reading process\<close>

lemma fold_response_write:
  "\<not> exceeded r \<Longrightarrow> length (received r) + length (concat ws) \<le> limit \<Longrightarrow>
   fold (response_write limit) ws r = r\<lparr>received := received r @ concat ws\<rparr>"
proof (induction ws arbitrary: r)
  case (Cons w ws)
  have "response_write limit w r = r\<lparr>received := received r @ w\<rparr>"
    using Cons.prems by (simp add: response_write_def Let_def)
  then show ?case using Cons by simp
qed simp

section \<open>Properties\<close>

text \<open>
  C28. The file that is read. An output file is opened if and only if its path is accepted and leads,
  name by name and through directories that the reading identity may enter, to a regular file:
  no symbolic link on the way or at its end is ever followed, and nothing outside the path is
  reached.
\<close>

theorem output_opened_without_links:
  "open_absolute may root p = Inr bytes
     \<longleftrightarrow> valid_job_output_path p
       \<and> plain_entry root (split_str ''/'' (tl p)) = Some (Regular bytes)
       \<and> (\<forall>k < length (split_str ''/'' (tl p)). may (take (Suc k) (split_str ''/'' (tl p))))"
proof (cases "valid_job_output_path p")
  case True
  then have "\<forall>c \<in> set (split_str ''/'' (tl p)). plain_component c"
    by (simp add: valid_path_iff)
  from walk_open_iff [OF this, of "Regular bytes" may "[]" root] show ?thesis
    using True by (auto simp: open_absolute_def split: option.splits fs_node.splits)
qed (simp add: open_absolute_def)

theorem output_opened_without_links_witness:
  "open_absolute (\<lambda>w. True) (Directory [(''o'', Directory [(''a'', Regular ''hi''), (''b'', Symlink ''/s'')])])
       ''/o/a'' = Inr ''hi''
   \<and> open_absolute (\<lambda>w. True) (Directory [(''o'', Directory [(''a'', Regular ''hi''), (''b'', Symlink ''/s'')])])
       ''/o/b'' \<noteq> Inr ''hi''"
proof -
  have p: "valid_job_output_path ''/o/a''" "split_str ''/'' ''o/a'' = [''o'', ''a'']"
    "valid_job_output_path ''/o/b''" "split_str ''/'' ''o/b'' = [''o'', ''b'']"
    by code_simp+
  show ?thesis unfolding output_opened_without_links by (simp add: p less_Suc_eq)
qed

text \<open>
  C32. What is answered is text. Whatever the file holds, however short the reads are and however the
  file changes between them, the answer is valid UTF-8, as its content type promises, and at
  most 256 KiB long.
\<close>

theorem output_is_bounded_text:
  assumes "read_at_current_identity may later short fault root p = Inr (content, truncated)"
  shows "valid_utf8 content \<and> length content \<le> 262144"
  using assms tail_of_bounded
  by (fastforce simp: read_at_current_identity_def max_job_output_bytes_def split: sum.splits)

theorem output_is_bounded_text_witness:
  "read_at_current_identity (\<lambda>w. True) (\<lambda>b. b) (\<lambda>i. 0) (\<lambda>i. False) (Directory [(''a'', Regular [CHR 0xFF])]) ''/a''
     = Inr (replacement_char, False)
   \<and> valid_utf8 replacement_char \<and> length replacement_char \<le> 262144"
proof -
  have "open_absolute (\<lambda>w. True) (Directory [(''a'', Regular [CHR 0xFF])]) ''/a'' = Inr [CHR 0xFF]"
    by code_simp
  moreover have "read_bounded (\<lambda>i. 0) (\<lambda>i. False) 0 32768 [CHR 0xFF] [] = Inr [CHR 0xFF]"
    by (subst read_bounded_take) (simp_all add: max_job_output_bytes_def)
  moreover have "to_valid_utf8 [CHR 0xFF] = replacement_char"
    by code_simp
  ultimately have read: "read_at_current_identity (\<lambda>w. True) (\<lambda>b. b) (\<lambda>i. 0) (\<lambda>i. False)
      (Directory [(''a'', Regular [CHR 0xFF])]) ''/a'' = Inr (replacement_char, False)"
    by (simp add: read_at_current_identity_def tail_of_def Let_def max_job_output_bytes_def
        replacement_char_def)
  show ?thesis using read output_is_bounded_text [OF read] by blast
qed

text \<open>
  C17. The end of a text file. When no read fails and the file does not
  change meanwhile, a file of valid UTF-8 that is at most 256 KiB long
  is answered whole and not marked as truncated. A longer one is marked, and answered from
  the first character that begins within its last 256 KiB; when three bytes of a character
  precede it there, one replacement character stands for them.
\<close>

theorem output_tail_exact:
  assumes "open_absolute may root p = Inr bytes" and "valid_utf8 bytes" and "\<forall>i. \<not> fault i"
    and "later bytes = bytes"
  shows "read_at_current_identity may later short fault root p = Inr
    (let ending = drop (length bytes - 262144) bytes
     in if length bytes \<le> 262144 then (bytes, False)
        else if length (before_rune ending) = 3 then (replacement_char @ to_rune ending, True)
        else (to_rune ending, True))"
  using tail_of_text [OF assms(2), of "\<lambda>rest. read_bounded short fault 0 (32 * 1024) rest []"] assms(3)
  by (simp add: read_at_current_identity_def assms(1,4) read_bounded_take Let_def)
    (simp add: max_job_output_bytes_def)

theorem output_tail_exact_witness:
  "read_at_current_identity (\<lambda>w. True) (\<lambda>b. b) (\<lambda>i. 0) (\<lambda>i. False) (Directory [(''a'', Regular ''hi'')]) ''/a''
     = Inr (''hi'', False)"
proof -
  have "open_absolute (\<lambda>w. True) (Directory [(''a'', Regular ''hi'')]) ''/a'' = Inr ''hi''"
    "valid_utf8 ''hi''"
    by code_simp+
  from output_tail_exact [OF this, of "\<lambda>i. False" "\<lambda>b. b" "\<lambda>i. 0"] show ?thesis by simp
qed

text \<open>
  C29. The reading process is transparent. A server with another identity than the job's user starts
  a process with that identity and decodes what it writes, in whatever pieces it arrives: the
  result is what reading directly with that identity gives, and an error becomes an error.
\<close>

theorem reader_process_transparent:
  assumes "valid_identity uid" and "valid_identity gid" and "fst own \<noteq> uid"
    and "\<forall>x. concat (pieces x) = x"
    and "valid_job_output_path p" and "CHR 0x00 \<notin> set p" and "length p \<le> 2 ^ 20"
    and "read = (\<lambda>identity. read_at_current_identity (may identity) later short fault root)"
  shows "read_as_user own pieces read uid gid p
    = (case read (uid, gid) p of Inl e \<Rightarrow> Inl ProcessError | Inr r \<Rightarrow> Inr r)"
proof -
  have parse: "parse_int64 (dec_int i) = Some i" if "valid_identity i" for i
    using that parse_int64_dec [of "nat i"] by (simp add: valid_identity_def dec_int_def int64_max_def)
  have "p \<noteq> []" using assms(5) by (auto simp: valid_job_output_path_def is_abs_def)
  then have child: "run_job_output_reader (uid, gid)
      [''--openhpc-job-output-reader'', dec_int uid, dec_int gid] p (read (uid, gid))
    = (case read (uid, gid) p of
         Inl e \<Rightarrow> None
       | Inr (content, truncated) \<Rightarrow> Some ((if truncated then CHR 0x01 else CHR 0x00) # content))"
    using assms parse by (simp add: run_job_output_reader_def)
  show ?thesis
  proof (cases "read (uid, gid) p")
    case (Inl e)
    then show ?thesis using assms(1,2,3) child by (simp add: read_as_user_def)
  next
    case (Inr r)
    obtain content truncated where r: "r = (content, truncated)" by (cases r)
    have "length content \<le> max_job_output_bytes"
      using Inr assms(8) tail_of_bounded
      by (fastforce simp: r read_at_current_identity_def split: sum.splits)
    then have "fold (response_write (max_job_output_bytes + 1))
        (pieces ((if truncated then CHR 0x01 else CHR 0x00) # content))
        \<lparr>received = [], exceeded = False\<rparr>
      = \<lparr>received = (if truncated then CHR 0x01 else CHR 0x00) # content, exceeded = False\<rparr>"
      using assms(4) by (subst fold_response_write) simp_all
    then show ?thesis
      using Inr r assms(1,2,3) child by (simp add: read_as_user_def decode_response_def)
  qed
qed

theorem reader_process_transparent_witness:
  "let read = (\<lambda>identity. read_at_current_identity (\<lambda>w. identity = (1000, 100)) (\<lambda>b. b) (\<lambda>i. 0) (\<lambda>i. False)
         (Directory [(''a'', Regular ''hi'')]))
   in read_as_user (0, 0) (\<lambda>x. [take 2 x, drop 2 x]) read 1000 100 ''/a'' = read (1000, 100) ''/a''"
proof -
  let ?read = "\<lambda>identity. read_at_current_identity (\<lambda>w. identity = (1000 :: int, 100 :: int))
      (\<lambda>b. b) (\<lambda>i. 0) (\<lambda>i. False) (Directory [(''a'', Regular ''hi'')])"
  have "open_absolute (\<lambda>w. True) (Directory [(''a'', Regular ''hi'')]) ''/a'' = Inr ''hi''"
    "valid_job_output_path ''/a''"
    by code_simp+
  then have read: "\<exists>r. ?read (1000, 100) ''/a'' = Inr r"
    by (auto simp: read_at_current_identity_def tail_of_def Let_def read_bounded_take)
  have "read_as_user (0, 0) (\<lambda>x. [take 2 x, drop 2 x]) ?read 1000 100 ''/a''
      = (case ?read (1000, 100) ''/a'' of Inl e \<Rightarrow> Inl ProcessError | Inr r \<Rightarrow> Inr r)"
    by (rule reader_process_transparent [where may = "\<lambda>identity w. identity = (1000, 100)"])
      (use \<open>valid_job_output_path ''/a''\<close> in \<open>simp_all add: valid_identity_def\<close>)
  then show ?thesis using read by auto
qed

end
