(* ===== verification/CoreHours.thy ===== *)
theory CoreHours
  imports Utf8 "HOL-Library.Product_Lexorder" "HOL-Library.Multiset"
begin

text \<open>
  The core hours of the accounting pages (\<open>internal/slurm/core_hours.go\<close>): from the allocations
  that \<open>sacct\<close> lists to the CPU seconds that fall into a window, in all and by account and by
  user. Times are Unix seconds; integers are Go's \<open>int64\<close>, wrapped where the code computes
  without a check. The two maps are association lists with distinct keys; the sums do not
  depend on the order in which the code ranges over them. Decoding the JSON text is the
  library's; its failure is the value \<open>None\<close>. The counts of allocations are bounded by the
  length of the response and are natural numbers.
\<close>

section \<open>Data\<close>

record tres =
  tres_type :: string
  tres_count :: int

record core_job =
  job_account :: string
  job_user :: string
  job_partition :: string
  time_start :: int
  time_end :: int
  current_states :: "string list"
  allocated :: "tres list"

record core_response =
  error_count :: nat
  core_jobs :: "core_job list"

record core_group =
  core_seconds :: int
  allocations :: nat

type_synonym core_groups = "(string \<times> core_group) list"

record core_summary =
  total_seconds :: int
  total_allocations :: nat
  by_account :: core_groups
  by_user :: core_groups

datatype core_error =
  BadJson | ReportedErrors | InvalidWindow | FieldTooLong | ControlCharacter
| NegativeCpus | CpuOverflow | AllocationOverflow | TotalOverflow | BadPeriod

section \<open>Operations\<close>

definition max_detail_length :: nat where
  "max_detail_length = 1024"

fun validate_detail_strings :: "string list \<Rightarrow> core_error + unit" where
  "validate_detail_strings [] = Inr ()"
| "validate_detail_strings (v # vs) =
     (if length v > max_detail_length then Inl FieldTooLong
      else if has_control v then Inl ControlCharacter
      else validate_detail_strings vs)"

lemma validate_detail_strings_iff:
  "validate_detail_strings vs = Inr () \<longleftrightarrow> (\<forall>v \<in> set vs. length v \<le> max_detail_length \<and> \<not> has_control v)"
  by (induction vs) auto

fun add_cpus :: "int \<Rightarrow> tres list \<Rightarrow> core_error + int" where
  \<comment> \<open>the loop of \<open>allocatedCPUs\<close>\<close>
  "add_cpus result [] = Inr result"
| "add_cpus result (v # vs) =
     (if \<not> equal_fold (tres_type v) ''cpu'' then add_cpus result vs
      else if tres_count v < 0 then Inl NegativeCpus
      else if result > wrap64 (int64_max - tres_count v) then Inl CpuOverflow
      else add_cpus (wrap64 (result + tres_count v)) vs)"

definition allocated_cpus :: "tres list \<Rightarrow> core_error + int" where
  "allocated_cpus = add_cpus 0"

definition contains_fold :: "string list \<Rightarrow> string \<Rightarrow> bool" where
  "contains_fold values target \<longleftrightarrow> list_ex (\<lambda>v. equal_fold v target) values"

definition group_name :: "string \<Rightarrow> string" where
  \<comment> \<open>an em dash for the empty name\<close>
  "group_name name = (if name = '''' then [CHR 0xE2, CHR 0x80, CHR 0x94] else name)"

definition add_core_hour_group :: "string \<Rightarrow> int \<Rightarrow> core_groups \<Rightarrow> core_groups" where
  "add_core_hour_group name seconds groups =
     (let old = (case map_of groups (group_name name) of
                   None \<Rightarrow> \<lparr>core_seconds = 0, allocations = 0\<rparr> | Some g \<Rightarrow> g)
      in AList.update (group_name name)
           \<lparr>core_seconds = wrap64 (core_seconds old + seconds),
            allocations = allocations old + 1\<rparr> groups)"

definition sorted_core_hour_groups :: "core_groups \<Rightarrow> core_groups" where
  \<comment> \<open>most seconds first, equal ones by name\<close>
  "sorted_core_hour_groups groups = sort_key (\<lambda>(name, g). (- core_seconds g, name)) groups"

definition add_job :: "int \<Rightarrow> int \<Rightarrow> core_job \<Rightarrow> core_summary \<Rightarrow> core_error + core_summary" where
  \<comment> \<open>the body of the loop of \<open>parseCoreHoursJSON\<close>\<close>
  "add_job from_unix to_unix job s =
     sum_bind (validate_detail_strings [job_account job, job_user job, job_partition job]) (\<lambda>_.
       if time_start job \<le> 0 then Inr s
       else if time_end job = 0 \<and> \<not> contains_fold (current_states job) ''RUNNING'' then Inr s
       else
         let end_time = (if time_end job = 0 then to_unix else time_end job);
             start = max (time_start job) from_unix;
             end_time = min end_time to_unix
         in if end_time \<le> start then Inr s
            else
              sum_bind (allocated_cpus (allocated job)) (\<lambda>cpus.
                if cpus = 0 then Inr s
                else
                  let seconds = wrap64 (end_time - start)
                  in if cpus > int64_max div seconds then Inl AllocationOverflow
                     else
                       let amount = wrap64 (cpus * seconds)
                       in if total_seconds s > wrap64 (int64_max - amount) then Inl TotalOverflow
                          else Inr
                            \<lparr>total_seconds = wrap64 (total_seconds s + amount),
                             total_allocations = total_allocations s + 1,
                             by_account = add_core_hour_group (job_account job) amount (by_account s),
                             by_user = add_core_hour_group (job_user job) amount (by_user s)\<rparr>))"

fun add_jobs :: "int \<Rightarrow> int \<Rightarrow> core_job list \<Rightarrow> core_summary \<Rightarrow> core_error + core_summary" where
  "add_jobs from_unix to_unix [] s = Inr s"
| "add_jobs from_unix to_unix (j # js) s =
     sum_bind (add_job from_unix to_unix j s) (add_jobs from_unix to_unix js)"

definition empty_summary :: core_summary where
  "empty_summary = \<lparr>total_seconds = 0, total_allocations = 0, by_account = [], by_user = []\<rparr>"

definition parse_core_hours :: "core_response option \<Rightarrow> int \<Rightarrow> int \<Rightarrow> core_error + core_summary" where
  "parse_core_hours response from_unix to_unix =
     (case response of
        None \<Rightarrow> Inl BadJson
      | Some r \<Rightarrow>
          if error_count r > 0 then Inl ReportedErrors
          else if to_unix \<le> from_unix then Inl InvalidWindow
          else sum_bind (add_jobs from_unix to_unix (core_jobs r) empty_summary)
            (\<lambda>s. Inr (s\<lparr>by_account := sorted_core_hour_groups (by_account s),
                        by_user := sorted_core_hour_groups (by_user s)\<rparr>)))"

text \<open>The window of a period in seconds and the cache that serves it.\<close>

definition core_hour_window :: "string \<Rightarrow> core_error + int \<times> nat" where
  "core_hour_window period =
     (if period = ''24h'' then Inr (24 * 3600, 0)
      else if period = ''7d'' then Inr (7 * 24 * 3600, 1)
      else if period = ''30d'' then Inr (30 * 24 * 3600, 2)
      else Inl BadPeriod)"

section \<open>What it should compute\<close>

text \<open>
  The CPU seconds that a job contributes to a window, without regard to the width of integers:
  the CPUs of its allocation times the overlap of its run with the window.
\<close>

definition cpus_of :: "core_job \<Rightarrow> int" where
  "cpus_of job = (\<Sum>v \<leftarrow> filter (\<lambda>v. equal_fold (tres_type v) ''cpu'') (allocated job). tres_count v)"

definition end_of :: "int \<Rightarrow> core_job \<Rightarrow> int" where
  "end_of to_unix job =
     (if time_end job \<noteq> 0 then time_end job
      else if contains_fold (current_states job) ''RUNNING'' then to_unix else time_start job)"

definition overlap :: "int \<Rightarrow> int \<Rightarrow> core_job \<Rightarrow> int" where
  "overlap from_unix to_unix job =
     (if time_start job \<le> 0 then 0
      else max 0 (min (end_of to_unix job) to_unix - max (time_start job) from_unix))"

definition contribution :: "int \<Rightarrow> int \<Rightarrow> core_job \<Rightarrow> int" where
  "contribution from_unix to_unix job = cpus_of job * overlap from_unix to_unix job"

definition share :: "(core_job \<Rightarrow> string) \<Rightarrow> string \<Rightarrow> int \<Rightarrow> int \<Rightarrow> core_job list \<Rightarrow> int" where
  "share field name from_unix to_unix js =
     (\<Sum>j \<leftarrow> filter (\<lambda>j. group_name (field j) = name) js. contribution from_unix to_unix j)"

definition typed_job :: "core_job \<Rightarrow> bool" where
  \<comment> \<open>what the decoder guarantees: its integers fit\<close>
  "typed_job j \<longleftrightarrow>
     time_end j \<le> int64_max \<and> time_start j \<le> int64_max
   \<and> (\<forall>v \<in> set (allocated j). tres_count v \<le> int64_max)"

section \<open>No arithmetic wraps\<close>

lemma wrap64_nonneg: "0 \<le> i \<Longrightarrow> i \<le> int64_max \<Longrightarrow> wrap64 i = i"
  by (rule wrap64_id) simp_all

lemma add_cpus_Inr:
  assumes "add_cpus r vs = Inr n" and "0 \<le> r" and "r \<le> int64_max"
    and "\<forall>v \<in> set vs. tres_count v \<le> int64_max"
  shows "n = r + (\<Sum>v \<leftarrow> filter (\<lambda>v. equal_fold (tres_type v) ''cpu'') vs. tres_count v)
    \<and> r \<le> n \<and> n \<le> int64_max"
  using assms
proof (induction vs arbitrary: r)
  case (Cons v vs)
  show ?case
  proof (cases "equal_fold (tres_type v) ''cpu''")
    case True
    have c: "0 \<le> tres_count v" "\<not> r > wrap64 (int64_max - tres_count v)"
      using Cons.prems(1) True by (auto split: if_splits)
    moreover have "wrap64 (int64_max - tres_count v) = int64_max - tres_count v"
      using c(1) Cons.prems(4) by (intro wrap64_nonneg) auto
    ultimately have "wrap64 (r + tres_count v) = r + tres_count v" "r + tres_count v \<le> int64_max"
      using Cons.prems(2) by (auto intro!: wrap64_nonneg)
    then show ?thesis
      using Cons.IH [of "r + tres_count v"] Cons.prems True c by (auto split: if_splits)
  next
    case False
    then show ?thesis using Cons by simp
  qed
qed simp

lemma allocated_cpus_Inr:
  "allocated_cpus (allocated j) = Inr n \<Longrightarrow> typed_job j \<Longrightarrow> n = cpus_of j \<and> 0 \<le> n \<and> n \<le> int64_max"
  using add_cpus_Inr [of 0 "allocated j" n]
  by (simp add: allocated_cpus_def cpus_of_def typed_job_def int64_max_def)

text \<open>The product fits if and only if the guard lets it pass.\<close>

lemma product_guard:
  assumes "0 < (k :: int)"
  shows "n > int64_max div k \<longleftrightarrow> n * k > int64_max"
proof -
  have "n \<le> int64_max div k \<longleftrightarrow> n * k \<le> int64_max"
  proof
    assume "n \<le> int64_max div k"
    then have "n * k \<le> int64_max div k * k" using assms by (simp add: mult_right_mono)
    also have "\<dots> \<le> int64_max"
      using assms pos_mod_sign [of k int64_max] minus_mod_eq_div_mult [of int64_max k] by linarith
    finally show "n * k \<le> int64_max" .
  next
    assume "n * k \<le> int64_max"
    then have "n * k div k \<le> int64_max div k" using assms by (rule zdiv_mono1)
    then show "n \<le> int64_max div k" using assms by simp
  qed
  then show ?thesis by linarith
qed

text \<open>One job, with its arithmetic done without regard to width.\<close>

definition plain_add_job :: "core_job \<Rightarrow> int \<Rightarrow> core_summary \<Rightarrow> core_summary" where
  "plain_add_job job amount s =
     (if amount = 0 then s
      else \<lparr>total_seconds = total_seconds s + amount,
            total_allocations = total_allocations s + 1,
            by_account = add_core_hour_group (job_account job) amount (by_account s),
            by_user = add_core_hour_group (job_user job) amount (by_user s)\<rparr>)"

lemma add_job_exact:
  assumes "typed_job j" and "to_unix \<le> int64_max"
    and "0 \<le> total_seconds s" and "total_seconds s \<le> int64_max"
  shows "add_job from_unix to_unix j s =
    sum_bind (validate_detail_strings [job_account j, job_user j, job_partition j]) (\<lambda>_.
      if overlap from_unix to_unix j = 0 then Inr s
      else sum_bind (allocated_cpus (allocated j)) (\<lambda>cpus.
        if contribution from_unix to_unix j > int64_max then Inl AllocationOverflow
        else if total_seconds s + contribution from_unix to_unix j > int64_max then Inl TotalOverflow
        else Inr (plain_add_job j (contribution from_unix to_unix j) s)))"
proof -
  let ?c = "contribution from_unix to_unix j" and ?o = "overlap from_unix to_unix j"
  let ?stop = "min (if time_end j = 0 then to_unix else time_end j) to_unix"
  let ?start = "max (time_start j) from_unix"
  let ?skip = "time_start j \<le> 0 \<or> time_end j = 0 \<and> \<not> contains_fold (current_states j) ''RUNNING''
    \<or> ?stop \<le> ?start"
  have overlap: "?o = 0 \<longleftrightarrow> ?skip" "\<not> ?skip \<Longrightarrow> ?o = ?stop - ?start"
    by (auto simp: overlap_def end_of_def)
  show ?thesis
  proof (cases ?skip)
    case True
    then have "?o = 0" using overlap by simp
    then show ?thesis using True by (auto simp: add_job_def Let_def)
  next
    case False
    then have o: "?o = ?stop - ?start" "0 < ?o" "1 \<le> ?start" "?stop \<le> int64_max" and pos: "\<not> ?stop \<le> ?start"
      using overlap assms(1,2) by (auto simp: typed_job_def)
    have w: "wrap64 (?stop - ?start) = ?o" using o by (subst wrap64_nonneg) simp_all
    have step: "(let seconds = wrap64 (?stop - ?start)
       in if n > int64_max div seconds then Inl AllocationOverflow
          else let amount = wrap64 (n * seconds)
            in if total_seconds s > wrap64 (int64_max - amount) then Inl TotalOverflow
               else Inr \<lparr>total_seconds = wrap64 (total_seconds s + amount),
                   total_allocations = total_allocations s + 1,
                   by_account = add_core_hour_group (job_account j) amount (by_account s),
                   by_user = add_core_hour_group (job_user j) amount (by_user s)\<rparr>)
      = (if ?c > int64_max then Inl AllocationOverflow
         else if total_seconds s + ?c > int64_max then Inl TotalOverflow
         else Inr (plain_add_job j ?c s))"
      if n: "allocated_cpus (allocated j) = Inr n" "n \<noteq> 0" for n
    proof -
      have nc: "0 < n" "n * ?o = ?c" "0 < ?c"
        using allocated_cpus_Inr [OF n(1) assms(1)] n(2) o(2) by (auto simp: contribution_def)
      show ?thesis
      proof (cases "?c > int64_max")
        case True
        then show ?thesis using product_guard [OF o(2), of n] nc by (simp add: w Let_def)
      next
        case False
        then have fits: "\<not> n > int64_max div ?o" "wrap64 ?c = ?c"
          "wrap64 (int64_max - ?c) = int64_max - ?c"
          using product_guard [OF o(2), of n] nc by (auto intro!: wrap64_nonneg)
        show ?thesis
        proof (cases "total_seconds s + ?c > int64_max")
          case True
          then show ?thesis using False fits nc by (simp add: w Let_def)
        next
          case small: False
          then have "wrap64 (total_seconds s + ?c) = total_seconds s + ?c"
            using assms(3) nc by (intro wrap64_nonneg) auto
          then show ?thesis using False small fits nc by (simp add: w Let_def plain_add_job_def)
        qed
      qed
    qed
    have "?c = 0" if "allocated_cpus (allocated j) = Inr 0"
      using allocated_cpus_Inr [OF that assms(1)] by (simp add: contribution_def)
    then show ?thesis
      using False o(2) pos step assms(4)
      by (cases "allocated_cpus (allocated j)")
        (auto simp: add_job_def Let_def plain_add_job_def sum_bind_def int64_max_def split: sum.splits)
  qed
qed

section \<open>The groups\<close>

definition seconds_of :: "core_groups \<Rightarrow> string \<Rightarrow> int" where
  "seconds_of groups name = (case map_of groups name of None \<Rightarrow> 0 | Some g \<Rightarrow> core_seconds g)"

definition group_sum :: "core_groups \<Rightarrow> int" where
  "group_sum groups = (\<Sum>e \<leftarrow> groups. core_seconds (snd e))"

lemma group_sum_update:
  "distinct (map fst groups) \<Longrightarrow>
   group_sum (AList.update n g groups) = group_sum groups - seconds_of groups n + core_seconds g"
  by (induction groups) (auto simp: group_sum_def seconds_of_def map_of_eq_None_iff
      split: option.splits)

definition groups_ok :: "(core_job \<Rightarrow> string) \<Rightarrow> int \<Rightarrow> int \<Rightarrow> core_job list \<Rightarrow> core_groups \<Rightarrow> bool" where
  "groups_ok field from_unix to_unix js groups \<longleftrightarrow>
     distinct (map fst groups)
   \<and> (\<forall>name. seconds_of groups name = share field name from_unix to_unix js)
   \<and> group_sum groups = (\<Sum>j \<leftarrow> js. contribution from_unix to_unix j)"

definition summary_ok :: "int \<Rightarrow> int \<Rightarrow> core_job list \<Rightarrow> core_summary \<Rightarrow> bool" where
  "summary_ok from_unix to_unix js s \<longleftrightarrow>
     total_seconds s = (\<Sum>j \<leftarrow> js. contribution from_unix to_unix j)
   \<and> total_allocations s = length (filter (\<lambda>j. contribution from_unix to_unix j > 0) js)
   \<and> (\<forall>j \<in> set js. 0 \<le> contribution from_unix to_unix j)
   \<and> total_seconds s \<le> int64_max
   \<and> groups_ok job_account from_unix to_unix js (by_account s)
   \<and> groups_ok job_user from_unix to_unix js (by_user s)"

lemma share_bounds:
  assumes "\<forall>j \<in> set js. 0 \<le> contribution a b j"
  shows "0 \<le> share field name a b js \<and> share field name a b js \<le> (\<Sum>j \<leftarrow> js. contribution a b j)"
  using assms by (induction js) (auto simp: share_def)

lemma share_snoc:
  "share field name a b (js @ [j])
     = share field name a b js + (if group_name (field j) = name then contribution a b j else 0)"
  by (simp add: share_def)

lemma groups_ok_add:
  assumes "groups_ok field a b js groups" and "\<forall>j \<in> set js. 0 \<le> contribution a b j"
    and "0 \<le> contribution a b j"
    and "(\<Sum>j \<leftarrow> js. contribution a b j) + contribution a b j \<le> int64_max"
  shows "groups_ok field a b (js @ [j]) (add_core_hour_group (field j) (contribution a b j) groups)"
proof -
  let ?n = "group_name (field j)" and ?c = "contribution a b j"
  have "0 \<le> seconds_of groups ?n" "seconds_of groups ?n + ?c \<le> int64_max"
    using assms(1) share_bounds [OF assms(2), of field ?n] assms(4) by (auto simp: groups_ok_def)
  then have "wrap64 (seconds_of groups ?n + ?c) = seconds_of groups ?n + ?c"
    using assms(3) by (intro wrap64_nonneg) auto
  moreover define old where "old = (case map_of groups ?n of
      None \<Rightarrow> \<lparr>core_seconds = 0, allocations = 0\<rparr> | Some g \<Rightarrow> g)"
  moreover define g where
    "g = \<lparr>core_seconds = wrap64 (core_seconds old + ?c), allocations = allocations old + 1\<rparr>"
  moreover have "core_seconds old = seconds_of groups ?n"
    by (simp add: old_def seconds_of_def split: option.split)
  ultimately have g: "core_seconds g = seconds_of groups ?n + ?c"
      "add_core_hour_group (field j) ?c groups = AList.update ?n g groups"
    by (simp_all add: add_core_hour_group_def Let_def)
  show ?thesis
    using assms(1) g by (auto simp: groups_ok_def share_snoc distinct_update group_sum_update
        seconds_of_def update_conv')
qed

lemma groups_ok_skip:
  "groups_ok field a b js groups \<Longrightarrow> contribution a b j = 0 \<Longrightarrow> groups_ok field a b (js @ [j]) groups"
  by (simp add: groups_ok_def share_snoc)

lemma add_job_ok:
  assumes "summary_ok a b js s" and "typed_job j" and "b \<le> int64_max"
    and "add_job a b j s = Inr s'"
  shows "summary_ok a b (js @ [j]) s'"
proof -
  let ?c = "contribution a b j"
  have "0 \<le> total_seconds s" and "total_seconds s \<le> int64_max"
    using assms(1) by (auto simp: summary_ok_def intro!: sum_list_nonneg)
  note exact = add_job_exact [OF assms(2,3) this, of a]
  have "s' = plain_add_job j ?c s \<and> 0 \<le> ?c \<and> total_seconds s + ?c \<le> int64_max"
  proof (cases "overlap a b j = 0")
    case True
    then have "?c = 0" by (simp add: contribution_def)
    then show ?thesis
      using True assms(4) \<open>total_seconds s \<le> int64_max\<close> unfolding exact
      by (auto simp: sum_bind_Inr plain_add_job_def)
  next
    case False
    then obtain n where "allocated_cpus (allocated j) = Inr n"
        "s' = plain_add_job j ?c s" "total_seconds s + ?c \<le> int64_max"
      using assms(4) unfolding exact by (auto simp: sum_bind_Inr split: if_splits)
    moreover from this have "0 \<le> ?c"
      using allocated_cpus_Inr [OF _ assms(2)] by (auto simp: contribution_def overlap_def)
    ultimately show ?thesis by simp
  qed
  then have s': "s' = plain_add_job j ?c s" "0 \<le> ?c" "total_seconds s + ?c \<le> int64_max"
    by simp_all
  show ?thesis
  proof (cases "?c = 0")
    case True
    then show ?thesis
      using assms(1) s' by (auto simp: summary_ok_def plain_add_job_def groups_ok_skip)
  next
    case False
    then show ?thesis
      using assms(1) s' by (auto simp: summary_ok_def plain_add_job_def intro!: groups_ok_add)
  qed
qed

lemma add_jobs_ok:
  "summary_ok a b done s \<Longrightarrow> \<forall>j \<in> set js. typed_job j \<Longrightarrow> b \<le> int64_max \<Longrightarrow>
   add_jobs a b js s = Inr s' \<Longrightarrow> summary_ok a b (done @ js) s'"
proof (induction js arbitrary: "done" s)
  case (Cons j js)
  then obtain t where "add_job a b j s = Inr t" "add_jobs a b js t = Inr s'"
    by (auto simp: sum_bind_Inr)
  then show ?case using Cons.IH [of "done @ [j]" t] add_job_ok [of a b "done" s j t] Cons.prems by simp
qed simp

lemma empty_summary_ok: "summary_ok a b [] empty_summary"
  by (simp add: summary_ok_def empty_summary_def groups_ok_def share_def seconds_of_def
      group_sum_def int64_max_def)

lemma mset_sorted_groups [simp]: "mset (sorted_core_hour_groups groups) = mset groups"
  by (simp add: sorted_core_hour_groups_def)

lemma sorted_groups_facts:
  assumes "distinct (map fst groups)"
  shows "distinct (map fst (sorted_core_hour_groups groups))"
    "seconds_of (sorted_core_hour_groups groups) = seconds_of groups"
    "group_sum (sorted_core_hour_groups groups) = group_sum groups"
proof -
  show d: "distinct (map fst (sorted_core_hour_groups groups))"
    using assms mset_eq_imp_distinct_iff [of "map fst (sorted_core_hour_groups groups)" "map fst groups"]
    by simp
  have "map_of (sorted_core_hour_groups groups) = map_of groups"
    using map_of_inject_set [OF d assms] by (simp add: sorted_core_hour_groups_def)
  then show "seconds_of (sorted_core_hour_groups groups) = seconds_of groups"
    by (simp add: seconds_of_def fun_eq_iff)
  show "group_sum (sorted_core_hour_groups groups) = group_sum groups"
    unfolding group_sum_def sum_mset_sum_list [symmetric] by simp
qed

section \<open>Properties\<close>

text \<open>
  C8. Core hours add up. Whenever the summary is produced, its total is the sum over the jobs of the
  CPUs times the seconds in which the job's run and the window overlap, as integers without
  width: no sum or product has wrapped, also not those the code leaves unguarded. The seconds of every account and of
  every user are the sums over their jobs, both lists add up to the total, name nobody twice
  and are ordered by seconds.
\<close>

theorem core_hours_exact:
  assumes "parse_core_hours (Some r) a b = Inr s"
    and "\<forall>j \<in> set (core_jobs r). typed_job j" and "b \<le> int64_max"
  shows "total_seconds s = (\<Sum>j \<leftarrow> core_jobs r. contribution a b j)
    \<and> total_allocations s = length (filter (\<lambda>j. contribution a b j > 0) (core_jobs r))
    \<and> seconds_of (by_account s) = (\<lambda>name. share job_account name a b (core_jobs r))
    \<and> seconds_of (by_user s) = (\<lambda>name. share job_user name a b (core_jobs r))
    \<and> group_sum (by_account s) = total_seconds s \<and> group_sum (by_user s) = total_seconds s
    \<and> distinct (map fst (by_account s)) \<and> distinct (map fst (by_user s))
    \<and> sorted (map (\<lambda>(name, g). (- core_seconds g, name)) (by_account s))
    \<and> sorted (map (\<lambda>(name, g). (- core_seconds g, name)) (by_user s))"
proof -
  obtain t where t: "add_jobs a b (core_jobs r) empty_summary = Inr t"
      "s = t\<lparr>by_account := sorted_core_hour_groups (by_account t),
            by_user := sorted_core_hour_groups (by_user t)\<rparr>"
    using assms(1) by (auto simp: parse_core_hours_def sum_bind_Inr split: if_splits)
  have ok: "summary_ok a b (core_jobs r) t"
    using add_jobs_ok [OF empty_summary_ok assms(2,3) t(1)] by simp
  have "sorted (map (\<lambda>(name, g). (- core_seconds g, name)) (sorted_core_hour_groups groups))" for groups
    by (simp add: sorted_core_hour_groups_def)
  then show ?thesis
    using ok sorted_groups_facts [of "by_account t"] sorted_groups_facts [of "by_user t"]
    by (auto simp: summary_ok_def groups_ok_def t(2) fun_eq_iff)
qed

definition example_job :: "string \<Rightarrow> string \<Rightarrow> int \<Rightarrow> int \<Rightarrow> string \<Rightarrow> int \<Rightarrow> core_job" where
  "example_job account_name uid start_time end_time state n =
     \<lparr>job_account = account_name, job_user = uid, job_partition = ''cpu'', time_start = start_time,
      time_end = end_time, current_states = [state], allocated = [\<lparr>tres_type = ''cpu'', tres_count = n\<rparr>]\<rparr>"

theorem core_hours_exact_witness:
  "\<exists>s. parse_core_hours (Some \<lparr>error_count = 0, core_jobs =
        [example_job ''a'' ''alice'' 1000 4600 ''COMPLETED'' 4, example_job ''a'' ''bob'' 6400 0 ''RUNNING'' 2,
         example_job ''b'' ''bob'' 0 0 ''PENDING'' 64]\<rparr>) 2000 10000 = Inr s
    \<and> total_seconds s = 4 * 2600 + 2 * 3600 \<and> seconds_of (by_user s) ''bob'' = 2 * 3600"
proof -
  let ?js = "[example_job ''a'' ''alice'' 1000 4600 ''COMPLETED'' 4,
    example_job ''a'' ''bob'' 6400 0 ''RUNNING'' 2, example_job ''b'' ''bob'' 0 0 ''PENDING'' 64]"
  have "case parse_core_hours (Some \<lparr>error_count = 0, core_jobs = ?js\<rparr>) 2000 10000 of
      Inl e \<Rightarrow> False | Inr s \<Rightarrow> True"
    by code_simp
  then obtain s where s: "parse_core_hours (Some \<lparr>error_count = 0, core_jobs = ?js\<rparr>) 2000 10000 = Inr s"
    by (auto split: sum.splits)
  have "\<forall>j \<in> set ?js. typed_job j"
    by (simp add: typed_job_def example_job_def int64_max_def)
  then have exact: "total_seconds s = (\<Sum>j \<leftarrow> ?js. contribution 2000 10000 j)
      \<and> seconds_of (by_user s) ''bob'' = share job_user ''bob'' 2000 10000 ?js"
    using core_hours_exact [OF s] by (simp add: int64_max_def)
  have "(\<Sum>j \<leftarrow> ?js. contribution 2000 10000 j) = 4 * 2600 + 2 * 3600"
    "share job_user ''bob'' 2000 10000 ?js = 2 * 3600"
    by code_simp+
  then show ?thesis using s exact by metis
qed

lemma add_cpus_accepts:
  assumes "0 \<le> r" and "\<forall>v \<in> set vs. equal_fold (tres_type v) ''cpu'' \<longrightarrow> 0 \<le> tres_count v"
    and "r + (\<Sum>v \<leftarrow> filter (\<lambda>v. equal_fold (tres_type v) ''cpu'') vs. tres_count v) \<le> int64_max"
  shows "\<exists>n. add_cpus r vs = Inr n"
  using assms
proof (induction vs arbitrary: r)
  case (Cons v vs)
  show ?case
  proof (cases "equal_fold (tres_type v) ''cpu''")
    case True
    let ?c = "tres_count v"
    have "0 \<le> (\<Sum>v \<leftarrow> filter (\<lambda>v. equal_fold (tres_type v) ''cpu'') vs. tres_count v)"
      using Cons.prems(2) by (intro sum_list_nonneg) auto
    then have c: "0 \<le> ?c" "r + ?c \<le> int64_max"
      using Cons.prems True by auto
    then have "wrap64 (int64_max - ?c) = int64_max - ?c" "wrap64 (r + ?c) = r + ?c"
      using Cons.prems(1) by (auto intro!: wrap64_nonneg)
    then show ?thesis using Cons.IH [of "r + ?c"] Cons.prems True c by auto
  qed (use Cons in simp)
qed simp

text \<open>
  No summary is refused without a reason. If the response decodes without errors, the window is
  not empty, the names are short and free of control characters, no CPU count is negative, and
  the CPUs of each job and the total fit into 64 bits, then there is a summary.
\<close>

theorem core_hours_accepts:
  assumes "error_count r = 0" and "a < b" and "b \<le> int64_max"
    and "\<forall>j \<in> set (core_jobs r). typed_job j \<and> cpus_of j \<le> int64_max
      \<and> validate_detail_strings [job_account j, job_user j, job_partition j] = Inr ()
      \<and> (\<forall>v \<in> set (allocated j). equal_fold (tres_type v) ''cpu'' \<longrightarrow> 0 \<le> tres_count v)"
    and "(\<Sum>j \<leftarrow> core_jobs r. contribution a b j) \<le> int64_max"
  shows "\<exists>s. parse_core_hours (Some r) a b = Inr s"
proof -
  have nonneg: "0 \<le> contribution a b j" if "j \<in> set (core_jobs r)" for j
    using that assms(4)
    by (auto simp: contribution_def overlap_def cpus_of_def intro!: mult_nonneg_nonneg sum_list_nonneg)
  have "\<exists>t. add_jobs a b js s = Inr t"
    if "summary_ok a b done s" and "done @ js = core_jobs r" for "done" js s
    using that
  proof (induction js arbitrary: "done" s)
    case (Cons j js)
    let ?c = "contribution a b j"
    have j: "j \<in> set (core_jobs r)" and rest: "set js \<subseteq> set (core_jobs r)"
      using Cons.prems(2) by (metis in_set_conv_decomp, metis Un_iff set_append set_subset_Cons subsetI subsetD)
    have "(\<Sum>i \<leftarrow> js. contribution a b i) \<ge> 0"
      using rest nonneg by (intro sum_list_nonneg) auto
    moreover have "(\<Sum>i \<leftarrow> core_jobs r. contribution a b i)
        = total_seconds s + ?c + (\<Sum>i \<leftarrow> js. contribution a b i)"
      using Cons.prems(1) unfolding Cons.prems(2) [symmetric] by (simp add: summary_ok_def)
    ultimately have fits: "total_seconds s + ?c \<le> int64_max" using assms(5) by linarith
    have t0: "0 \<le> total_seconds s" "total_seconds s \<le> int64_max"
      using Cons.prems(1) by (auto simp: summary_ok_def intro!: sum_list_nonneg)
    obtain n where "allocated_cpus (allocated j) = Inr n"
      using add_cpus_accepts [of 0 "allocated j"] assms(4) j by (auto simp: allocated_cpus_def cpus_of_def)
    moreover have "typed_job j" using assms(4) j by simp
    ultimately obtain t where t: "add_job a b j s = Inr t"
      using add_job_exact [OF _ assms(3) t0, of j a] assms(4) j fits nonneg [OF j] t0 by fastforce
    have "summary_ok a b (done @ [j]) t"
      using add_job_ok [OF Cons.prems(1) _ assms(3) t] assms(4) j by simp
    then show ?case using Cons.IH [of "done @ [j]" t] Cons.prems(2) t by simp
  qed simp
  from this [OF empty_summary_ok] show ?thesis
    using assms(1,2) by (auto simp: parse_core_hours_def)
qed

theorem core_hours_accepts_witness:
  "\<exists>s. parse_core_hours (Some \<lparr>error_count = 0, core_jobs =
        [example_job '''' ''alice'' 1000 4600 ''COMPLETED'' 4]\<rparr>) 2000 10000 = Inr s"
proof (rule core_hours_accepts)
  have "validate_detail_strings ['''', ''alice'', ''cpu''] = Inr ()" by code_simp
  moreover have "equal_fold ''cpu'' ''cpu''" by (simp add: equal_fold_def)
  ultimately show "\<forall>j \<in> set (core_jobs \<lparr>error_count = 0, core_jobs =
        [example_job '''' ''alice'' 1000 4600 ''COMPLETED'' 4]\<rparr>). typed_job j \<and> cpus_of j \<le> int64_max
      \<and> validate_detail_strings [job_account j, job_user j, job_partition j] = Inr ()
      \<and> (\<forall>v \<in> set (allocated j). equal_fold (tres_type v) ''cpu'' \<longrightarrow> 0 \<le> tres_count v)"
    by (simp add: example_job_def typed_job_def cpus_of_def int64_max_def)
  have "contribution 2000 10000 (example_job '''' ''alice'' 1000 4600 ''COMPLETED'' 4) = 10400"
    by code_simp
  then show "(\<Sum>j \<leftarrow> core_jobs \<lparr>error_count = 0, core_jobs =
        [example_job '''' ''alice'' 1000 4600 ''COMPLETED'' 4]\<rparr>. contribution 2000 10000 j) \<le> int64_max"
    by (simp add: int64_max_def)
qed (simp_all add: int64_max_def)

end
