(* ===== verification/SlurmConfig.thy ===== *)
theory SlurmConfig
  imports Utf8
begin

text \<open>
  The browser of Slurm's configuration files: the provider
  (\<open>internal/slurmconfig/provider.go\<close>) and its page (\<open>internal/web/slurm_config.go\<close>). The root
  directory is a list of entries in the order in which the system returns them, with distinct
  names. The Unicode case mapping is \<open>go_lower\<close>; failures of single system calls are the
  parameters \<open>list_ok\<close> and \<open>open_ok\<close>.
\<close>

section \<open>Data\<close>

datatype file_kind = RegularFile | SymbolicLink | OtherFile

record config_entry =
  entry_name :: string
  entry_kind :: file_kind
  entry_bytes :: string

record config_view =
  selected_name :: string
  selected_size :: nat
  selected_content :: string
  selected_truncated :: bool

section \<open>Names\<close>

text \<open>
  The characters of the raw string literal that \<open>validConfigName\<close> passes to \<open>ContainsAny\<close>: in a
  raw literal nothing is an escape.
\<close>

definition raw_forbidden :: string where
  "raw_forbidden = [CHR ''/'', CHR 0x5C, CHR 0x5C, CHR 0x5C, CHR ''x'', CHR ''0'', CHR ''0'']"

definition config_char :: "char \<Rightarrow> bool" where
  "config_char c \<longleftrightarrow>
     byte_at_most 97 c 122 \<or> byte_at_most 65 c 90 \<or> byte_at_most 48 c 57
   \<or> c = CHR ''.'' \<or> c = CHR ''_'' \<or> c = CHR ''-''"

definition valid_config_name :: "string \<Rightarrow> bool" where
  "valid_config_name name \<longleftrightarrow>
     \<not> (name = '''' \<or> length name > 128 \<or> name = ''.'' \<or> name = ''..''
        \<or> list_ex (\<lambda>c. c \<in> set raw_forbidden) name)
   \<and> list_all config_char name"

section \<open>Redaction\<close>

definition secret_markers :: "string list" where
  "secret_markers =
     [''password'', ''pass'', ''token'', ''secret'', ''privatekey'', ''authinfo'', ''jwt'']"

fun contains :: "string \<Rightarrow> string \<Rightarrow> bool" where
  \<comment> \<open>\<open>strings.Contains\<close>\<close>
  "contains s [] = (s = [])"
| "contains s (c # cs) = (take (length s) (c # cs) = s \<or> contains s cs)"

definition line_key :: "string \<Rightarrow> string" where
  "line_key line = takeWhile (\<lambda>c. c \<noteq> CHR ''='') line"

definition sensitive_line :: "string \<Rightarrow> bool" where
  \<comment> \<open>\<open>IndexByte\<close> is positive and the key contains a marker\<close>
  "sensitive_line line \<longleftrightarrow>
     CHR ''='' \<in> set line \<and> line_key line \<noteq> []
   \<and> list_ex (\<lambda>m. contains m (go_lower (trim_space (line_key line)))) secret_markers"

definition redact_line :: "string \<Rightarrow> string" where
  "redact_line line = (if sensitive_line line then line_key line @ ''=REDACTED'' else line)"

definition newline :: string where
  "newline = [CHR 0x0A]"

definition redact :: "string \<Rightarrow> string" where
  "redact content = join_str newline (map redact_line (split_str newline content))"

section \<open>Listing and reading\<close>

definition max_config_files :: nat where
  "max_config_files = 128"

fun list_loop :: "config_entry list \<Rightarrow> (string \<times> nat) list \<Rightarrow> (string \<times> nat) list" where
  "list_loop [] result = result"
| "list_loop (e # es) result =
     (if length result \<ge> max_config_files \<or> \<not> valid_config_name (entry_name e)
         \<or> entry_kind e = SymbolicLink \<or> entry_kind e \<noteq> RegularFile
      then list_loop es result
      else list_loop es (result @ [(entry_name e, length (entry_bytes e))]))"

definition list_config :: "config_entry list \<Rightarrow> (string \<times> nat) list" where
  "list_config dir = sort_key fst (list_loop dir [])"

definition read_config :: "nat \<Rightarrow> bool \<Rightarrow> config_entry list \<Rightarrow> string \<Rightarrow> config_view option" where
  \<comment> \<open>\<open>openat\<close> with \<open>O_NOFOLLOW\<close> fails for a link\<close>
  "read_config max_bytes open_ok dir name =
     (if \<not> valid_config_name name \<or> \<not> open_ok then None
      else case find (\<lambda>e. entry_name e = name) dir of
          None \<Rightarrow> None
        | Some e \<Rightarrow>
            if entry_kind e \<noteq> RegularFile then None
            else
              let content = take (max_bytes + 1) (entry_bytes e);
                  truncated = length content > max_bytes;
                  content = (if truncated then take max_bytes content else content);
                  content = (if valid_utf8 content then content else to_valid_utf8 content)
              in Some \<lparr>selected_name = name, selected_size = length (entry_bytes e),
                      selected_content = redact content, selected_truncated = truncated\<rparr>)"

section \<open>The page\<close>

datatype config_answer =
  ConfigStatus nat
| ConfigPage "(string \<times> nat) list" "config_view option" bool

text \<open>The outcome that is recorded in the audit log, with the answer that goes out if that works.\<close>

definition slurm_config ::
  "nat \<Rightarrow> bool \<Rightarrow> bool \<Rightarrow> config_entry list option \<Rightarrow> string \<Rightarrow> string \<times> config_answer" where
  "slurm_config max_bytes list_ok open_ok provider file_name =
     (if file_name \<noteq> '''' \<and> \<not> valid_config_name file_name then (''invalid_request'', ConfigStatus 400)
      else case provider of
          None \<Rightarrow> (''unavailable'', ConfigPage [] None False)
        | Some dir \<Rightarrow>
            if \<not> list_ok then (''unavailable'', ConfigPage [] None False)
            else if file_name = '''' then (''success'', ConfigPage (list_config dir) None True)
            else case read_config max_bytes open_ok dir file_name of
                None \<Rightarrow> (''denied'', ConfigStatus 404)
              | Some file \<Rightarrow> (''success'', ConfigPage (list_config dir) (Some file) True))"

definition slurm_config_request ::
  "bool \<Rightarrow> nat \<Rightarrow> bool \<Rightarrow> bool \<Rightarrow> config_entry list option \<Rightarrow> string \<Rightarrow> config_answer" where
  "slurm_config_request audit_ok max_bytes list_ok open_ok provider file_name =
     (if audit_ok then snd (slurm_config max_bytes list_ok open_ok provider file_name)
      else ConfigStatus 503)"

section \<open>Lines\<close>

lemma line_key_append: "CHR ''='' \<notin> set key \<Longrightarrow> line_key (key @ ''='' @ rest) = key"
  by (induction key) (auto simp: line_key_def)

lemma line_key_redacted: "line_key (line_key line @ ''=REDACTED'') = line_key line"
  using line_key_append [of "line_key line" "''REDACTED''"]
  by (auto simp: line_key_def dest: set_takeWhileD)

lemma sensitive_redacted: "sensitive_line line \<Longrightarrow> sensitive_line (redact_line line)"
  using line_key_redacted [of line] by (simp add: redact_line_def sensitive_line_def)

lemma redact_line_idem: "redact_line (redact_line line) = redact_line line"
  using sensitive_redacted [of line] line_key_redacted [of line] by (auto simp: redact_line_def)

lemma redact_line_newline:
  assumes "CHR 0x0A \<notin> set line"
  shows "CHR 0x0A \<notin> set (redact_line line)"
  using assms by (auto simp: redact_line_def line_key_def dest: set_takeWhileD)

lemma lines_of_redact: "split_str newline (redact content) = map redact_line (split_str newline content)"
proof -
  have "\<forall>l \<in> set (map redact_line (split_str newline content)). CHR 0x0A \<notin> set l"
    using redact_line_newline split_char_pieces by (fastforce simp: newline_def)
  then show ?thesis
    unfolding redact_def newline_def by (rule split_char_join) simp
qed

lemma split_char_append: "split_str [c] (a @ c # b) = split_str [c] a @ split_str [c] b"
  by (induction a) (auto split: list.splits)

lemma join_str_append:
  "xs \<noteq> [] \<Longrightarrow> ys \<noteq> [] \<Longrightarrow> join_str sep (xs @ ys) = join_str sep xs @ sep @ join_str sep ys"
  by (induction sep xs rule: join_str.induct) (auto simp: join_str_Cons)

lemma redact_append: "redact (a @ newline @ b) = redact a @ newline @ redact b"
  by (simp add: redact_def newline_def split_char_append join_str_append)

lemma redact_one_line: "CHR 0x0A \<notin> set line \<Longrightarrow> redact line = redact_line line"
  by (simp add: redact_def newline_def split_char_no_sep)

section \<open>Lists\<close>

lemma list_loop_eq:
  "list_loop es result = result @ take (max_config_files - length result)
     (map (\<lambda>e. (entry_name e, length (entry_bytes e)))
       (filter (\<lambda>e. valid_config_name (entry_name e) \<and> entry_kind e = RegularFile) es))"
  by (induction es result rule: list_loop.induct)
    (auto simp: Suc_diff_le take_Cons' split: if_splits)

lemma raw_forbidden_iff:
  "config_char c \<Longrightarrow> c \<in> set raw_forbidden \<longleftrightarrow> c = CHR ''x'' \<or> c = CHR ''0''"
  by (auto simp: raw_forbidden_def config_char_def)

section \<open>Properties\<close>

text \<open>
  Secrets are masked line by line. The page shows as many lines as the file has. A line whose
  first key contains one of the markers, in either case and with spaces around it, is shown as
  that key and \<open>=REDACTED\<close>, so that no byte behind its first equals sign is left; every other
  line is shown as it is; and masking twice changes nothing more.
\<close>

theorem secrets_masked:
  "split_str newline (redact content) = map redact_line (split_str newline content)
   \<and> redact (redact content) = redact content
   \<and> (sensitive_line line \<longrightarrow> redact_line line = line_key line @ ''=REDACTED'')
   \<and> (\<not> sensitive_line line \<longrightarrow> redact_line line = line)"
proof -
  have "redact (redact content) = redact content"
    unfolding redact_def [of "redact content"] lines_of_redact
    by (simp add: redact_line_idem redact_def comp_def)
  then show ?thesis using lines_of_redact by (simp add: redact_line_def)
qed

theorem secrets_masked_witness:
  "redact (''ClusterName=c'' @ newline @ '' StoragePass = s3cr=et'') = ''ClusterName=c'' @ newline @ '' StoragePass =REDACTED''
   \<and> redact_line '' StoragePass = s3cr=et'' = '' StoragePass =REDACTED''"
proof -
  have l: "sensitive_line '' StoragePass = s3cr=et''" "\<not> sensitive_line ''ClusterName=c''"
    "line_key '' StoragePass = s3cr=et'' = '' StoragePass ''"
    "split_str newline (''ClusterName=c'' @ newline @ '' StoragePass = s3cr=et'')
      = [''ClusterName=c'', '' StoragePass = s3cr=et'']"
    by code_simp+
  note masked = secrets_masked [of "''ClusterName=c'' @ newline @ '' StoragePass = s3cr=et''"]
  have pass: "redact_line '' StoragePass = s3cr=et'' = '' StoragePass =REDACTED''"
    using masked [of "'' StoragePass = s3cr=et''"] l by simp
  have "redact_line ''ClusterName=c'' = ''ClusterName=c''"
    using masked [of "''ClusterName=c''"] l(2) by simp
  with pass l(4) show ?thesis by (simp add: redact_def)
qed

text \<open>
  What the mask leaves visible. Only the key before the first equals sign of a line counts: the
  continuation of a masked value on the next line is shown, and so is whatever follows a
  harmless key, also a further pair on the same line whose key is a marker.
\<close>

theorem later_pairs_visible:
  assumes "CHR ''='' \<notin> set continued" and "CHR 0x0A \<notin> set (continued @ key @ pairs)"
    and "CHR ''='' \<notin> set key"
    and "\<not> list_ex (\<lambda>m. contains m (go_lower (trim_space key))) secret_markers"
  shows "redact (secret_line @ newline @ continued @ newline @ key @ ''='' @ pairs)
    = redact secret_line @ newline @ continued @ newline @ key @ ''='' @ pairs"
proof -
  have "\<not> sensitive_line continued" "\<not> sensitive_line (key @ ''='' @ pairs)"
    using assms(1,4) line_key_append [OF assms(3)] by (auto simp: sensitive_line_def)
  moreover have "CHR 0x0A \<notin> set continued" "CHR 0x0A \<notin> set (key @ ''='' @ pairs)"
    using assms(2) by auto
  ultimately have "redact continued = continued" "redact (key @ ''='' @ pairs) = key @ ''='' @ pairs"
    using redact_one_line [of continued] redact_one_line [of "key @ ''='' @ pairs"]
    by (simp_all add: redact_line_def)
  then show ?thesis by (simp only: redact_append)
qed

theorem later_pairs_visible_witness:
  "redact (''StoragePass=v'' @ newline @ ''s3cret'' @ newline @ ''NodeName'' @ ''='' @ ''n1 Password=x'')
     = redact ''StoragePass=v'' @ newline @ ''s3cret'' @ newline @ ''NodeName'' @ ''='' @ ''n1 Password=x''"
proof (rule later_pairs_visible)
  show "\<not> list_ex (\<lambda>m. contains m (go_lower (trim_space ''NodeName''))) secret_markers"
    by code_simp
qed simp_all

text \<open>
  The listing and the reader agree. Every file that the page lists can be selected: in a directory
  with distinct names, the answer for it is the page with its masked content, its size and
  whether it was cut. The list is in order, names at most 128 files, and each of them is a
  regular file with an accepted name.
\<close>

theorem listed_files_open:
  assumes "distinct (map entry_name dir)" and "(name, n) \<in> set (list_config dir)"
  shows "\<exists>e \<in> set dir. entry_name e = name \<and> n = length (entry_bytes e)
    \<and> entry_kind e = RegularFile
    \<and> slurm_config max_bytes True True (Some dir) name
      = (''success'', ConfigPage (list_config dir)
          (Some \<lparr>selected_name = name, selected_size = n,
             selected_content = redact (to_valid_utf8 (take max_bytes (entry_bytes e))),
             selected_truncated = (n > max_bytes)\<rparr>) True)
    \<and> sorted (map fst (list_config dir)) \<and> length (list_config dir) \<le> 128"
proof -
  have mem: "(name, n) \<in> set (list_loop dir [])"
    using assms(2) by (simp add: list_config_def)
  then obtain e where e: "e \<in> set dir" "entry_name e = name" "n = length (entry_bytes e)"
      "valid_config_name name" "entry_kind e = RegularFile"
    unfolding list_loop_eq append_Nil by (auto dest!: in_set_takeD)
  have find: "find (\<lambda>d. entry_name d = name) dir = Some e"
    using assms(1) e(1,2)
  proof (induction dir)
    case (Cons d ds)
    then show ?case by (cases "d = e") auto
  qed simp
  have "(if valid_utf8 c then c else to_valid_utf8 c) = to_valid_utf8 c" for c
    by (simp add: to_valid_utf8_def scrub_valid)
  moreover have "take max_bytes (take (Suc max_bytes) c) = take max_bytes c" for c :: string
    by (simp add: min_def)
  moreover have "take (Suc max_bytes) (entry_bytes e) = take max_bytes (entry_bytes e)" if "\<not> n > max_bytes"
    using that e(3) by simp
  ultimately have "read_config max_bytes True dir name
      = Some \<lparr>selected_name = name, selected_size = n,
          selected_content = redact (to_valid_utf8 (take max_bytes (entry_bytes e))),
          selected_truncated = (n > max_bytes)\<rparr>"
    using find e by (auto simp: read_config_def Let_def)
  moreover have "name \<noteq> ''''" using e(4) by (auto simp: valid_config_name_def)
  moreover have "sorted (map fst (list_config dir))" by (simp add: list_config_def)
  moreover have "length (list_config dir) \<le> 128"
    by (simp add: list_config_def list_loop_eq max_config_files_def)
  ultimately show ?thesis using e by (auto simp: slurm_config_def)
qed

theorem listed_files_open_witness:
  "let dir = [\<lparr>entry_name = ''slurm.conf'', entry_kind = RegularFile, entry_bytes = ''A=1''\<rparr>,
              \<lparr>entry_name = ''link'', entry_kind = SymbolicLink, entry_bytes = ''''\<rparr>]
   in list_config dir = [(''slurm.conf'', 3)] \<and> fst (slurm_config 2 True True (Some dir) ''slurm.conf'') = ''success''"
proof -
  let ?dir = "[\<lparr>entry_name = ''slurm.conf'', entry_kind = RegularFile, entry_bytes = ''A=1''\<rparr>,
    \<lparr>entry_name = ''link'', entry_kind = SymbolicLink, entry_bytes = ''''\<rparr>]"
  have l: "list_config ?dir = [(''slurm.conf'', 3)]" by code_simp
  then have "(''slurm.conf'', 3) \<in> set (list_config ?dir)" by simp
  then show ?thesis
    using listed_files_open [of ?dir "''slurm.conf''" 3 2] l by (auto simp: Let_def)
qed

text \<open>
  Names with an \<open>x\<close> or a zero are refused. The literal with the forbidden characters is a raw
  string, so it forbids the letters of the escape it was meant to contain: of the names made
  of accepted characters, exactly those with an \<open>x\<close> or a \<open>0\<close> are left out of the list, and a
  request for one is answered 400.
\<close>

theorem names_with_x_refused:
  assumes "list_all config_char name" and "name \<notin> {'''', ''.'', ''..''}" and "length name \<le> 128"
  shows "(valid_config_name name \<longleftrightarrow> CHR ''x'' \<notin> set name \<and> CHR ''0'' \<notin> set name)
    \<and> (CHR ''x'' \<in> set name \<or> CHR ''0'' \<in> set name \<longrightarrow>
        slurm_config_request True max_bytes list_ok open_ok provider name = ConfigStatus 400
        \<and> (\<forall>dir. name \<notin> fst ` set (list_config dir)))"
proof -
  have iff: "valid_config_name name \<longleftrightarrow> CHR ''x'' \<notin> set name \<and> CHR ''0'' \<notin> set name"
    using assms raw_forbidden_iff by (auto simp: valid_config_name_def list_all_iff list_ex_iff)
  have "valid_config_name name" if "name \<in> fst ` set (list_config dir)" for dir
    using that unfolding list_config_def set_sort list_loop_eq append_Nil
    by (auto dest!: in_set_takeD)
  then show ?thesis
    using iff assms(2) by (auto simp: slurm_config_request_def slurm_config_def)
qed

theorem names_with_x_refused_witness:
  "\<not> valid_config_name ''plugstack-x11.conf''
   \<and> slurm_config_request True 4 True True (Some [\<lparr>entry_name = ''plugstack-x11.conf'',
        entry_kind = RegularFile, entry_bytes = ''A=1''\<rparr>]) ''plugstack-x11.conf'' = ConfigStatus 400"
proof -
  have "list_all config_char ''plugstack-x11.conf''" by code_simp
  from names_with_x_refused [OF this] show ?thesis by simp
qed

end
