(* ===== verification/ValueCache.thy ===== *)
theory ValueCache
  imports Prelude
begin

text \<open>
  The cache in front of Slurm's commands (\<open>internal/slurm/cache.go\<close>), which every page of nodes,
  jobs, accounts and core hours reads through and which a cancelled job and a changed node
  invalidate. Goroutines run interleaved: each step below is what one of them does while it
  holds the mutex, or the loading between two of them. A run is any list of steps; a step
  that cannot be taken changes nothing.

  The command that loads is the parameter \<open>world\<close>, what it answers at a time; value and error
  are one answer. A channel is a number; the state has the set of those that have been closed,
  and a request that waits for one goes on only when it is in that set.
\<close>

datatype 'v goroutine =
  Idle
| Entered                    \<comment> \<open>at the head of the loop\<close>
| Waiting nat                \<comment> \<open>for the channel to be closed\<close>
| Loading nat                \<comment> \<open>has made the channel, loader not answered\<close>
| Loaded nat 'v              \<comment> \<open>loader has answered, lock not taken again\<close>
| Returned 'v
| Cancelled

record 'v value_cache =
  last_attempt :: "int option"    \<comment> \<open>\<open>None\<close> is the zero time\<close>
  cached :: 'v
  refreshing :: "nat option"
  next_channel :: nat
  closed :: "nat set"
  clock :: int
  goroutines :: "nat \<Rightarrow> 'v goroutine"

datatype cache_event =
  Tick nat
| Call nat
| Look nat
| Load nat
| Store nat bool bool    \<comment> \<open>context over before the value is stored, and before the return\<close>
| GiveUp nat
| Invalidate

definition set_goroutine :: "nat \<Rightarrow> 'v goroutine \<Rightarrow> 'v value_cache \<Rightarrow> 'v value_cache" where
  "set_goroutine g x s = s\<lparr>goroutines := (goroutines s)(g := x)\<rparr>"

definition cache_fresh :: "int \<Rightarrow> 'v value_cache \<Rightarrow> bool" where
  "cache_fresh ttl s = (case last_attempt s of None \<Rightarrow> False | Some t \<Rightarrow> clock s - t < ttl)"

definition look :: "int \<Rightarrow> nat \<Rightarrow> 'v value_cache \<Rightarrow> 'v value_cache" where
  \<comment> \<open>one turn of the loop of \<open>get\<close>, up to where the lock is given back\<close>
  "look ttl g s =
     (if cache_fresh ttl s then set_goroutine g (Returned (cached s)) s
      else case refreshing s of
          Some ch \<Rightarrow> set_goroutine g (Waiting ch) s
        | None \<Rightarrow> set_goroutine g (Loading (next_channel s))
            (s\<lparr>refreshing := Some (next_channel s), next_channel := next_channel s + 1\<rparr>))"

definition close_channel :: "nat \<Rightarrow> 'v value_cache \<Rightarrow> 'v value_cache" where
  "close_channel ch s = s\<lparr>closed := insert ch (closed s)\<rparr>"

definition store :: "nat \<Rightarrow> nat \<Rightarrow> bool \<Rightarrow> bool \<Rightarrow> 'v \<Rightarrow> 'v value_cache \<Rightarrow> 'v value_cache" where
  \<comment> \<open>the end of \<open>get\<close>, with the channel it has made\<close>
  "store g ch over_before over_after v s =
     (let s = (if over_before then s else s\<lparr>last_attempt := Some (clock s), cached := v\<rparr>);
          s = s\<lparr>refreshing := None\<rparr>;
          s = close_channel ch s
      in set_goroutine g (if over_before \<or> over_after then Cancelled else Returned v) s)"

definition invalidate :: "'v value_cache \<Rightarrow> 'v value_cache" where
  "invalidate s = s\<lparr>last_attempt := None\<rparr>"

fun cache_act :: "int \<Rightarrow> (int \<Rightarrow> 'v) \<Rightarrow> cache_event \<Rightarrow> 'v value_cache \<Rightarrow> 'v value_cache" where
  "cache_act ttl world (Tick d) s = s\<lparr>clock := clock s + int d\<rparr>"
| "cache_act ttl world (Call g) s =
     (case goroutines s g of Idle \<Rightarrow> set_goroutine g Entered s | _ \<Rightarrow> s)"
| "cache_act ttl world (Look g) s =
     (case goroutines s g of
        Entered \<Rightarrow> look ttl g s
      | Waiting ch \<Rightarrow> if ch \<in> closed s then look ttl g s else s
      | _ \<Rightarrow> s)"
| "cache_act ttl world (Load g) s =
     (case goroutines s g of
        Loading ch \<Rightarrow> set_goroutine g (Loaded ch (world (clock s))) s
      | _ \<Rightarrow> s)"
| "cache_act ttl world (Store g over_before over_after) s =
     (case goroutines s g of Loaded ch v \<Rightarrow> store g ch over_before over_after v s | _ \<Rightarrow> s)"
| "cache_act ttl world (GiveUp g) s =
     (case goroutines s g of Waiting ch \<Rightarrow> set_goroutine g Cancelled s | _ \<Rightarrow> s)"
| "cache_act ttl world Invalidate s = invalidate s"

definition run_cache ::
  "int \<Rightarrow> (int \<Rightarrow> 'v) \<Rightarrow> cache_event list \<Rightarrow> 'v value_cache \<Rightarrow> 'v value_cache" where
  "run_cache ttl world evs s = fold (cache_act ttl world) evs s"

definition new_cache :: "'v \<Rightarrow> int \<Rightarrow> 'v value_cache" where
  "new_cache zero t =
     \<lparr>last_attempt = None, cached = zero, refreshing = None, next_channel = 0, closed = {}, clock = t,
      goroutines = (\<lambda>g. Idle)\<rparr>"

section \<open>Invariant\<close>

fun channel_of :: "'v goroutine \<Rightarrow> nat option" where
  "channel_of (Loading ch) = Some ch"
| "channel_of (Loaded ch v) = Some ch"
| "channel_of _ = None"

fun answer_of :: "'v goroutine \<Rightarrow> 'v option" where
  "answer_of (Loaded ch v) = Some v"
| "answer_of (Returned v) = Some v"
| "answer_of _ = None"

text \<open>Exactly one goroutine loads while the channel is open, and none otherwise.\<close>

definition loader_ok :: "'v value_cache \<Rightarrow> bool" where
  "loader_ok s \<longleftrightarrow>
     (case refreshing s of
        None \<Rightarrow> \<forall>h. channel_of (goroutines s h) = None
      | Some ch \<Rightarrow> \<exists>g. \<forall>h. channel_of (goroutines s h) = (if h = g then Some ch else None))"

text \<open>Every answer around has been the command's answer at some time so far.\<close>

definition answers_ok :: "(int \<Rightarrow> 'v) \<Rightarrow> 'v value_cache \<Rightarrow> bool" where
  "answers_ok world s \<longleftrightarrow>
     (\<forall>t. last_attempt s = Some t \<longrightarrow> t \<le> clock s \<and> (\<exists>l \<le> t. cached s = world l))
   \<and> (\<forall>g v. answer_of (goroutines s g) = Some v \<longrightarrow> (\<exists>l \<le> clock s. v = world l))"

lemma goroutines_set [simp]:
  "goroutines (set_goroutine g x s) h = (if h = g then x else goroutines s h)"
  "last_attempt (set_goroutine g x s) = last_attempt s"
  "cached (set_goroutine g x s) = cached s"
  "refreshing (set_goroutine g x s) = refreshing s"
  "next_channel (set_goroutine g x s) = next_channel s"
  "closed (set_goroutine g x s) = closed s"
  "clock (set_goroutine g x s) = clock s"
  by (simp_all add: set_goroutine_def)

lemma loader_ok_same:
  assumes "loader_ok s" and "refreshing t = refreshing s"
    and "\<And>h. channel_of (goroutines t h) = channel_of (goroutines s h)"
  shows "loader_ok t"
  using assms(1) by (simp only: loader_ok_def assms(2,3))

lemma loader_ok_none: "loader_ok s \<Longrightarrow> refreshing s = None \<Longrightarrow> channel_of (goroutines s h) = None"
  by (simp add: loader_ok_def)

lemma loader_ok_look:
  assumes "loader_ok s" and "channel_of (goroutines s g) = None"
  shows "loader_ok (look ttl g s)"
proof (cases "cache_fresh ttl s \<or> refreshing s \<noteq> None")
  case True
  then show ?thesis
    using assms by (intro loader_ok_same [OF assms(1)]) (auto simp: look_def split: option.splits)
next
  case False
  then have "channel_of (goroutines s h) = None" for h
    using loader_ok_none [OF assms(1)] by simp
  then show ?thesis using False by (auto simp: look_def loader_ok_def)
qed

lemma loader_ok_store:
  assumes "loader_ok s" and "goroutines s g = Loaded ch v"
  shows "loader_ok (store g ch b a v s)"
proof -
  obtain c where "refreshing s = Some c"
    using assms loader_ok_none [OF assms(1), of g] by (cases "refreshing s") auto
  then obtain k where k: "\<forall>h. channel_of (goroutines s h) = (if h = k then Some c else None)"
    using assms(1) by (auto simp: loader_ok_def)
  then have "k = g" using assms(2) by (metis channel_of.simps(2) option.distinct(1))
  then show ?thesis using k by (simp add: loader_ok_def store_def close_channel_def Let_def)
qed

lemma loader_ok_act:
  assumes "loader_ok s"
  shows "loader_ok (cache_act ttl world ev s)"
proof (cases ev)
  case (Look g)
  then show ?thesis using assms loader_ok_look [OF assms, of g] by (simp split: goroutine.splits)
next
  case (Store g b a)
  then show ?thesis using assms by (auto intro: loader_ok_store split: goroutine.splits)
qed (use assms in \<open>auto intro!: loader_ok_same [OF assms] simp: invalidate_def split: goroutine.splits\<close>)

lemma answers_ok_look:
  assumes "answers_ok world s"
  shows "answers_ok world (look ttl g s)"
proof -
  have "\<exists>l \<le> clock s. cached s = world l" if "last_attempt s = Some t" for t
    using assms that unfolding answers_ok_def by (meson order_trans)
  then show ?thesis
    using assms
    by (auto simp: answers_ok_def look_def cache_fresh_def split: option.splits if_splits)
qed

lemma answers_ok_later:
  "answers_ok world s \<Longrightarrow> clock s \<le> c \<Longrightarrow> answers_ok world (s\<lparr>clock := c\<rparr>)"
  unfolding answers_ok_def by (simp; meson order_trans)

lemma answers_ok_store:
  assumes "answers_ok world s" and "goroutines s g = Loaded ch v"
  shows "answers_ok world (store g ch b a v s)"
proof -
  obtain l where "l \<le> clock s" "v = world l"
    using assms unfolding answers_ok_def by (metis answer_of.simps(1))
  then show ?thesis using assms(1) by (auto simp: answers_ok_def store_def close_channel_def Let_def)
qed

lemma answers_ok_act:
  assumes "answers_ok world s"
  shows "answers_ok world (cache_act ttl world ev s)"
proof (cases ev)
  case (Tick d)
  then show ?thesis using answers_ok_later [OF assms] by simp
next
  case (Look g)
  then show ?thesis using assms answers_ok_look [OF assms] by (simp split: goroutine.splits)
next
  case (Store g b a)
  then show ?thesis using assms by (auto intro: answers_ok_store split: goroutine.splits)
qed (use assms in \<open>auto simp: answers_ok_def invalidate_def split: goroutine.splits\<close>)

text \<open>
  The channel of the load is not closed, every channel before it is, and nobody waits for one
  that has not been made.
\<close>

definition channels_ok :: "'v value_cache \<Rightarrow> bool" where
  "channels_ok s \<longleftrightarrow>
     closed s \<union> set_option (refreshing s) = {..<next_channel s}
   \<and> closed s \<inter> set_option (refreshing s) = {}
   \<and> (\<forall>g ch. goroutines s g = Waiting ch \<longrightarrow> ch < next_channel s)"

lemma channels_ok_look:
  assumes "channels_ok s"
  shows "channels_ok (look ttl g s)"
proof (cases "cache_fresh ttl s")
  case True
  then show ?thesis using assms by (auto simp: channels_ok_def look_def)
next
  case stale: False
  show ?thesis
  proof (cases "refreshing s")
    case None
    then have "closed s = {..<next_channel s}" using assms by (simp add: channels_ok_def)
    then show ?thesis using stale None assms by (auto simp: channels_ok_def look_def less_Suc_eq)
  next
    case (Some c)
    then have "c < next_channel s" using assms by (auto simp: channels_ok_def)
    then show ?thesis using stale Some assms by (auto simp: channels_ok_def look_def)
  qed
qed

lemma channels_ok_store:
  assumes "channels_ok s" and "loader_ok s" and "goroutines s g = Loaded ch v"
  shows "channels_ok (store g ch b a v s)"
proof -
  have "refreshing s = Some ch"
  proof (cases "refreshing s")
    case None
    then show ?thesis using loader_ok_none [OF assms(2) None, of g] assms(3) by simp
  next
    case (Some c)
    then obtain k where "\<forall>h. channel_of (goroutines s h) = (if h = k then Some c else None)"
      using assms(2) by (auto simp: loader_ok_def)
    then show ?thesis using Some assms(3) by (metis channel_of.simps(2) option.distinct(1))
  qed
  then show ?thesis using assms(1) by (auto simp: channels_ok_def store_def close_channel_def Let_def)
qed

lemma channels_ok_act:
  assumes "channels_ok s" and "loader_ok s"
  shows "channels_ok (cache_act ttl world ev s)"
proof (cases ev)
  case (Look g)
  then show ?thesis using assms(1) channels_ok_look [OF assms(1)] by (simp split: goroutine.splits)
next
  case (Store g b a)
  then show ?thesis using assms by (auto intro: channels_ok_store split: goroutine.splits)
qed (use assms(1) in \<open>auto simp: channels_ok_def invalidate_def split: goroutine.splits\<close>)

lemma run_cache_ok:
  assumes "s = run_cache ttl world evs (new_cache zero t)"
  shows "loader_ok s" and "answers_ok world s" and "channels_ok s"
proof -
  have "loader_ok s \<and> answers_ok world s \<and> channels_ok s" unfolding assms
  proof (induction evs rule: rev_induct)
    case Nil
    show ?case by (simp add: run_cache_def new_cache_def loader_ok_def answers_ok_def channels_ok_def)
  next
    case (snoc ev evs)
    then show ?case by (simp add: run_cache_def loader_ok_act answers_ok_act channels_ok_act)
  qed
  then show "loader_ok s" "answers_ok world s" "channels_ok s" by simp_all
qed

lemma run_cache_append:
  "run_cache ttl world (xs @ ys) s = run_cache ttl world ys (run_cache ttl world xs s)"
  by (simp add: run_cache_def)

section \<open>Properties\<close>

lemma closed_by_loader:
  assumes "loader_ok s" and "refreshing s = Some ch"
  shows "\<exists>h. channel_of (goroutines s h) = Some ch
    \<and> (\<forall>b a. ch \<in> closed (run_cache ttl world [Load h, Store h b a] s))"
proof -
  obtain h where h: "channel_of (goroutines s h) = Some ch"
    using assms by (auto simp: loader_ok_def)
  have "ch \<in> closed (run_cache ttl world [Load h, Store h b a] s)" for b a
    using h by (cases "goroutines s h") (simp_all add: run_cache_def store_def close_channel_def Let_def)
  then show ?thesis using h by blast
qed

text \<open>
  C16. One command at a time, and nobody waits for nothing. However the requests are interleaved, at
  most one of them runs the command, exactly while the cache has a channel for it. A request that waits for a channel that is closed goes on
  with its next step: it returns, loads, or waits for another channel. One that waits for a
  channel that is not closed waits for a request that is loading, and that closes it when the
  command has answered, even if its context is over by then.
\<close>

theorem one_command_at_a_time:
  assumes "s = run_cache ttl world evs (new_cache zero t)"
  shows "card {g. channel_of (goroutines s g) \<noteq> None} \<le> 1
    \<and> (refreshing s = None \<longleftrightarrow> (\<forall>g. channel_of (goroutines s g) = None))
    \<and> (goroutines s g = Waiting ch \<longrightarrow>
        (if ch \<in> closed s then goroutines (cache_act ttl world (Look g) s) g \<noteq> Waiting ch
         else \<exists>h. channel_of (goroutines s h) = Some ch
           \<and> (\<forall>b a. ch \<in> closed (run_cache ttl world [Load h, Store h b a] s))))"
proof -
  note ok = run_cache_ok [OF assms]
  have "card {g. channel_of (goroutines s g) \<noteq> None} \<le> 1
    \<and> (refreshing s = None \<longleftrightarrow> (\<forall>g. channel_of (goroutines s g) = None))"
  proof (cases "refreshing s")
    case None
    then have "{g. channel_of (goroutines s g) \<noteq> None} = {}"
      using loader_ok_none [OF ok(1)] by auto
    then show ?thesis using None by auto
  next
    case (Some c)
    then obtain k where k: "\<forall>h. channel_of (goroutines s h) = (if h = k then Some c else None)"
      using ok(1) by (auto simp: loader_ok_def)
    then have "{g. channel_of (goroutines s g) \<noteq> None} = {k}" by auto
    then show ?thesis using Some k by auto
  qed
  moreover have "goroutines (cache_act ttl world (Look g) s) g \<noteq> Waiting ch"
    if "goroutines s g = Waiting ch" "ch \<in> closed s"
  proof -
    have "refreshing s \<noteq> Some ch" using ok(3) that(2) by (auto simp: channels_ok_def)
    then show ?thesis using that by (auto simp: look_def split: option.splits)
  qed
  moreover have "refreshing s = Some ch" if "goroutines s g = Waiting ch" "ch \<notin> closed s"
  proof -
    have "ch \<in> closed s \<union> set_option (refreshing s)"
      using ok(3) that(1) unfolding channels_ok_def by blast
    then show ?thesis using that(2) by simp
  qed
  ultimately show ?thesis using closed_by_loader [OF ok(1)] by simp
qed

theorem one_command_at_a_time_witness:
  "let s = run_cache 10 (\<lambda>t. t) [Call 1, Look 1, Call 2, Look 2] (new_cache 0 100)
   in goroutines s 1 = Loading 0 \<and> goroutines s 2 = Waiting 0 \<and> 0 \<notin> closed s
    \<and> card {g. channel_of (goroutines s g) \<noteq> None} \<le> 1"
  using one_command_at_a_time [OF refl, of 10 "\<lambda>t. t" "[Call 1, Look 1, Call 2, Look 2]" 0 100]
  by (simp add: Let_def run_cache_def new_cache_def look_def cache_fresh_def set_goroutine_def)

text \<open>
  What a request is served. Every value that a request returns is the answer of the command at
  some time up to now, and one that comes out of the cache was stored less than the time to
  live ago.
\<close>

theorem served_values:
  assumes "s = run_cache ttl world evs (new_cache zero t)"
  shows "(goroutines s g = Returned v \<longrightarrow> (\<exists>l \<le> clock s. v = world l))
    \<and> (goroutines s g \<in> {Entered, Waiting ch}
        \<and> goroutines (cache_act ttl world (Look g) s) g = Returned v \<longrightarrow>
        (\<exists>stored l. last_attempt s = Some stored \<and> clock s - stored < ttl
          \<and> l \<le> stored \<and> v = world l))"
proof -
  have ok: "answers_ok world s" by (rule run_cache_ok(2) [OF assms])
  have "\<exists>l \<le> clock s. v = world l" if "goroutines s g = Returned v"
    using ok that unfolding answers_ok_def by (metis answer_of.simps(2))
  moreover have "\<exists>stored l. last_attempt s = Some stored \<and> clock s - stored < ttl
      \<and> l \<le> stored \<and> v = world l"
    if "goroutines s g \<in> {Entered, Waiting ch}"
      "goroutines (cache_act ttl world (Look g) s) g = Returned v"
  proof -
    have "cache_fresh ttl s \<and> v = cached s"
      using that by (auto simp: look_def split: if_splits option.splits)
    then show ?thesis using ok by (auto simp: answers_ok_def cache_fresh_def split: option.splits)
  qed
  ultimately show ?thesis by blast
qed

theorem served_values_witness:
  "goroutines (run_cache 10 (\<lambda>t. t) [Call 1, Look 1, Load 1, Tick 3, Store 1 False False]
     (new_cache 0 100)) 1 = Returned 100
   \<and> (\<exists>l \<le> 103. (100 :: int) = l)"
  using served_values [OF refl, of 10 "\<lambda>t. t" "[Call 1, Look 1, Load 1, Tick 3, Store 1 False False]" 0 100 1 100]
  by (simp add: run_cache_def new_cache_def look_def store_def close_channel_def cache_fresh_def set_goroutine_def)

text \<open>
  C36. An invalidation that comes during a load is lost. When the command has answered a request and
  the cache is then invalidated, because a job was cancelled or a node changed, the request
  still stores its old answer as fresh: every request of the next \<open>ttl\<close> is served the answer
  from before the change, although it came after the invalidation.
\<close>

theorem invalidation_lost_during_load:
  assumes "goroutines s g = Loaded ch v" and "goroutines s h = Idle"
    and "int d < ttl"
  shows "goroutines (run_cache ttl world
      [Invalidate, Store g False False, Tick d, Call h, Look h] s) h = Returned v"
proof -
  have "h \<noteq> g" using assms(1,2) by auto
  then show ?thesis
    using assms
    by (simp add: run_cache_def invalidate_def store_def close_channel_def Let_def look_def cache_fresh_def set_goroutine_def)
qed

theorem invalidation_lost_during_load_witness:
  "goroutines (run_cache 10 (\<lambda>t. if t < 105 then ''RUNNING'' else ''CANCELLED'')
      [Call 1, Look 1, Load 1, Tick 6, Invalidate, Store 1 False False, Tick 9, Call 2, Look 2]
      (new_cache '''' 100)) 2 = Returned ''RUNNING''"
proof -
  let ?world = "\<lambda>t :: int. if t < 105 then ''RUNNING'' else ''CANCELLED''"
  let ?s = "run_cache 10 ?world [Call 1, Look 1, Load 1, Tick 6] (new_cache '''' 100)"
  have "goroutines ?s 1 = Loaded 0 ''RUNNING''" "goroutines ?s 2 = Idle"
    by (simp_all add: run_cache_def new_cache_def look_def cache_fresh_def set_goroutine_def)
  then have "goroutines (run_cache 10 ?world
      [Invalidate, Store 1 False False, Tick 9, Call 2, Look 2] ?s) 2 = Returned ''RUNNING''"
    by (rule invalidation_lost_during_load) simp
  then show ?thesis
    unfolding run_cache_append [symmetric] append.simps .
qed

end
