(* ===== verification/Settings.thy ===== *)
theory Settings
  imports OutputTail
begin

text \<open>
  The settings of the server: their store (\<open>internal/platform/settings.go\<close>), the page that shows
  and saves them (\<open>internal/web/settings.go\<close>, \<open>templates/settings.html\<close>), the address check of
  \<open>internal/terminal/client.go\<close>, and how the server reads a setting when it starts
  (\<open>settingValue\<close> of \<open>cmd/server/main.go\<close>). Labels, placeholders and messages are left out.

  The table is an association list with distinct keys. The cipher is a parameter, and so are the
  parsers of durations, addresses, URLs, distinguished names and certificates, which belong to
  libraries.
\<close>

section \<open>The settings\<close>

datatype input_type = Checkbox | TextInput | NumberInput | UrlInput | PasswordInput

record settings_spec =
  spec_key :: string
  spec_group :: string
  spec_input :: input_type
  spec_secret :: bool

definition setting_schema :: "(string \<times> bool) list" where
  "setting_schema =
     [(''OPENHPC_SLURM_ENABLED'', False), (''OPENHPC_SLURM_BIN_DIR'', False),
      (''OPENHPC_SLURM_TIMEOUT'', False), (''OPENHPC_SLURM_MAX_OUTPUT'', False),
      (''OPENHPC_SLURM_CACHE_TTL'', False), (''OPENHPC_LDAP_ENABLED'', False),
      (''OPENHPC_LDAP_URL'', False), (''OPENHPC_LDAP_BASE_DN'', False),
      (''OPENHPC_LDAP_USER_BASE_DN'', False), (''OPENHPC_LDAP_GROUP_BASE_DN'', False),
      (''OPENHPC_LDAP_BIND_DN'', False), (''OPENHPC_LDAP_BIND_PASSWORD'', True),
      (''OPENHPC_LDAP_PROVISION_BIND_DN'', False), (''OPENHPC_LDAP_PROVISION_BIND_PASSWORD'', True),
      (''OPENHPC_LDAP_CA_FILE'', False), (''OPENHPC_LDAP_TIMEOUT'', False),
      (''OPENHPC_LDAP_MAX_RESULTS'', False), (''OPENHPC_TERMINAL_ENABLED'', False),
      (''OPENHPC_TERMINAL_SSH_ADDRESS'', False), (''OPENHPC_TERMINAL_TIMEOUT'', False)]"

definition secret_setting :: "string \<Rightarrow> bool" where
  \<comment> \<open>\<open>settingSchema[key]\<close>: false for an unknown key\<close>
  "secret_setting key = (map_of setting_schema key = Some True)"

definition settings_specs :: "settings_spec list" where
  "settings_specs =
     map (\<lambda>(k, g, i, s). \<lparr>spec_key = k, spec_group = g, spec_input = i, spec_secret = s\<rparr>)
     [(''OPENHPC_SLURM_ENABLED'', ''Slurm'', Checkbox, False),
      (''OPENHPC_SLURM_BIN_DIR'', ''Slurm'', TextInput, False),
      (''OPENHPC_SLURM_TIMEOUT'', ''Slurm'', TextInput, False),
      (''OPENHPC_SLURM_MAX_OUTPUT'', ''Slurm'', NumberInput, False),
      (''OPENHPC_SLURM_CACHE_TTL'', ''Slurm'', TextInput, False),
      (''OPENHPC_LDAP_ENABLED'', ''LDAP'', Checkbox, False),
      (''OPENHPC_LDAP_URL'', ''LDAP'', UrlInput, False),
      (''OPENHPC_LDAP_BASE_DN'', ''LDAP'', TextInput, False),
      (''OPENHPC_LDAP_USER_BASE_DN'', ''LDAP'', TextInput, False),
      (''OPENHPC_LDAP_GROUP_BASE_DN'', ''LDAP'', TextInput, False),
      (''OPENHPC_LDAP_BIND_DN'', ''LDAP'', TextInput, False),
      (''OPENHPC_LDAP_BIND_PASSWORD'', ''LDAP'', PasswordInput, True),
      (''OPENHPC_LDAP_PROVISION_BIND_DN'', ''LDAP'', TextInput, False),
      (''OPENHPC_LDAP_PROVISION_BIND_PASSWORD'', ''LDAP'', PasswordInput, True),
      (''OPENHPC_LDAP_CA_FILE'', ''LDAP'', TextInput, False),
      (''OPENHPC_LDAP_TIMEOUT'', ''LDAP'', TextInput, False),
      (''OPENHPC_LDAP_MAX_RESULTS'', ''LDAP'', NumberInput, False),
      (''OPENHPC_TERMINAL_ENABLED'', ''Terminal'', Checkbox, False),
      (''OPENHPC_TERMINAL_SSH_ADDRESS'', ''Terminal'', TextInput, False),
      (''OPENHPC_TERMINAL_TIMEOUT'', ''Terminal'', TextInput, False)]"

section \<open>The store\<close>

text \<open>The cipher with associated data, under a key and a nonce.\<close>

record cipher =
  seal :: "string \<Rightarrow> string \<Rightarrow> string \<Rightarrow> string \<Rightarrow> string"
  unseal :: "string \<Rightarrow> string \<Rightarrow> string \<Rightarrow> string \<Rightarrow> string option"

type_synonym settings_table = "(string \<times> string) list"

datatype settings_error =
  UnknownKey | ValueTooLong | KeyRequired | NoNonce | BadSecret | SettingsDatabase

definition nonce_size :: nat where
  "nonce_size = 12"

definition encrypt :: "cipher \<Rightarrow> string \<Rightarrow> string option \<Rightarrow> string \<Rightarrow> string \<Rightarrow> settings_error + string" where
  "encrypt c key nonce name v =
     (case nonce of None \<Rightarrow> Inl NoNonce | Some n \<Rightarrow> Inr (n @ seal c key n name v))"

definition decrypt :: "cipher \<Rightarrow> string \<Rightarrow> string \<Rightarrow> string \<Rightarrow> settings_error + string" where
  "decrypt c key name raw =
     (if key = [] then Inl KeyRequired
      else if length raw < nonce_size then Inl BadSecret
      else case unseal c key (take nonce_size raw) name (drop nonce_size raw) of
          None \<Rightarrow> Inl BadSecret
        | Some v \<Rightarrow> Inr v)"

definition valid_setting_key :: "string \<Rightarrow> bool" where
  "valid_setting_key key \<longleftrightarrow>
     map_of setting_schema key \<noteq> None
   \<and> \<not> (trim_space key = [] \<or> length key > 128 \<or> trim_space key \<noteq> key)"

definition max_setting_value_bytes :: nat where
  "max_setting_value_bytes = 8192"

definition prepare_setting ::
  "cipher \<Rightarrow> string \<Rightarrow> (string \<Rightarrow> string option) \<Rightarrow> string \<times> string \<Rightarrow> settings_error + string \<times> string" where
  \<comment> \<open>the body of the first loop of \<open>SetMany\<close>\<close>
  "prepare_setting c key nonces kv =
     (let (k, v) = kv
      in if \<not> valid_setting_key k then Inl UnknownKey
         else if length v > max_setting_value_bytes then Inl ValueTooLong
         else if secret_setting k
         then if v = [] then Inr (k, [])
              else if key = [] then Inl KeyRequired
              else sum_bind (encrypt c key (nonces k) k v) (\<lambda>raw. Inr (k, raw))
         else Inr (k, v))"

definition write_setting :: "string \<times> string \<Rightarrow> settings_table \<Rightarrow> settings_table" where
  \<comment> \<open>the body of the second loop\<close>
  "write_setting kr t = (if snd kr = [] then AList.delete (fst kr) t else AList.update (fst kr) (snd kr) t)"

definition set_many ::
  "cipher \<Rightarrow> string \<Rightarrow> (string \<Rightarrow> string option) \<Rightarrow> bool \<Rightarrow> (string \<times> string) list \<Rightarrow> settings_table
     \<Rightarrow> (settings_error + unit) \<times> settings_table" where
  "set_many c key nonces db_ok vals t =
     (case map_sum_list (prepare_setting c key nonces) vals of
        Inl e \<Rightarrow> (Inl e, t)
      | Inr prepared \<Rightarrow>
          if db_ok then (Inr (), fold write_setting prepared t) else (Inl SettingsDatabase, t))"

definition get_setting :: "cipher \<Rightarrow> string \<Rightarrow> string \<Rightarrow> settings_table \<Rightarrow> settings_error + string option" where
  "get_setting c key name t =
     (if \<not> valid_setting_key name then Inl UnknownKey
      else case map_of t name of
          None \<Rightarrow> Inr None
        | Some raw \<Rightarrow>
            if secret_setting name then sum_bind (decrypt c key name raw) (\<lambda>v. Inr (Some v))
            else Inr (Some raw))"

definition setting_value :: "cipher \<Rightarrow> string \<Rightarrow> string \<Rightarrow> string \<Rightarrow> settings_table \<Rightarrow> settings_error + string" where
  \<comment> \<open>what the server uses after its next start\<close>
  "setting_value c key name fallback t =
     sum_bind (get_setting c key name t)
       (\<lambda>found. Inr (case found of None \<Rightarrow> fallback | Some v \<Rightarrow> v))"

record listed_setting =
  listed_value :: string
  listed_secret :: bool
  listed_configured :: bool

definition list_settings :: "string list \<Rightarrow> settings_table \<Rightarrow> (string \<times> listed_setting) list" where
  "list_settings keys t =
     map (\<lambda>(k, raw). (k, \<lparr>listed_value = (if secret_setting k then [] else raw),
                          listed_secret = secret_setting k, listed_configured = True\<rparr>))
       (filter (\<lambda>(k, raw). keys = [] \<or> k \<in> set keys) (sort_key fst t))"

section \<open>The page\<close>

record setting_field =
  field_key :: string
  field_value :: string
  field_override :: bool        \<comment> \<open>the source is the store, not the environment\<close>
  field_input :: input_type
  field_secret :: bool
  field_configured :: bool

definition setting_field_of ::
  "(string \<Rightarrow> string) \<Rightarrow> (string \<times> listed_setting) list \<Rightarrow> settings_spec \<Rightarrow> setting_field" where
  \<comment> \<open>the loop over the specifications in \<open>settingsView\<close>\<close>
  "setting_field_of defaults overrides spec =
     (let k = spec_key spec;
          override = map_of overrides k;
          v = (case override of
                 Some o' \<Rightarrow> if spec_secret spec then defaults k else listed_value o'
               | None \<Rightarrow> defaults k)
      in \<lparr>field_key = k, field_value = (if spec_secret spec then [] else v),
          field_override = (override \<noteq> None), field_input = spec_input spec,
          field_secret = spec_secret spec,
          field_configured = (override \<noteq> None \<or> trim_space (defaults k) \<noteq> [])\<rparr>)"

definition settings_fields :: "(string \<Rightarrow> string) \<Rightarrow> settings_table option \<Rightarrow> setting_field list" where
  "settings_fields defaults table =
     map (setting_field_of defaults
           (case table of None \<Rightarrow> [] | Some t \<Rightarrow> list_settings (map spec_key settings_specs) t))
       settings_specs"

text \<open>
  What a browser sends for a field of the template, as it is shown: a checked box sends its value
  before the hidden \<open>false\<close>, an unchecked one does not. The value of a text or number control is one
  that the control can hold: a browser empties a number control whose value is no number in its
  own notation (\<open>+200\<close>), which is left out.
\<close>

definition submitted_field :: "setting_field \<Rightarrow> string \<times> string list" where
  "submitted_field f =
     (field_key f,
      (if field_input f = Checkbox
       then if field_value f = ''true'' then [''true'', ''false''] else [''false'']
       else [if field_secret f then [] else field_value f]))"

section \<open>Saving\<close>

record settings_libraries =
  parse_duration :: "string \<Rightarrow> int option"
  split_host_port :: "string \<Rightarrow> (string \<times> string) option"
  ldap_url_ok :: "string \<Rightarrow> bool"
  dn_ok :: "string \<Rightarrow> bool"
  ca_file_ok :: "string \<Rightarrow> bool"

record settings_form =
  post_form :: "(string \<times> string list) list"
  query_form :: "(string \<times> string list) list"

definition form_value :: "settings_form \<Rightarrow> string \<Rightarrow> string" where
  \<comment> \<open>the values of the body come before those of the query\<close>
  "form_value f k =
     (let vals = (\<lambda>fs. case map_of fs k of None \<Rightarrow> [] | Some vs \<Rightarrow> vs)
      in case vals (post_form f) @ vals (query_form f) of [] \<Rightarrow> [] | v # _ \<Rightarrow> v)"

definition second :: int where
  "second = 1000000000"

definition validate_address :: "settings_libraries \<Rightarrow> string \<Rightarrow> bool" where
  "validate_address L address \<longleftrightarrow>
     \<not> (address = [] \<or> trim_space address \<noteq> address \<or> length address > 320 \<or> CHR 0x00 \<in> set address)
   \<and> (case split_host_port L address of
        None \<Rightarrow> False
      | Some (host, port) \<Rightarrow>
          host \<noteq> [] \<and> list_all (\<lambda>c. c \<notin> set [CHR '' '', CHR 0x09, CHR 0x0D, CHR 0x0A]) host
        \<and> (case parse_int64 port of None \<Rightarrow> False | Some n \<Rightarrow> 1 \<le> n \<and> n \<le> 65535))"

definition duration_setting :: "settings_libraries \<Rightarrow> string \<Rightarrow> bool" where
  "duration_setting L v \<longleftrightarrow>
     (case parse_duration L v of None \<Rightarrow> False | Some d \<Rightarrow> 0 < d \<and> d \<le> 60 * second)"

definition number_setting :: "int \<Rightarrow> string \<Rightarrow> bool" where
  "number_setting most v \<longleftrightarrow> (case parse_int64 v of None \<Rightarrow> False | Some n \<Rightarrow> 1 \<le> n \<and> n \<le> most)"

definition valid_setting_form_value :: "settings_libraries \<Rightarrow> string \<Rightarrow> string \<Rightarrow> bool" where
  "valid_setting_form_value L key v \<longleftrightarrow>
     length v \<le> 8192 \<and> list_all (\<lambda>c. c \<notin> set [CHR 0x00, CHR 0x0D, CHR 0x0A]) v
   \<and> (if key \<in> set [''OPENHPC_SLURM_ENABLED'', ''OPENHPC_LDAP_ENABLED'', ''OPENHPC_TERMINAL_ENABLED'']
      then v = ''true'' \<or> v = ''false''
      else if key \<in> set [''OPENHPC_SLURM_TIMEOUT'', ''OPENHPC_SLURM_CACHE_TTL'', ''OPENHPC_LDAP_TIMEOUT'',
                          ''OPENHPC_TERMINAL_TIMEOUT'']
      then duration_setting L v
      else if key = ''OPENHPC_SLURM_MAX_OUTPUT'' then number_setting (8 * 2 ^ 20) v
      else if key = ''OPENHPC_LDAP_MAX_RESULTS'' then number_setting 500 v
      else if key = ''OPENHPC_LDAP_URL'' then v = [] \<or> ldap_url_ok L v
      else if key \<in> set [''OPENHPC_LDAP_BASE_DN'', ''OPENHPC_LDAP_USER_BASE_DN'', ''OPENHPC_LDAP_GROUP_BASE_DN'',
                          ''OPENHPC_LDAP_BIND_DN'', ''OPENHPC_LDAP_PROVISION_BIND_DN'']
      then v = [] \<or> dn_ok L v
      else if key \<in> set [''OPENHPC_SLURM_BIN_DIR'', ''OPENHPC_LDAP_CA_FILE'']
      then v = [] \<or> is_abs v \<and> clean_rooted v = v \<and> (key = ''OPENHPC_LDAP_CA_FILE'' \<longrightarrow> ca_file_ok L v)
      else if key = ''OPENHPC_TERMINAL_SSH_ADDRESS'' then v = [] \<or> validate_address L v
      else True)"

definition terminal_setting :: "string \<Rightarrow> bool" where
  "terminal_setting key \<longleftrightarrow>
     key \<in> set [''OPENHPC_TERMINAL_ENABLED'', ''OPENHPC_TERMINAL_SSH_ADDRESS'', ''OPENHPC_TERMINAL_TIMEOUT'']"

datatype save_answer =
  SaveBadRequest           \<comment> \<open>400\<close>
| TerminalInvalid          \<comment> \<open>the page with its error, 400\<close>
| SettingsKeyMissing       \<comment> \<open>the page with its error, 503\<close>
| SaveUnavailable          \<comment> \<open>503\<close>
| SavedRedirect            \<comment> \<open>to \<open>/settings?updated=1\<close>\<close>

definition clear_key :: "string \<Rightarrow> string" where
  "clear_key k = ''clear_'' @ k"

definition known_form_key :: "string \<Rightarrow> bool" where
  "known_form_key k \<longleftrightarrow>
     (if k = ''_csrf'' then True
      else if take 6 k = ''clear_'' then drop 6 k \<in> set (map spec_key settings_specs)
      else k \<in> set (map spec_key settings_specs))"

fun collect_values ::
  "settings_libraries \<Rightarrow> settings_form \<Rightarrow> settings_spec list \<Rightarrow> save_answer + (string \<times> string) list" where
  \<comment> \<open>the loop over the specifications in \<open>saveSettings\<close>\<close>
  "collect_values L f [] = Inr []"
| "collect_values L f (spec # specs) =
     (let k = spec_key spec;
          v = form_value f k;
          v = (if spec_input spec = Checkbox \<and> v = [] then ''false'' else v)
      in if spec_secret spec \<and> form_value f (clear_key k) = ''1''
         then sum_bind (collect_values L f specs) (\<lambda>vs. Inr ((k, []) # vs))
         else if (if spec_secret spec then form_value f k = [] else map_of (post_form f) k = None)
         then collect_values L f specs
         else if \<not> valid_setting_form_value L k v
         then Inl (if terminal_setting k then TerminalInvalid else SaveBadRequest)
         else sum_bind (collect_values L f specs) (\<lambda>vs. Inr ((k, v) # vs)))"

definition lookup_value :: "(string \<times> string) list \<Rightarrow> string \<Rightarrow> string" where
  "lookup_value vals k = (case map_of vals k of None \<Rightarrow> [] | Some v \<Rightarrow> v)"

definition terminal_values_ok :: "settings_libraries \<Rightarrow> (string \<times> string) list \<Rightarrow> bool" where
  \<comment> \<open>\<open>validateEnabledTerminalSettings\<close> with the checks of \<open>terminal.New\<close>\<close>
  "terminal_values_ok L vals \<longleftrightarrow>
     lookup_value vals ''OPENHPC_TERMINAL_ENABLED'' \<noteq> ''true''
   \<or> (case parse_duration L (lookup_value vals ''OPENHPC_TERMINAL_TIMEOUT'') of
        None \<Rightarrow> False
      | Some d \<Rightarrow>
          validate_address L (lookup_value vals ''OPENHPC_TERMINAL_SSH_ADDRESS'')
        \<and> (let d = (if d = 0 then 10 * second else d) in second \<le> d \<and> d \<le> 60 * second))"

definition save_settings ::
  "settings_libraries \<Rightarrow> cipher \<Rightarrow> string \<Rightarrow> (string \<Rightarrow> string option) \<Rightarrow> bool \<Rightarrow> settings_form
     \<Rightarrow> settings_table \<Rightarrow> save_answer \<times> settings_table" where
  "save_settings L c key nonces db_ok f t =
     (if \<not> list_all (known_form_key \<circ> fst) (post_form f) then (SaveBadRequest, t)
      else case collect_values L f settings_specs of
          Inl answer \<Rightarrow> (answer, t)
        | Inr vals \<Rightarrow>
            if \<not> terminal_values_ok L vals then (TerminalInvalid, t)
            else (case set_many c key nonces db_ok vals t of
                (Inl KeyRequired, t') \<Rightarrow> (SettingsKeyMissing, t')
              | (Inl e, t') \<Rightarrow> (SaveUnavailable, t')
              | (Inr _, t') \<Rightarrow> (SavedRedirect, t')))"

section \<open>The table\<close>

definition settings_ok :: "settings_table \<Rightarrow> bool" where
  "settings_ok t \<longleftrightarrow> distinct (map fst t) \<and> (\<forall>k raw. map_of t k = Some raw \<longrightarrow> raw \<noteq> [])"

definition saved_table ::
  "cipher \<Rightarrow> string \<Rightarrow> (string \<Rightarrow> string option) \<Rightarrow> (string \<times> string) list list \<Rightarrow> settings_table" where
  \<comment> \<open>what the store can hold: any updates, one after the other\<close>
  "saved_table c key nonces updates = fold (\<lambda>vals t. snd (set_many c key nonces True vals t)) updates []"

lemma map_of_write_setting:
  "map_of (write_setting (k, raw) t) = (map_of t)(k := if raw = [] then None else Some raw)"
  by (auto simp: write_setting_def delete_conv' update_conv' fun_eq_iff)

lemma distinct_write_setting: "distinct (map fst t) \<Longrightarrow> distinct (map fst (write_setting kr t))"
  by (auto simp: write_setting_def distinct_update distinct_delete)

lemma settings_ok_writes: "settings_ok t \<Longrightarrow> settings_ok (fold write_setting ps t)"
proof (induction ps arbitrary: t)
  case (Cons p ps)
  have "settings_ok (write_setting p t)"
    using Cons.prems distinct_write_setting [of t p]
    by (cases p) (auto simp: settings_ok_def map_of_write_setting split: if_splits)
  then show ?case using Cons.IH by simp
qed simp

lemma settings_ok_set_many: "settings_ok t \<Longrightarrow> settings_ok (snd (set_many c key nonces db_ok vals t))"
  by (auto simp: set_many_def settings_ok_writes split: sum.splits)

lemma settings_ok_saved: "settings_ok (saved_table c key nonces updates)"
proof -
  have "settings_ok (fold (\<lambda>vals t. snd (set_many c key nonces True vals t)) updates t)"
    if "settings_ok t" for t
    using that by (induction updates arbitrary: t) (auto intro: settings_ok_set_many)
  moreover have "settings_ok []" by (simp add: settings_ok_def)
  ultimately show ?thesis unfolding saved_table_def by blast
qed

lemma map_of_writes:
  "distinct (map fst ps) \<Longrightarrow>
   map_of (fold write_setting ps t) k
     = (case map_of ps k of None \<Rightarrow> map_of t k | Some raw \<Rightarrow> if raw = [] then None else Some raw)"
proof (induction ps arbitrary: t)
  case (Cons p ps)
  obtain n r where p: "p = (n, r)" by (cases p)
  have "map_of ps n = None" using Cons.prems p by (simp add: map_of_eq_None_iff)
  then show ?case
    using Cons by (simp add: p map_of_write_setting split: option.split)
qed simp

lemma prepared_keys:
  "map_sum_list (prepare_setting c key nonces) vals = Inr ps \<Longrightarrow> map fst ps = map fst vals"
proof (induction vals arbitrary: ps)
  case (Cons kv vals)
  have "fst p = fst kv" if "prepare_setting c key nonces kv = Inr p" for p
    using that by (cases kv) (auto simp: prepare_setting_def sum_bind_Inr split: if_splits)
  then show ?case using Cons by (auto simp: sum_bind_Inr)
qed simp

lemma prepared_value:
  assumes "map_sum_list (prepare_setting c key nonces) vals = Inr ps" and "distinct (map fst vals)"
    and "map_of vals k = Some v"
  shows "\<exists>raw. map_of ps k = Some raw \<and> prepare_setting c key nonces (k, v) = Inr (k, raw)"
  using assms
proof (induction vals arbitrary: ps)
  case (Cons kv vals)
  obtain p ps' where p: "prepare_setting c key nonces kv = Inr p"
    "map_sum_list (prepare_setting c key nonces) vals = Inr ps'" "ps = p # ps'"
    using Cons.prems(1) by (auto simp: sum_bind_Inr)
  have key: "fst p = fst kv"
    using p(1) by (cases kv) (auto simp: prepare_setting_def sum_bind_Inr split: if_splits)
  show ?case
  proof (cases "fst kv = k")
    case True
    then show ?thesis using Cons.prems(3) p key by (cases kv; cases p) auto
  next
    case False
    then show ?thesis using Cons.IH [OF p(2)] Cons.prems key p(3) by (cases kv; cases p) auto
  qed
qed simp

section \<open>Properties of the store\<close>

definition cipher_law :: "cipher \<Rightarrow> (string \<Rightarrow> string option) \<Rightarrow> bool" where
  \<comment> \<open>documented of the cipher: opening with the same key, nonce and associated data gives back what
     was sealed; a nonce has twelve bytes\<close>
  "cipher_law c nonces \<longleftrightarrow>
     (\<forall>key n a v. unseal c key n a (seal c key n a v) = Some v)
   \<and> (\<forall>k n. nonces k = Some n \<longrightarrow> length n = nonce_size)"

text \<open>
  Settings that are saved are read back. After a save that works, every setting of the save has
  its new value, secret or not, an empty value removes the override, and all other settings
  are as before.
\<close>

theorem saved_settings_read_back:
  assumes "set_many c key nonces db_ok vals t = (Inr (), t')" and "distinct (map fst vals)"
    and "cipher_law c nonces"
  shows "case map_of vals k of
      None \<Rightarrow> get_setting c key k t' = get_setting c key k t
    | Some v \<Rightarrow> get_setting c key k t' = Inr (if v = [] then None else Some v)"
proof -
  obtain ps where ps: "map_sum_list (prepare_setting c key nonces) vals = Inr ps"
      "t' = fold write_setting ps t"
    using assms(1) by (auto simp: set_many_def split: sum.splits if_splits)
  have keys: "map fst ps = map fst vals" by (rule prepared_keys [OF ps(1)])
  have t': "map_of t' k
      = (case map_of ps k of None \<Rightarrow> map_of t k | Some raw \<Rightarrow> if raw = [] then None else Some raw)" for k
    using map_of_writes [of ps t k] assms(2) keys by (simp add: ps(2))
  show ?thesis
  proof (cases "map_of vals k")
    case None
    then have "k \<notin> set (map fst ps)" unfolding keys by (simp add: map_of_eq_None_iff)
    then have "map_of ps k = None" by (simp add: map_of_eq_None_iff)
    then show ?thesis using None t' by (simp add: get_setting_def)
  next
    case (Some v)
    from prepared_value [OF ps(1) assms(2) Some] obtain raw where raw: "map_of ps k = Some raw"
      "prepare_setting c key nonces (k, v) = Inr (k, raw)" by blast
    have valid: "valid_setting_key k"
      using raw(2) by (auto simp: prepare_setting_def split: if_splits)
    show ?thesis
    proof (cases "secret_setting k \<and> v \<noteq> []")
      case True
      then obtain n where n: "nonces k = Some n" "raw = n @ seal c key n k v" "key \<noteq> []"
        using raw(2) by (auto simp: prepare_setting_def encrypt_def sum_bind_Inr split: if_splits option.splits)
      moreover have "length n = nonce_size" using assms(3) n(1) by (simp add: cipher_law_def)
      moreover have "unseal c key n k (seal c key n k v) = Some v" using assms(3) by (simp add: cipher_law_def)
      moreover have "raw \<noteq> []" using n \<open>length n = nonce_size\<close> by (auto simp: nonce_size_def)
      ultimately show ?thesis
        using Some True t' [of k] raw(1) valid by (simp add: get_setting_def decrypt_def)
    next
      case False
      then have "raw = v"
        using raw(2) by (auto simp: prepare_setting_def split: if_splits)
      then show ?thesis
        using Some False t' [of k] raw(1) valid by (auto simp: get_setting_def)
    qed
  qed
qed

definition example_cipher :: cipher where
  "example_cipher = \<lparr>seal = (\<lambda>key n a v. rev v @ ''tag''),
     unseal = (\<lambda>key n a s. if drop (length s - 3) s = ''tag'' then Some (rev (take (length s - 3) s)) else None)\<rparr>"

lemma example_cipher_law: "cipher_law example_cipher (\<lambda>k. Some ''nonce-nonce-'')"
  by (simp add: cipher_law_def example_cipher_def nonce_size_def)

theorem saved_settings_read_back_witness:
  "let vals = [(''OPENHPC_LDAP_BIND_PASSWORD'', ''s3cret''), (''OPENHPC_SLURM_TIMEOUT'', ''5s'')];
       (r, t) = set_many example_cipher ''k'' (\<lambda>k. Some ''nonce-nonce-'') True vals []
   in r = Inr () \<and> get_setting example_cipher ''k'' ''OPENHPC_LDAP_BIND_PASSWORD'' t = Inr (Some ''s3cret'')
    \<and> map_of t ''OPENHPC_LDAP_BIND_PASSWORD'' \<noteq> Some ''s3cret''"
proof -
  let ?vals = "[(''OPENHPC_LDAP_BIND_PASSWORD'', ''s3cret''), (''OPENHPC_SLURM_TIMEOUT'', ''5s'')]"
  let ?run = "set_many example_cipher ''k'' (\<lambda>k. Some ''nonce-nonce-'') True ?vals []"
  have "fst ?run = Inr () \<and> map_of (snd ?run) ''OPENHPC_LDAP_BIND_PASSWORD'' \<noteq> Some ''s3cret''"
    by code_simp
  then obtain t where run: "?run = (Inr (), t)"
      "map_of t ''OPENHPC_LDAP_BIND_PASSWORD'' \<noteq> Some ''s3cret''"
    by (metis prod.collapse)
  from saved_settings_read_back [OF run(1) _ example_cipher_law, of "''OPENHPC_LDAP_BIND_PASSWORD''"]
  have "get_setting example_cipher ''k'' ''OPENHPC_LDAP_BIND_PASSWORD'' t = Inr (Some ''s3cret'')"
    by simp
  then show ?thesis using run by simp
qed

text \<open>
  A save that fails changes nothing. Whatever is wrong with a save, the table is as it was: an
  unknown field, a value that is not accepted, an incomplete terminal, a missing encryption
  key, a database error.
\<close>

theorem failed_save_changes_nothing:
  assumes "save_settings L c key nonces db_ok f t = (answer, t')" and "answer \<noteq> SavedRedirect"
  shows "t' = t"
  using assms
  by (auto simp: save_settings_def set_many_def split: sum.splits if_splits settings_error.splits)

theorem failed_save_changes_nothing_witness:
  "snd (save_settings \<lparr>parse_duration = (\<lambda>s. None), split_host_port = (\<lambda>s. None),
      ldap_url_ok = (\<lambda>s. False), dn_ok = (\<lambda>s. False), ca_file_ok = (\<lambda>s. False)\<rparr> example_cipher ''k''
      (\<lambda>k. None) True \<lparr>post_form = [(''OPENHPC_DATABASE_PATH'', [''/tmp''])], query_form = []\<rparr>
      [(''OPENHPC_LDAP_URL'', ''ldaps://a'')]) = [(''OPENHPC_LDAP_URL'', ''ldaps://a'')]"
proof -
  let ?run = "save_settings \<lparr>parse_duration = (\<lambda>s. None), split_host_port = (\<lambda>s. None),
      ldap_url_ok = (\<lambda>s. False), dn_ok = (\<lambda>s. False), ca_file_ok = (\<lambda>s. False)\<rparr> example_cipher ''k''
      (\<lambda>k. None) True \<lparr>post_form = [(''OPENHPC_DATABASE_PATH'', [''/tmp''])], query_form = []\<rparr>
      [(''OPENHPC_LDAP_URL'', ''ldaps://a'')]"
  have "fst ?run = SaveBadRequest"
    by (simp add: save_settings_def known_form_key_def settings_specs_def)
  then show ?thesis
    using failed_save_changes_nothing [OF prod.collapse [symmetric, of ?run]] by simp
qed

section \<open>The page\<close>

lemma trim_space_plain:
  assumes "s \<noteq> []" and "hd s \<notin> set (map hd go_spaces)" and "last s \<notin> set (map last go_spaces)"
  shows "trim_space s = s"
proof -
  have none: "leading toks s = None" if "hd s \<notin> hd ` set toks" for toks s
  proof -
    have "\<not> (t \<noteq> [] \<and> take (length t) s = t)" if "t \<in> set toks" for t
    proof
      assume t: "t \<noteq> [] \<and> take (length t) s = t"
      then have "hd s = hd t" by (metis hd_take length_greater_0_conv)
      then show False using \<open>t \<in> set toks\<close> \<open>hd s \<notin> hd ` set toks\<close> by simp
    qed
    then show ?thesis unfolding leading_def find_None_iff by blast
  qed
  have "[] \<notin> set go_spaces" by code_simp
  then have "hd ` set (map rev go_spaces) = last ` set go_spaces"
    by (force simp: hd_rev image_image)
  then have "leading (map rev go_spaces) (rev s) = None" "leading go_spaces s = None"
    using assms none [of "rev s" "map rev go_spaces"] none [of s go_spaces] by (simp_all add: hd_rev)
  then show ?thesis unfolding trim_space_def by (intro trim_tokens_id)
qed

lemma schema_of_specs: "setting_schema = map (\<lambda>s. (spec_key s, spec_secret s)) settings_specs"
  by (simp add: setting_schema_def settings_specs_def)

lemma distinct_spec_keys: "distinct (map spec_key settings_specs)"
  by (simp add: settings_specs_def)

lemma specs_facts:
  assumes "spec \<in> set settings_specs"
  shows "spec_secret spec = secret_setting (spec_key spec)" and "valid_setting_key (spec_key spec)"
    and "take 6 (spec_key spec) \<noteq> ''clear_''" and "spec_key spec \<noteq> ''_csrf''"
    and "spec_input spec = Checkbox \<Longrightarrow> \<not> spec_secret spec"
proof -
  have letters: "list_all (\<lambda>c. c \<notin> set (map hd go_spaces) \<and> c \<notin> set (map last go_spaces)) ''ODRTLNESY''"
    by code_simp
  have "list_all (\<lambda>s. length (spec_key s) \<le> 128 \<and> spec_key s \<noteq> []
      \<and> hd (spec_key s) \<in> set ''ODRTLNESY'' \<and> last (spec_key s) \<in> set ''ODRTLNESY''
      \<and> take 6 (spec_key s) \<noteq> ''clear_'' \<and> spec_key s \<noteq> ''_csrf''
      \<and> (spec_input s = Checkbox \<longrightarrow> \<not> spec_secret s)) settings_specs"
    by (simp add: settings_specs_def)
  note facts = this [unfolded list_all_iff, THEN bspec, OF assms]
  have schema: "map_of setting_schema (spec_key spec) = Some (spec_secret spec)"
    unfolding schema_of_specs using assms distinct_spec_keys
    by (intro map_of_is_SomeI) (auto simp: comp_def intro: rev_image_eqI)
  then have secret: "spec_secret spec = secret_setting (spec_key spec)"
    by (simp add: secret_setting_def)
  have "trim_space (spec_key spec) = spec_key spec"
    using facts letters unfolding list_all_iff by (intro trim_space_plain) blast+
  then have "valid_setting_key (spec_key spec)"
    using facts schema unfolding valid_setting_key_def by (metis linorder_not_less option.distinct(1))
  with facts secret show "spec_secret spec = secret_setting (spec_key spec)" "valid_setting_key (spec_key spec)"
    "take 6 (spec_key spec) \<noteq> ''clear_''" "spec_key spec \<noteq> ''_csrf''"
    "spec_input spec = Checkbox \<Longrightarrow> \<not> spec_secret spec"
    by blast+
qed

lemma map_of_sorted: "distinct (map fst t) \<Longrightarrow> map_of (sort_key fst t) = map_of t"
  using map_of_inject_set [of "sort_key fst t" t] by (simp add: distinct_map)

lemma map_of_list_settings:
  assumes "distinct (map fst t)" and "k \<in> set keys"
  shows "map_of (list_settings keys t) k
    = map_option (\<lambda>raw. \<lparr>listed_value = (if secret_setting k then [] else raw),
        listed_secret = secret_setting k, listed_configured = True\<rparr>) (map_of t k)"
proof -
  have "map_of (map (\<lambda>(k, raw). (k, g k raw)) (filter (\<lambda>(k, raw). keys = [] \<or> k \<in> set keys) xs)) k
      = map_option (g k) (map_of xs k)"
    for g :: "string \<Rightarrow> string \<Rightarrow> listed_setting" and xs :: "(string \<times> string) list"
    using assms(2) by (induction xs) auto
  then show ?thesis
    unfolding list_settings_def map_of_sorted [OF assms(1), symmetric] .
qed

text \<open>
  C30. The page tells nothing about a secret but whether it is set. Two servers whose stores have the
  same keys and the same values of the settings that are not secret, and whose environments
  likewise, show the same page, whatever the secrets in both are; and the value of a secret
  field is always empty.
\<close>

theorem page_hides_secrets:
  assumes "distinct (map fst t)" and "distinct (map fst u)"
    and "\<forall>k. (map_of t k = None) = (map_of u k = None)"
    and "\<forall>k. \<not> secret_setting k \<longrightarrow> map_of t k = map_of u k \<and> d k = e k"
    and "\<forall>k. secret_setting k \<longrightarrow> (trim_space (d k) = []) = (trim_space (e k) = [])"
  shows "settings_fields d (Some t) = settings_fields e (Some u)
    \<and> (\<forall>f \<in> set (settings_fields d (Some t)). field_secret f \<longrightarrow> field_value f = [])"
proof -
  let ?list = "list_settings (map spec_key settings_specs)"
  have "setting_field_of d (?list t) spec = setting_field_of e (?list u) spec"
    if spec: "spec \<in> set settings_specs" for spec
  proof -
    let ?k = "spec_key spec"
    have k: "?k \<in> set (map spec_key settings_specs)" using spec by simp
    note lists = map_of_list_settings [OF assms(1) k] map_of_list_settings [OF assms(2) k]
    show ?thesis
    proof (cases "secret_setting ?k")
      case True
      then have "spec_secret spec" using specs_facts(1) [OF spec] by simp
      moreover have "(map_of t ?k = None) = (map_of u ?k = None)"
        "(trim_space (d ?k) = []) = (trim_space (e ?k) = [])"
        using assms(3,5) True by blast+
      ultimately show ?thesis
        by (cases "map_of t ?k"; cases "map_of u ?k") (simp_all add: setting_field_of_def Let_def lists)
    next
      case False
      then have "map_of t ?k = map_of u ?k" "d ?k = e ?k" using assms(4) by blast+
      then show ?thesis by (cases "map_of u ?k") (simp_all add: setting_field_of_def Let_def lists)
    qed
  qed
  then show ?thesis
    by (auto simp: settings_fields_def setting_field_of_def Let_def cong: map_cong)
qed

theorem page_hides_secrets_witness:
  "settings_fields (\<lambda>k. '''') (Some [(''OPENHPC_LDAP_BIND_PASSWORD'', ''one'')])
   = settings_fields (\<lambda>k. '''') (Some [(''OPENHPC_LDAP_BIND_PASSWORD'', ''other'')])"
proof -
  have "\<And>k. \<not> secret_setting k \<Longrightarrow> k \<noteq> ''OPENHPC_LDAP_BIND_PASSWORD''"
    by (auto simp: secret_setting_def setting_schema_def)
  then show ?thesis
    using page_hides_secrets [of "[(''OPENHPC_LDAP_BIND_PASSWORD'', ''one'')]"
        "[(''OPENHPC_LDAP_BIND_PASSWORD'', ''other'')]" "\<lambda>k. ''''" "\<lambda>k. ''''"]
    by auto
qed

section \<open>Saving the page as it is shown\<close>

definition shown_value :: "(string \<Rightarrow> string) \<Rightarrow> settings_table \<Rightarrow> string \<Rightarrow> string" where
  "shown_value d t k = (case map_of t k of None \<Rightarrow> d k | Some raw \<Rightarrow> raw)"

definition unchanged_form :: "string \<Rightarrow> (string \<Rightarrow> string) \<Rightarrow> settings_table \<Rightarrow> settings_form" where
  \<comment> \<open>what the browser sends for the page as the server has rendered it\<close>
  "unchanged_form token d t =
     \<lparr>post_form = (''_csrf'', [token]) # map submitted_field (settings_fields d (Some t)), query_form = []\<rparr>"

definition sent_value :: "(string \<Rightarrow> string) \<Rightarrow> settings_table \<Rightarrow> settings_spec \<Rightarrow> string" where
  "sent_value d t spec =
     (let v = shown_value d t (spec_key spec)
      in if spec_input spec = Checkbox then (if v = ''true'' then ''true'' else ''false'') else v)"

lemma form_of_page:
  assumes "distinct (map fst t)" and spec: "spec \<in> set settings_specs"
  shows "map_of (post_form (unchanged_form token d t)) (spec_key spec)
      = Some (if spec_input spec = Checkbox
              then (if sent_value d t spec = ''true'' then [''true'', ''false''] else [''false''])
              else [if spec_secret spec then [] else sent_value d t spec])"
    and "form_value (unchanged_form token d t) (clear_key (spec_key spec)) = []"
proof -
  let ?list = "list_settings (map spec_key settings_specs) t" and ?k = "spec_key spec"
  have k: "?k \<in> set (map spec_key settings_specs)" using spec by simp
  have field: "(spec_key s, snd (submitted_field (setting_field_of d ?list s)))
      = submitted_field (setting_field_of d ?list s)" for s
    by (simp add: submitted_field_def setting_field_of_def Let_def)
  have entries: "map submitted_field (settings_fields d (Some t))
      = map (\<lambda>s. (spec_key s, snd (submitted_field (setting_field_of d ?list s)))) settings_specs"
    unfolding settings_fields_def field by simp
  have "map_of (map submitted_field (settings_fields d (Some t))) ?k
      = Some (snd (submitted_field (setting_field_of d ?list spec)))"
    unfolding entries using distinct_spec_keys spec
    by (intro map_of_is_SomeI) (auto simp: comp_def intro: rev_image_eqI)
  moreover have "map_of ?list ?k = map_option (\<lambda>raw. \<lparr>listed_value = (if secret_setting ?k then [] else raw),
        listed_secret = secret_setting ?k, listed_configured = True\<rparr>) (map_of t ?k)"
    by (rule map_of_list_settings [OF assms(1) k])
  ultimately show "map_of (post_form (unchanged_form token d t)) ?k
      = Some (if spec_input spec = Checkbox
              then (if sent_value d t spec = ''true'' then [''true'', ''false''] else [''false''])
              else [if spec_secret spec then [] else sent_value d t spec])"
    using specs_facts [OF spec]
    by (cases "map_of t ?k")
      (auto simp: unchanged_form_def submitted_field_def setting_field_of_def sent_value_def
        shown_value_def Let_def)
  have "take 6 (clear_key ?k) = ''clear_''" by (simp add: clear_key_def)
  then have "clear_key ?k \<notin> spec_key ` set settings_specs"
    using specs_facts(3) by (metis imageE)
  moreover have "fst ` set (map submitted_field (settings_fields d (Some t))) = spec_key ` set settings_specs"
    unfolding entries by force
  ultimately have "map_of (map submitted_field (settings_fields d (Some t))) (clear_key ?k) = None"
    by (metis map_of_eq_None_iff)
  moreover have "clear_key ?k \<noteq> ''_csrf''" by (simp add: clear_key_def)
  ultimately show "form_value (unchanged_form token d t) (clear_key ?k) = []"
    by (simp add: form_value_def unchanged_form_def)
qed

lemma collect_page:
  assumes "distinct (map fst t)" and "set specs \<subseteq> set settings_specs"
    and "\<forall>spec \<in> set specs. \<not> spec_secret spec \<longrightarrow>
      valid_setting_form_value L (spec_key spec) (sent_value d t spec)"
  shows "collect_values L (unchanged_form token d t) specs
    = Inr (map (\<lambda>s. (spec_key s, sent_value d t s)) (filter (\<lambda>s. \<not> spec_secret s) specs))"
  using assms(2,3)
proof (induction specs)
  case (Cons s specs)
  have s: "s \<in> set settings_specs" using Cons.prems(1) by simp
  note form = form_of_page [OF assms(1) s, of token d]
  have "form_value (unchanged_form token d t) (spec_key s) = (if spec_secret s then [] else sent_value d t s)"
    using form(1) specs_facts(5) [OF s] by (auto simp: form_value_def sent_value_def Let_def)
  moreover have "\<not> (spec_input s = Checkbox \<and> sent_value d t s = [])"
    by (auto simp: sent_value_def Let_def)
  ultimately show ?case using Cons form by auto
qed simp

abbreviation sent_values :: "(string \<Rightarrow> string) \<Rightarrow> settings_table \<Rightarrow> (string \<times> string) list" where
  "sent_values d t \<equiv> map (\<lambda>s. (spec_key s, sent_value d t s)) (filter (\<lambda>s. \<not> spec_secret s) settings_specs)"

lemma distinct_sent_keys: "distinct (map fst (sent_values d t))"
  using distinct_spec_keys by (simp add: comp_def distinct_map inj_on_def)

lemma known_keys_of_page: "list_all (known_form_key \<circ> fst) (post_form (unchanged_form token d t))"
proof -
  have "fst ` set (post_form (unchanged_form token d t)) = insert ''_csrf'' (spec_key ` set settings_specs)"
    by (auto simp: unchanged_form_def settings_fields_def submitted_field_def setting_field_of_def Let_def
        image_image)
  moreover have "known_form_key k" if "k \<in> spec_key ` set settings_specs" for k
    using that specs_facts(3) by (auto simp: known_form_key_def)
  moreover have "known_form_key ''_csrf''" by (simp add: known_form_key_def)
  ultimately show ?thesis
    unfolding list_all_iff by (metis comp_apply image_eqI insertE)
qed

text \<open>The untouched form is accepted, and writes the values the page has shown, but no secret.\<close>

lemma save_untouched:
  assumes "settings_ok t"
    and valid: "\<forall>spec \<in> set settings_specs. \<not> spec_secret spec \<longrightarrow>
      valid_setting_form_value L (spec_key spec) (sent_value d t spec)"
    and "terminal_values_ok L (sent_values d t)"
  shows "save_settings L c key nonces True (unchanged_form token d t) t
    = (SavedRedirect, fold write_setting (sent_values d t) t)"
proof -
  have dist: "distinct (map fst t)" using assms(1) by (simp add: settings_ok_def)
  have collect: "collect_values L (unchanged_form token d t) settings_specs = Inr (sent_values d t)"
    by (rule collect_page [OF dist order_refl valid])
  have "map_sum_list (prepare_setting c key nonces) vals = Inr vals"
    if "set vals \<subseteq> set (sent_values d t)" for vals
    using that
  proof (induction vals)
    case (Cons kv vals)
    then obtain s where s: "s \<in> set settings_specs" "\<not> spec_secret s"
        "kv = (spec_key s, sent_value d t s)"
      by auto
    have "length (sent_value d t s) \<le> 8192"
      using valid s(1,2) unfolding valid_setting_form_value_def by blast
    then have "prepare_setting c key nonces kv = Inr kv"
      using s specs_facts(1,2) [OF s(1)]
      by (simp add: prepare_setting_def max_setting_value_bytes_def)
    then show ?case using Cons by simp
  qed simp
  then show ?thesis
    using known_keys_of_page collect assms(3) by (simp add: save_settings_def set_many_def)
qed

lemma map_of_sent_values:
  assumes "spec \<in> set settings_specs"
  shows "map_of (sent_values d t) (spec_key spec)
    = (if spec_secret spec then None else Some (sent_value d t spec))"
proof (cases "spec_secret spec")
  case True
  then have "spec_key spec \<notin> set (map fst (sent_values d t))"
    using distinct_spec_keys assms by (auto simp: distinct_map inj_on_def)
  then show ?thesis using True by (simp add: map_of_eq_None_iff image_image)
next
  case False
  then have "(spec_key spec, sent_value d t spec) \<in> set (sent_values d t)" using assms by auto
  then show ?thesis using False map_of_is_SomeI [OF distinct_sent_keys] by simp
qed

lemma setting_value_plain:
  "spec \<in> set settings_specs \<Longrightarrow> \<not> spec_secret spec \<Longrightarrow>
     setting_value c key (spec_key spec) (d (spec_key spec)) t = Inr (shown_value d t (spec_key spec))"
  using specs_facts(1,2)
  by (simp add: setting_value_def get_setting_def shown_value_def split: option.split)

lemma shown_value_empty:
  "settings_ok t \<Longrightarrow> shown_value d t k = [] \<Longrightarrow> map_of t k = None"
  by (auto simp: shown_value_def settings_ok_def split: option.splits)

text \<open>
  C15. Saving the page as it is shown keeps every setting. Take a store after any updates and an
  environment whose values the form accepts; the administrator opens the page and submits it
  untouched. The save works without an encryption key, and at the next start every setting has the value
  it had, except that a switch whose value was neither \<open>true\<close> nor \<open>false\<close> now is \<open>false\<close>,
  which means the same; secrets, which the page does not show, are kept.
\<close>

theorem untouched_page_keeps_settings:
  assumes "t = saved_table c key nonces updates"
    and "\<forall>spec \<in> set settings_specs. \<not> spec_secret spec \<longrightarrow>
      valid_setting_form_value L (spec_key spec) (sent_value d t spec)"
    and "terminal_values_ok L (sent_values d t)"
    and "save_settings L c key' nonces True (unchanged_form token d t) t = (answer, t')"
    and "spec \<in> set settings_specs"
  shows "answer = SavedRedirect
    \<and> (if spec_input spec = Checkbox
       then \<exists>b b'. setting_value c key (spec_key spec) (d (spec_key spec)) t = Inr b
         \<and> setting_value c key (spec_key spec) (d (spec_key spec)) t' = Inr b'
         \<and> (b = ''true'') = (b' = ''true'')
       else setting_value c key (spec_key spec) (d (spec_key spec)) t'
         = setting_value c key (spec_key spec) (d (spec_key spec)) t)"
proof -
  let ?k = "spec_key spec"
  have ok: "settings_ok t" unfolding assms(1) by (rule settings_ok_saved)
  have t': "answer = SavedRedirect" "t' = fold write_setting (sent_values d t) t"
    using assms(4) save_untouched [OF ok assms(2,3)] by simp_all
  have after: "map_of t' ?k = (if spec_secret spec then map_of t ?k
      else if sent_value d t spec = [] then None else Some (sent_value d t spec))"
    unfolding t'(2) map_of_writes [OF distinct_sent_keys] map_of_sent_values [OF assms(5)] by simp
  note plain = setting_value_plain [OF assms(5)]
  consider (secret) "spec_secret spec" | (switch) "\<not> spec_secret spec" "spec_input spec = Checkbox"
    | (other) "\<not> spec_secret spec" "spec_input spec \<noteq> Checkbox" by blast
  then show ?thesis
  proof cases
    case secret
    then have "spec_input spec \<noteq> Checkbox" using specs_facts(5) [OF assms(5)] by blast
    then show ?thesis
      using secret after t'(1) by (simp add: setting_value_def get_setting_def)
  next
    case switch
    then show ?thesis
      using plain after t'(1) by (simp add: shown_value_def [of d t'] sent_value_def Let_def)
  next
    case other
    then have "map_of t' ?k = (if shown_value d t ?k = [] then None else Some (shown_value d t ?k))"
      using after by (simp add: sent_value_def Let_def)
    then have "shown_value d t' ?k = shown_value d t ?k"
      using shown_value_empty [OF ok, of d ?k]
      by (cases "shown_value d t ?k = []") (simp_all add: shown_value_def [of d t'], simp add: shown_value_def)
    then show ?thesis using plain other t'(1) by simp
  qed
qed

definition example_libraries :: settings_libraries where
  "example_libraries = \<lparr>parse_duration = (\<lambda>s. if s = ''10s'' then Some (10 * second) else None),
     split_host_port = (\<lambda>s. None), ldap_url_ok = (\<lambda>s. False), dn_ok = (\<lambda>s. False),
     ca_file_ok = (\<lambda>s. False)\<rparr>"

definition example_environment :: "string \<Rightarrow> string" where
  "example_environment k =
     (if k \<in> set [''OPENHPC_SLURM_TIMEOUT'', ''OPENHPC_SLURM_CACHE_TTL'', ''OPENHPC_LDAP_TIMEOUT'',
                  ''OPENHPC_TERMINAL_TIMEOUT''] then ''10s''
      else if k = ''OPENHPC_SLURM_MAX_OUTPUT'' \<or> k = ''OPENHPC_LDAP_MAX_RESULTS'' then ''200''
      else if k = ''OPENHPC_SLURM_ENABLED'' then ''true'' else '''')"

theorem untouched_page_keeps_settings_witness:
  "case save_settings example_libraries example_cipher '''' (\<lambda>k. None) True
      (unchanged_form ''token'' example_environment []) [] of
    (answer, t') \<Rightarrow> answer = SavedRedirect
      \<and> setting_value example_cipher ''k'' ''OPENHPC_SLURM_TIMEOUT''
          (example_environment ''OPENHPC_SLURM_TIMEOUT'') t'
        = setting_value example_cipher ''k'' ''OPENHPC_SLURM_TIMEOUT''
          (example_environment ''OPENHPC_SLURM_TIMEOUT'') []"
proof -
  let ?run = "save_settings example_libraries example_cipher '''' (\<lambda>k. None) True
      (unchanged_form ''token'' example_environment []) []"
  let ?spec = "\<lparr>spec_key = ''OPENHPC_SLURM_TIMEOUT'', spec_group = ''Slurm'', spec_input = TextInput,
    spec_secret = False\<rparr>"
  have "parse_int64 ''200'' = Some 200" by code_simp
  then have valid: "\<forall>spec \<in> set settings_specs. \<not> spec_secret spec \<longrightarrow>
      valid_setting_form_value example_libraries (spec_key spec) (sent_value example_environment [] spec)"
    by (simp add: settings_specs_def valid_setting_form_value_def sent_value_def shown_value_def
        example_libraries_def example_environment_def duration_setting_def number_setting_def second_def)
  have off: "sent_value example_environment [] \<lparr>spec_key = ''OPENHPC_TERMINAL_ENABLED'', spec_group = ''Terminal'',
      spec_input = Checkbox, spec_secret = False\<rparr> = ''false''"
    by (simp add: sent_value_def shown_value_def example_environment_def)
  then have terminal: "terminal_values_ok example_libraries
      (map (\<lambda>s. (spec_key s, sent_value example_environment [] s))
        (filter (\<lambda>s. \<not> spec_secret s) settings_specs))"
    unfolding terminal_values_ok_def
    by (intro disjI1) (simp add: lookup_value_def settings_specs_def)
  have spec: "?spec \<in> set settings_specs" by (simp add: settings_specs_def)
  have t: "[] = saved_table example_cipher ''k'' (\<lambda>k. None) []" by (simp add: saved_table_def)
  obtain answer t' where run: "?run = (answer, t')" by (cases ?run)
  from untouched_page_keeps_settings [OF t valid terminal run spec] show ?thesis
    unfolding run by simp
qed

end
