(* ===== verification/SlurmActions.thy ===== *)
theory SlurmActions
  imports PartitionStore JobReader WebAuth CoreHours
begin

text \<open>
  What the portal makes Slurm do: cancelling a job (\<open>internal/web/job_cancel.go\<close>,
  \<open>internal/slurm/job_admin.go\<close>), taking a node in and out of service (\<open>setNodeAvailability\<close> of
  \<open>internal/web/app.go\<close>) and partitions (\<open>internal/slurm/partition_admin.go\<close>, the start-up
  synchronisation of \<open>internal/web/partitions.go\<close>). A Slurm command is its list of arguments;
  whether it works is the parameter \<open>slurm\<close>, and each operation returns the commands it has run.
\<close>

type_synonym command = "string list"

section \<open>The client\<close>

definition separators :: string where
  "separators = [CHR '','', CHR '' '', CHR 0x09, CHR 0x0D, CHR 0x0A]"

definition has_separator :: "string \<Rightarrow> bool" where
  \<comment> \<open>\<open>strings.ContainsAny\<close>\<close>
  "has_separator v \<longleftrightarrow> list_ex (\<lambda>c. c \<in> set separators) v"

definition valid_details :: "string list \<Rightarrow> bool" where
  "valid_details vs \<longleftrightarrow> validate_detail_strings vs = Inr ()"

definition validate_partition_definition :: "string \<Rightarrow> string list \<Rightarrow> bool" where
  "validate_partition_definition name nodes \<longleftrightarrow>
     \<not> (trim_space name = [] \<or> nodes = [])
   \<and> valid_details (name # nodes)
   \<and> list_all (\<lambda>v. \<not> has_separator v) (name # nodes)
   \<and> distinct nodes"

definition apply_partition ::
  "(command \<Rightarrow> bool) \<Rightarrow> string \<Rightarrow> string list \<Rightarrow> bool \<times> command list" where
  "apply_partition slurm name nodes =
     (if \<not> validate_partition_definition name nodes then (False, [])
      else
        let arguments = [''partitionname='' @ name, ''nodes='' @ join_str '','' nodes];
            create = ''scontrol'' # ''create'' # arguments;
            update = ''scontrol'' # ''update'' # arguments
        in if slurm create then (True, [create]) else (slurm update, [create, update]))"

definition delete_slurm_partition :: "(command \<Rightarrow> bool) \<Rightarrow> string \<Rightarrow> bool \<times> command list" where
  \<comment> \<open>\<open>DeletePartition\<close>\<close>
  "delete_slurm_partition slurm name =
     (if trim_space name = [] \<or> \<not> valid_details [name] \<or> has_separator name then (False, [])
      else
        let delete = [''scontrol'', ''delete'', ''partitionname='' @ name]
        in (slurm delete, [delete]))"

definition max_node_reason_length :: nat where
  "max_node_reason_length = 256"

definition validate_node_state :: "string \<Rightarrow> string \<Rightarrow> bool" where
  "validate_node_state state reason \<longleftrightarrow>
     (if state = ''resume'' then reason = []
      else if state = ''down'' \<or> state = ''drain''
      then reason \<noteq> [] \<and> length reason \<le> max_node_reason_length \<and> valid_details [reason]
      else False)"

definition validate_node_name :: "string \<Rightarrow> bool" where
  "validate_node_name name \<longleftrightarrow>
     trim_space name \<noteq> [] \<and> valid_details [name] \<and> \<not> has_separator name"

definition set_node_state :: "(command \<Rightarrow> bool) \<Rightarrow> string \<Rightarrow> string \<Rightarrow> string \<Rightarrow> bool \<times> command list" where
  "set_node_state slurm name state reason =
     (let reason = trim_space reason
      in if \<not> validate_node_name name \<or> \<not> validate_node_state state reason then (False, [])
         else
           let update = [''scontrol'', ''update'', ''nodename='' @ name, ''state='' @ state]
                        @ (if reason \<noteq> [] then [''reason='' @ reason] else [])
           in (slurm update, [update]))"

definition cancel_job :: "(command \<Rightarrow> bool) \<Rightarrow> int \<Rightarrow> bool \<times> command list" where
  "cancel_job slurm i =
     (if i \<le> 0 then (False, [])
      else let cancel = [''scancel'', dec_int i] in (slurm cancel, [cancel]))"

section \<open>The handlers\<close>

text \<open>A status or the query of a redirect, the audited actions with their outcomes, the commands.\<close>

datatype action_answer = ActionStatus nat | ActionRedirect string

record action_result =
  answered :: action_answer
  audited_as :: "(string \<times> string) list"
  commands :: "command list"

definition only_status :: "nat \<Rightarrow> action_result" where
  "only_status n = \<lparr>answered = ActionStatus n, audited_as = [], commands = []\<rparr>"

definition valid_node_state :: "string \<Rightarrow> bool" where
  "valid_node_state state \<longleftrightarrow> state = ''down'' \<or> state = ''drain'' \<or> state = ''resume''"

definition requires_node_reason :: "string \<Rightarrow> bool" where
  "requires_node_reason state \<longleftrightarrow> state = ''down'' \<or> state = ''drain''"

definition update_node :: "(command \<Rightarrow> bool) \<Rightarrow> string \<Rightarrow> string \<Rightarrow> string \<Rightarrow> action_result" where
  \<comment> \<open>the end of the handler, once the node is found\<close>
  "update_node slurm name state reason =
     (let (ok, run) = set_node_state slurm name state reason;
          audit_action = ''slurm.node.state.'' @ state
      in if \<not> ok
         then \<lparr>answered = ActionRedirect ''/slurm/nodes?error=update_failed#nodes'',
               audited_as = [(audit_action, ''failed'')], commands = run\<rparr>
         else \<lparr>answered = ActionRedirect (''/slurm/nodes?saved='' @ state @ ''#nodes''),
               audited_as = [(audit_action, ''success'')], commands = run\<rparr>)"

definition set_node_availability ::
  "(command \<Rightarrow> bool) \<Rightarrow> bool \<Rightarrow> string list option \<Rightarrow> string \<Rightarrow> string \<Rightarrow> string \<Rightarrow> action_result" where
  \<comment> \<open>\<open>configured\<close>: both providers are there; \<open>nodes\<close>: the names Slurm lists, if it answers\<close>
  "set_node_availability slurm configured nodes form_name form_state form_reason =
     (let name = trim_space form_name;
          state = trim_space form_state;
          reason = trim_space form_reason
      in if \<not> configured then only_status 503
         else if name = [] \<or> \<not> valid_node_state state then only_status 400
         else if requires_node_reason state \<and> reason = []
         then \<lparr>answered = ActionRedirect ''/slurm/nodes?error=reason_required#nodes'', audited_as = [],
               commands = []\<rparr>
         else
           let reason = (if state = ''resume'' then [] else reason)
           in case nodes of
               None \<Rightarrow> only_status 503
             | Some names \<Rightarrow>
                 if name \<notin> set names then only_status 400
                 else update_node slurm name state reason)"

record listed_job =
  listed_id :: string
  listed_user :: string

definition can_cancel_job :: "principal \<Rightarrow> listed_job \<Rightarrow> bool" where
  "can_cancel_job identity job \<longleftrightarrow> snd identity = RoleAdmin \<or> listed_user job = fst identity"

definition cancel_audit :: "int \<Rightarrow> string \<Rightarrow> string \<times> string" where
  "cancel_audit i result = (''slurm.job.cancel:'' @ dec_int i, result)"

definition slurm_job_cancel ::
  "(command \<Rightarrow> bool) \<Rightarrow> bool \<Rightarrow> (int \<Rightarrow> listed_job option option) \<Rightarrow> principal \<Rightarrow> string \<Rightarrow> action_result" where
  \<comment> \<open>\<open>find_job\<close>: \<open>None\<close> when Slurm does not answer, \<open>Some None\<close> when there is no such job\<close>
  "slurm_job_cancel slurm configured find_job identity id_param =
     (case parse_positive_job_id id_param of
        None \<Rightarrow> \<lparr>answered = ActionStatus 400, audited_as = [cancel_audit 0 ''invalid_request''], commands = []\<rparr>
      | Some i \<Rightarrow>
          if \<not> configured
          then \<lparr>answered = ActionStatus 503, audited_as = [cancel_audit i ''unavailable''], commands = []\<rparr>
          else case find_job i of
              None \<Rightarrow> \<lparr>answered = ActionStatus 503, audited_as = [cancel_audit i ''unavailable''], commands = []\<rparr>
            | Some None \<Rightarrow> \<lparr>answered = ActionStatus 404, audited_as = [cancel_audit i ''denied''], commands = []\<rparr>
            | Some (Some job) \<Rightarrow>
                if listed_id job \<noteq> dec_int i \<or> \<not> can_cancel_job identity job
                then \<lparr>answered = ActionStatus 404, audited_as = [cancel_audit i ''denied''], commands = []\<rparr>
                else
                  let (ok, run) = cancel_job slurm i
                  in if \<not> ok
                     then \<lparr>answered = ActionStatus 503, audited_as = [cancel_audit i ''failed''], commands = run\<rparr>
                     else \<lparr>answered = ActionRedirect ''/slurm/jobs'', audited_as = [cancel_audit i ''success''],
                           commands = run\<rparr>)"

section \<open>Partitions at the start of the server\<close>

fun sync_partitions :: "(command \<Rightarrow> bool) \<Rightarrow> (string \<times> partition_spec) list \<Rightarrow> bool \<times> command list" where
  \<comment> \<open>the loop of \<open>syncStoredPartitions\<close>\<close>
  "sync_partitions slurm [] = (True, [])"
| "sync_partitions slurm ((name, s) # ps) =
     (let (ok, run) = apply_partition slurm name (spec_nodes s)
      in if \<not> ok then (False, run)
         else let (all_ok, more) = sync_partitions slurm ps in (all_ok, run @ more))"

definition sync_stored_partitions :: "(command \<Rightarrow> bool) \<Rightarrow> partition_table \<Rightarrow> bool \<times> command list" where
  "sync_stored_partitions slurm t = sync_partitions slurm (list_partitions True t)"

section \<open>Properties of jobs and nodes\<close>

lemma parse_positive_job_id_dec:
  assumes "parse_positive_job_id id_param = Some i"
  shows "0 < i" and "id_param = dec_int i"
proof -
  have i: "0 < i" "parse_int64 id_param = Some i" "id_param \<noteq> []" "hd id_param \<noteq> CHR ''0''"
      "list_all is_digit id_param"
    using assms by (auto simp: parse_positive_job_id_def split: if_splits option.splits)
  then have "i = int (dec_val id_param)"
    using parse_int64_digits [of id_param] by (auto simp: list_all_iff split: if_splits)
  then show "0 < i" "id_param = dec_int i"
    using dec_dec_val [OF i(3,5,4)] i(1) by (simp_all add: dec_int_def)
qed

text \<open>
  C23. Who may cancel what. A request to cancel runs at most one command, \<open>scancel\<close> with the canonical
  number of the request, and only for a job of that number which belongs to the user or when
  the user is an administrator; every request is audited exactly once, and the outcome
  \<open>success\<close> is recorded and the redirect sent if and only if the command has worked.
\<close>

theorem cancel_only_own_jobs:
  assumes "slurm_job_cancel slurm configured find_job identity id_param = r"
  shows "(commands r \<noteq> [] \<longrightarrow>
      (\<exists>i job. 0 < i \<and> id_param = dec_int i \<and> find_job i = Some (Some job) \<and> listed_id job = dec_int i
        \<and> (snd identity = RoleAdmin \<or> listed_user job = fst identity)
        \<and> commands r = [[''scancel'', dec_int i]]))
    \<and> length (audited_as r) = 1
    \<and> (snd (hd (audited_as r)) = ''success''
        \<longleftrightarrow> (\<exists>c. commands r = [c] \<and> slurm c))
    \<and> (answered r = ActionRedirect ''/slurm/jobs'' \<longleftrightarrow> snd (hd (audited_as r)) = ''success'')"
proof (cases "parse_positive_job_id id_param")
  case None
  then show ?thesis using assms by (auto simp: slurm_job_cancel_def cancel_audit_def)
next
  case (Some i)
  note i = parse_positive_job_id_dec [OF Some]
  show ?thesis
    using assms Some i
    by (auto simp: slurm_job_cancel_def cancel_audit_def cancel_job_def can_cancel_job_def Let_def
        split: option.splits if_splits)
qed

theorem cancel_only_own_jobs_witness:
  "let find_job = (\<lambda>i. Some (Some \<lparr>listed_id = ''42'', listed_user = ''alice''\<rparr>))
   in commands (slurm_job_cancel (\<lambda>c. True) True find_job (''alice'', RoleUser) ''42'') = [[''scancel'', ''42'']]
    \<and> commands (slurm_job_cancel (\<lambda>c. True) True find_job (''bob'', RoleUser) ''42'') = []"
proof -
  let ?find = "\<lambda>i :: int. Some (Some \<lparr>listed_id = ''42'', listed_user = ''alice''\<rparr>)"
  have "commands (slurm_job_cancel (\<lambda>c. True) True ?find (''alice'', RoleUser) ''42'') = [[''scancel'', ''42'']]"
    by code_simp
  moreover have "commands (slurm_job_cancel (\<lambda>c. True) True ?find (''bob'', RoleUser) ''42'') = []"
    using cancel_only_own_jobs [of "\<lambda>c. True" True ?find "(''bob'', RoleUser)" "''42''", OF refl] by auto
  ultimately show ?thesis by (simp add: Let_def)
qed

lemma set_node_state_runs:
  assumes "snd (set_node_state slurm name state reason) \<noteq> []"
  shows "validate_node_name name" and "validate_node_state state (trim_space reason)"
    and "set_node_state slurm name state reason
      = (let update = [''scontrol'', ''update'', ''nodename='' @ name, ''state='' @ state]
           @ (if trim_space reason = [] then [] else [''reason='' @ trim_space reason])
         in (slurm update, [update]))"
proof -
  have v: "validate_node_name name \<and> validate_node_state state (trim_space reason)"
    using assms unfolding set_node_state_def Let_def by (rule contrapos_np) simp
  then show "validate_node_name name" "validate_node_state state (trim_space reason)" by simp_all
  show "set_node_state slurm name state reason
      = (let update = [''scontrol'', ''update'', ''nodename='' @ name, ''state='' @ state]
           @ (if trim_space reason = [] then [] else [''reason='' @ trim_space reason])
         in (slurm update, [update]))"
    using v by (simp only: set_node_state_def Let_def simp_thms if_False if_True) (rule refl | simp)
qed

lemma update_node_runs:
  "commands (update_node slurm name state reason) = snd (set_node_state slurm name state reason)"
  "audited_as (update_node slurm name state reason) = [(''slurm.node.state.'' @ state,
     if fst (set_node_state slurm name state reason) then ''success'' else ''failed'')]"
proof -
  obtain ok run where "set_node_state slurm name state reason = (ok, run)" by fastforce
  then show "commands (update_node slurm name state reason) = snd (set_node_state slurm name state reason)"
    "audited_as (update_node slurm name state reason) = [(''slurm.node.state.'' @ state,
       if fst (set_node_state slurm name state reason) then ''success'' else ''failed'')]"
    by (cases ok; simp add: update_node_def)+
qed

text \<open>
  C31. What a node is told. A request for a node runs at most one command, for a node that Slurm lists,
  whose name has no separator; its state is one of three, its reason is present, at most 256
  bytes and without control characters for two of them and absent for the third, so nothing of
  the form reaches the command line in any other place; and the audit log has exactly the
  outcome of that command.
\<close>

theorem node_command_exact:
  assumes "set_node_availability slurm configured nodes form_name form_state form_reason = r"
    and "commands r \<noteq> []"
  shows "\<exists>name state reason. name = trim_space form_name \<and> state = trim_space form_state
    \<and> (\<exists>names. nodes = Some names \<and> name \<in> set names) \<and> \<not> has_separator name
    \<and> commands r = [[''scontrol'', ''update'', ''nodename='' @ name, ''state='' @ state]
        @ (if reason = [] then [] else [''reason='' @ reason])]
    \<and> (if state = ''resume'' then reason = []
       else state \<in> {''down'', ''drain''} \<and> reason \<noteq> [] \<and> length reason \<le> 256 \<and> valid_details [reason])
    \<and> audited_as r = [(''slurm.node.state.'' @ state,
        if slurm (hd (commands r)) then ''success'' else ''failed'')]"
proof -
  let ?name = "trim_space form_name" and ?state = "trim_space form_state"
  define reason where "reason = (if ?state = ''resume'' then [] else trim_space form_reason)"
  obtain names where n: "nodes = Some names" "?name \<in> set names"
    and r: "r = update_node slurm ?name ?state reason"
    using assms
    by (auto simp: set_node_availability_def Let_def only_status_def reason_def split: if_splits option.splits)
  define r' where "r' = trim_space reason"
  note runs = update_node_runs [of slurm ?name ?state reason]
  note state = set_node_state_runs [OF assms(2) [unfolded r runs(1)], folded r'_def]
  have cmd: "commands r = [[''scontrol'', ''update'', ''nodename='' @ ?name, ''state='' @ ?state]
        @ (if r' = [] then [] else [''reason='' @ r'])]"
      "audited_as r = [(''slurm.node.state.'' @ ?state, if slurm (hd (commands r)) then ''success'' else ''failed'')]"
    unfolding r runs unfolding state(3) by (simp_all add: Let_def)
  have "if ?state = ''resume'' then r' = []
      else ?state \<in> {''down'', ''drain''} \<and> r' \<noteq> [] \<and> length r' \<le> 256 \<and> valid_details [r']"
    using state(2) by (simp add: validate_node_state_def max_node_reason_length_def split: if_splits)
  moreover have "\<not> has_separator ?name" using state(1) by (simp add: validate_node_name_def)
  ultimately show ?thesis
    using n cmd by (intro exI [of _ ?name] exI [of _ ?state] exI [of _ r']) simp
qed

theorem node_command_exact_witness:
  "commands (set_node_availability (\<lambda>c. True) True (Some [''n1'']) '' n1 '' ''drain'' ''disk'')
     = [[''scontrol'', ''update'', ''nodename=n1'', ''state=drain'', ''reason=disk'']]
   \<and> \<not> has_separator ''n1''"
proof -
  have run: "commands (set_node_availability (\<lambda>c. True) True (Some [''n1'']) '' n1 '' ''drain'' ''disk'')
     = [[''scontrol'', ''update'', ''nodename=n1'', ''state=drain'', ''reason=disk'']]"
    by code_simp
  have "trim_space '' n1 '' = ''n1''" by code_simp
  then show ?thesis
    using run node_command_exact [of "\<lambda>c. True" True "Some [''n1'']" "'' n1 ''" "''drain''" "''disk''", OF refl]
    by auto
qed

section \<open>Partitions that the store takes and Slurm's client does not\<close>

lemma comma_refused:
  assumes "CHR '','' \<in> set name"
  shows "apply_partition slurm name nodes = (False, [])"
    and "delete_slurm_partition slurm name = (False, [])"
proof -
  have "has_separator name" using assms by (auto simp: has_separator_def separators_def list_ex_iff)
  then show "apply_partition slurm name nodes = (False, [])"
    "delete_slurm_partition slurm name = (False, [])"
    by (simp_all add: apply_partition_def validate_partition_definition_def delete_slurm_partition_def)
qed

text \<open>An attempt to save or to delete a partition through the page, answered by the client of Slurm.\<close>

datatype partition_attempt =
  SaveAttempt "string list" "string list option" int bool
| DeleteAttempt int bool

definition attempt ::
  "(command \<Rightarrow> bool) \<Rightarrow> string \<Rightarrow> string \<Rightarrow> partition_attempt \<Rightarrow> partition_table \<Rightarrow> page_response \<times> partition_table" where
  "attempt slurm lang name a t =
     (case a of
        SaveAttempt selected live now db_ok \<Rightarrow>
          save_partition lang name selected live (Some (fst (apply_partition slurm name selected))) now db_ok t
      | DeleteAttempt now db_ok \<Rightarrow>
          delete_partition lang name (Some (fst (delete_slurm_partition slurm name))) now db_ok True t)"

definition stored_managed :: "string \<Rightarrow> partition_table \<Rightarrow> bool" where
  "stored_managed name t \<longleftrightarrow> table_ok t \<and> (\<exists>s. map_of t name = Some s \<and> spec_managed s)"

lemma comma_save_attempt:
  assumes "CHR '','' \<in> set name" and "trim_space name = name" and "stored_managed name t"
    and "attempt slurm lang name (SaveAttempt selected live now db_ok) t = (r, t')"
  shows "stored_managed name t'" and "r \<in> {HttpError 400, HttpError 503,
    error_redirect lang ''save_failed'' name, error_redirect lang ''readonly'' name,
    error_redirect lang ''sync_failed'' name}"
proof -
  have ok: "table_ok t" and managed: "\<exists>s. map_of t name = Some s \<and> spec_managed s"
    using assms(3) by (simp_all add: stored_managed_def)
  let ?u = "upsert name selected True now db_ok t"
  have "t' = t \<or> t' = snd ?u"
    using assms(2,4) comma_refused(1) [OF assms(1)]
    by (auto simp: attempt_def save_partition_def Let_def split: option.splits if_splits prod.splits sum.splits)
  moreover have "stored_managed name (snd ?u)"
  proof (cases ?u)
    case (Pair res u)
    show ?thesis
    proof (cases res)
      case (Inl e)
      then have "u = t" using upsert_cases [OF ok, of name selected True now db_ok] Pair by fastforce
      then show ?thesis using assms(3) Pair by simp
    next
      case (Inr c)
      then show ?thesis
        using spec_ok_upsert_result [OF ok, of name selected True now db_ok c u] Pair
          table_ok_upsert [OF ok, of name selected True now db_ok] by (simp add: stored_managed_def)
    qed
  qed
  ultimately show "stored_managed name t'" using assms(3) by blast
  show "r \<in> {HttpError 400, HttpError 503, error_redirect lang ''save_failed'' name,
      error_redirect lang ''readonly'' name, error_redirect lang ''sync_failed'' name}"
    using assms(2,4) comma_refused(1) [OF assms(1)]
    by (auto simp: attempt_def save_partition_def Let_def split: option.splits if_splits prod.splits sum.splits)
qed

lemma comma_delete_attempt:
  assumes "valid_partition_identifier name" and "CHR '','' \<in> set name"
    and "table_ok t" and "map_of t name = Some s" and "spec_managed s"
    and "attempt slurm lang name (DeleteAttempt now db_ok) t = (r, t')"
  shows "r = error_redirect lang (if db_ok then ''sync_failed'' else ''delete_failed'') name"
    and "stored_managed name t'" and "map_option spec_nodes (map_of t' name) = Some (spec_nodes s)"
proof -
  have name: "trim_space name = name" "name \<noteq> []"
    using valid_trim [OF assms(1)] valid_facts [OF assms(1)] by simp_all
  have get: "get_partition name t = Inr (Some s)"
    using assms(1,4) load_table [OF assms(3), of name] by (simp add: get_partition_def)
  have del: "delete_managed name db_ok t = (if db_ok then (Inr (), AList.delete name t) else (Inl DatabaseError, t))"
    using assms(1,4,5) load_table [OF assms(3), of name] by (simp add: delete_managed_def)
  let ?u = "upsert name (spec_nodes s) True now True (AList.delete name t)"
  have r: "r = error_redirect lang (if db_ok then ''sync_failed'' else ''delete_failed'') name"
    and t': "t' = (if db_ok then snd ?u else t)"
    using assms(5,6) name get del comma_refused(2) [OF assms(2)]
    by (auto simp: attempt_def delete_partition_def split: if_splits)
  show "r = error_redirect lang (if db_ok then ''sync_failed'' else ''delete_failed'') name" by (rule r)
  have restored: "map_option (\<lambda>s. (spec_nodes s, spec_managed s)) (map_of (snd ?u) name)
      = Some (spec_nodes s, True)"
    using upsert_deleted [OF assms(3,4,5), of now name] assms(4,5) by simp
  have "table_ok (snd ?u)" by (rule table_ok_upsert [OF table_ok_delete [OF assms(3)]])
  then show "stored_managed name t'" "map_option spec_nodes (map_of t' name) = Some (spec_nodes s)"
    using restored assms(3,4,5) unfolding t' stored_managed_def by auto
qed

lemma comma_first_save:
  assumes "valid_partition_identifier name" and "CHR '','' \<in> set name"
    and "table_ok t" and "map_of t name = None"
    and "selected \<noteq> []" and "distinct selected" and "\<forall>n \<in> set selected. valid_partition_identifier n"
    and "set selected \<subseteq> set live"
    and "attempt slurm lang name (SaveAttempt selected (Some live) now True) t = (r, t')"
  shows "r = error_redirect lang ''sync_failed'' name"
    and "map_option (\<lambda>s. (spec_nodes s, spec_managed s)) (map_of t' name) = Some (sort selected, True)"
proof -
  have name: "trim_space name = name" "name \<noteq> []"
    using valid_trim [OF assms(1)] valid_facts [OF assms(1)] by simp_all
  have norm: "normalize_partition_nodes selected = Inr (sort selected)"
    using check_nodes_valid [OF assms(7,6), of "[]"] by (simp add: normalize_partition_nodes_def)
  define s where "s = \<lparr>spec_nodes = sort selected, spec_managed = True, spec_created = now, spec_updated = now\<rparr>"
  have up: "upsert name selected True now True t
      = (Inr \<lparr>change_spec = s, change_created = True, change_updated = False, change_added = [],
          change_removed = []\<rparr>, AList.update name s t)"
    using assms(1,4,5) norm load_table [OF assms(3), of name] by (simp add: upsert_def s_def Let_def)
  have "list_all (\<lambda>n. n \<in> set live) selected" using assms(8) by (auto simp: list_all_iff)
  then have "r = error_redirect lang ''sync_failed'' name" "t' = AList.update name s t"
    using assms(5,9) name comma_refused(1) [OF assms(2)] up by (simp_all add: attempt_def save_partition_def)
  then show "r = error_redirect lang ''sync_failed'' name"
    "map_option (\<lambda>s. (spec_nodes s, spec_managed s)) (map_of t' name) = Some (sort selected, True)"
    by (simp_all add: update_conv' s_def)
qed

text \<open>
  C39. A partition with a comma in its name is stuck. The store accepts the name, the client of Slurm
  does not: a first save that the database takes puts the partition into the store and reports
  that Slurm was not told. From then on it is still there after any sequence of attempts to save
  or to delete it, with or without failures of the database, and no answer is a success,
  provided that each deletion that is undone can be written back. A deletion then leaves
  its nodes as they were and names its failure. Slurm is never asked.
\<close>

theorem comma_partition_stuck:
  assumes "valid_partition_identifier name" and "CHR '','' \<in> set name"
    and "map_of (run_table es []) name = Some s" and "spec_managed s"
    and "t = fold (\<lambda>a t. snd (attempt slurm lang name a t)) attempts (run_table es [])"
  shows "(\<forall>es selected live now. map_of (run_table es []) name = None
        \<and> selected \<noteq> [] \<and> distinct selected \<and> (\<forall>n \<in> set selected. valid_partition_identifier n)
        \<and> set selected \<subseteq> set live
      \<longrightarrow> (let (r, t') = attempt slurm lang name (SaveAttempt selected (Some live) now True) (run_table es [])
           in r = error_redirect lang ''sync_failed'' name
             \<and> map_option (\<lambda>s. (spec_nodes s, spec_managed s)) (map_of t' name) = Some (sort selected, True)))
    \<and> (\<exists>s'. map_of t name = Some s' \<and> spec_managed s'
      \<and> (\<forall>now db_ok. let (r, t') = attempt slurm lang name (DeleteAttempt now db_ok) t
          in r = error_redirect lang (if db_ok then ''sync_failed'' else ''delete_failed'') name
            \<and> map_option spec_nodes (map_of t' name) = Some (spec_nodes s')))
    \<and> (\<forall>a q. fst (attempt slurm lang name a t) \<noteq> Redirect ((''saved'', q) # rest))
    \<and> snd (apply_partition slurm name selected) = [] \<and> snd (delete_slurm_partition slurm name) = []"
proof -
  have name: "trim_space name = name" using valid_trim [OF assms(1)] by simp
  have step: "stored_managed name (snd (attempt slurm lang name a u))"
      "fst (attempt slurm lang name a u) \<noteq> Redirect ((''saved'', q) # rest)"
    if u: "stored_managed name u" for a u q
  proof -
    obtain r u' where ru: "attempt slurm lang name a u = (r, u')" by fastforce
    have no: "error_redirect lang c name \<noteq> Redirect ((''saved'', q) # rest)" for c
      by (simp add: error_redirect_def)
    have "stored_managed name u' \<and> r \<noteq> Redirect ((''saved'', q) # rest)"
    proof (cases a)
      case (SaveAttempt selected live now db_ok)
      note saved = comma_save_attempt [OF assms(2) name u ru [unfolded SaveAttempt]]
      show ?thesis using saved(1) saved(2) by (elim insertE emptyE) (simp_all add: error_redirect_def)
    next
      case (DeleteAttempt now db_ok)
      obtain s where "table_ok u" "map_of u name = Some s" "spec_managed s"
        using u by (auto simp: stored_managed_def)
      from comma_delete_attempt [OF assms(1,2) this ru [unfolded DeleteAttempt]]
      show ?thesis using no by simp
    qed
    then show "stored_managed name (snd (attempt slurm lang name a u))"
      "fst (attempt slurm lang name a u) \<noteq> Redirect ((''saved'', q) # rest)"
      by (simp_all add: ru)
  qed
  have "stored_managed name (run_table es [])"
    using table_ok_run [OF table_ok_empty] assms(3,4) by (simp add: stored_managed_def)
  then have t: "stored_managed name t"
    unfolding assms(5) by (induction attempts rule: rev_induct) (simp_all add: step(1))
  then obtain s' where s': "table_ok t" "map_of t name = Some s'" "spec_managed s'"
    by (auto simp: stored_managed_def)
  have deleted: "let (r, t') = attempt slurm lang name (DeleteAttempt now db_ok) t
      in r = error_redirect lang (if db_ok then ''sync_failed'' else ''delete_failed'') name
        \<and> map_option spec_nodes (map_of t' name) = Some (spec_nodes s')" for now db_ok
  proof -
    obtain r t' where a: "attempt slurm lang name (DeleteAttempt now db_ok) t = (r, t')" by fastforce
    show ?thesis using comma_delete_attempt(1,3) [OF assms(1,2) s' a] by (simp add: a)
  qed
  have first: "let (r, t') = attempt slurm lang name (SaveAttempt selected (Some live) now True) (run_table es [])
      in r = error_redirect lang ''sync_failed'' name
        \<and> map_option (\<lambda>s. (spec_nodes s, spec_managed s)) (map_of t' name) = Some (sort selected, True)"
    if new: "map_of (run_table es []) name = None
        \<and> selected \<noteq> [] \<and> distinct selected \<and> (\<forall>n \<in> set selected. valid_partition_identifier n)
        \<and> set selected \<subseteq> set live" for es selected live now
  proof -
    obtain r t' where a: "attempt slurm lang name (SaveAttempt selected (Some live) now True) (run_table es [])
        = (r, t')" by fastforce
    show ?thesis
      using comma_first_save [OF assms(1,2) table_ok_run [OF table_ok_empty] _ _ _ _ _ a] new by (simp add: a)
  qed
  have stays: "\<exists>s'. map_of t name = Some s' \<and> spec_managed s'
      \<and> (\<forall>now db_ok. let (r, t') = attempt slurm lang name (DeleteAttempt now db_ok) t
          in r = error_redirect lang (if db_ok then ''sync_failed'' else ''delete_failed'') name
            \<and> map_option spec_nodes (map_of t' name) = Some (spec_nodes s'))"
    using s'(2,3) deleted by (intro exI [of _ s'] conjI allI)
  have fails: "\<forall>a q. fst (attempt slurm lang name a t) \<noteq> Redirect ((''saved'', q) # rest)"
    using step(2) [OF t] by (intro allI)
  show ?thesis
    by (intro conjI allI impI first stays fails [rule_format]) (simp_all add: comma_refused [OF assms(2)])
qed

theorem comma_partition_stuck_witness:
  "let t = run_table [Upsert ''a,b'' [''n1''] 1 True] [];
       attempts = [DeleteAttempt 2 True, SaveAttempt [''n1''] (Some [''n1'']) 3 True, DeleteAttempt 4 False]
   in map_of (fold (\<lambda>a t. snd (attempt (\<lambda>c. True) ''en'' ''a,b'' a t)) attempts t) ''a,b'' \<noteq> None"
proof -
  have name: "valid_partition_identifier ''a,b''" "CHR '','' \<in> set ''a,b''" by code_simp+
  have stored: "map_of (run_table [Upsert ''a,b'' [''n1''] 1 True] []) ''a,b''
      = Some \<lparr>spec_nodes = [''n1''], spec_managed = True, spec_created = 1, spec_updated = 1\<rparr>"
    by code_simp
  have "spec_managed \<lparr>spec_nodes = [''n1''], spec_managed = True, spec_created = 1, spec_updated = 1\<rparr>" by simp
  note stuck = comma_partition_stuck [OF name stored this refl, of "\<lambda>c. True" "''en''"
        "[DeleteAttempt 2 True, SaveAttempt [''n1''] (Some [''n1'']) 3 True, DeleteAttempt 4 False]"]
  show ?thesis unfolding Let_def by (rule stuck [THEN conjunct2, THEN conjunct1, THEN exE]) simp
qed

text \<open>
  One partition that cannot be applied holds up all behind it. At the start the server applies the
  managed partitions in the order of their names and stops at the first that fails: behind a
  partition with a comma in its name Slurm is told of none.
\<close>

theorem startup_sync_stops:
  assumes "list_partitions True t = before @ (name, s) # behind" and "CHR '','' \<in> set name"
  shows "sync_stored_partitions slurm t = (False, snd (sync_partitions slurm before))"
proof -
  have "sync_partitions slurm (before @ (name, s) # behind) = (False, snd (sync_partitions slurm before))"
  proof (induction "before")
    case Nil
    show ?case using comma_refused(1) [OF assms(2)] by simp
  next
    case (Cons p ps)
    obtain n q where p: "p = (n, q)" by (cases p)
    obtain ok run where "apply_partition slurm n (spec_nodes q) = (ok, run)" by fastforce
    then show ?case using Cons by (simp add: p split_def Let_def)
  qed
  then show ?thesis by (simp add: sync_stored_partitions_def assms(1))
qed

theorem startup_sync_stops_witness:
  "sync_stored_partitions (\<lambda>c. True) (run_table [Upsert ''gpu'' [''n1''] 1 True, Upsert ''a,b'' [''n1''] 1 True] [])
     = (False, [])"
proof -
  let ?t = "run_table [Upsert ''gpu'' [''n1''] 1 True, Upsert ''a,b'' [''n1''] 1 True] []"
  let ?s = "\<lparr>spec_nodes = [''n1''], spec_managed = True, spec_created = 1, spec_updated = 1\<rparr>"
  have "list_partitions True ?t = [] @ (''a,b'', ?s) # [(''gpu'', ?s)]" by code_simp
  from startup_sync_stops [OF this, of "\<lambda>c. True"] show ?thesis by simp
qed

end
