(* ===== verification/JobResources.thy ===== *)
theory JobResources
  imports ResourceMonitor Sstat SlurmActions
begin

text \<open>
  The answer to the resource monitor: \<open>JobResourceUsage\<close> of
  \<open>internal/slurm/resource_usage.go\<close>, the handler \<open>internal/web/job_resources.go\<close> and the JSON
  between it and the page. Here the parser of \<open>sstat\<close>, the access rules of the server and the
  rendering of \<open>app.js\<close> meet.
\<close>

section \<open>The client and the handler\<close>

definition sstat_command :: "int \<Rightarrow> command" where
  "sstat_command i =
     [''sstat'', ''--jobs='' @ dec_int i, ''--allsteps'', ''--noheader'', ''--parsable2'',
      ''--format=JobID,AveCPU,AveRSS,MaxRSS,AveVMSize,MaxVMSize,TRESUsageInTot'']"

text \<open>
  \<open>sstat\<close> is the output of a command, if it works, \<open>parse_float\<close> the function of the same name and
  \<open>overflow\<close> the result of a conversion out of range.
\<close>

definition job_resource_usage ::
  "(command \<Rightarrow> string option) \<Rightarrow> (string \<Rightarrow> rat option) \<Rightarrow> int \<Rightarrow> int
     \<Rightarrow> job_usage option \<times> command list" where
  "job_resource_usage sstat parse_float overflow i =
     (if i \<le> 0 then (None, [])
      else case sstat (sstat_command i) of
          None \<Rightarrow> (None, [sstat_command i])
        | Some output \<Rightarrow>
            (case parse_sstat parse_float overflow output (nat i) of
               Inl _ \<Rightarrow> (None, [sstat_command i])
             | Inr u \<Rightarrow> (Some u, [sstat_command i])))"

datatype resource_reply = ResourceStatus nat | ResourceJson job_usage

definition max_resource_reads :: nat where
  "max_resource_reads = 4"

definition can_access_job :: "principal \<Rightarrow> listed_job \<Rightarrow> bool" where
  "can_access_job identity job \<longleftrightarrow> snd identity = RoleAdmin \<or> listed_user job = fst identity"

text \<open>
  \<open>taken\<close> is the number of slots in use when the handler asks for one; it gives its slot back
  when it returns.
\<close>

definition slurm_job_resources ::
  "(command \<Rightarrow> string option) \<Rightarrow> (string \<Rightarrow> rat option) \<Rightarrow> int \<Rightarrow> bool
     \<Rightarrow> (int \<Rightarrow> listed_job option option) \<Rightarrow> nat \<Rightarrow> principal \<Rightarrow> string
     \<Rightarrow> resource_reply \<times> command list" where
  "slurm_job_resources sstat parse_float overflow configured find_job taken identity id_param =
     (case parse_positive_job_id id_param of
        None \<Rightarrow> (ResourceStatus 400, [])
      | Some i \<Rightarrow>
          if \<not> configured then (ResourceStatus 503, [])
          else case find_job i of
              None \<Rightarrow> (ResourceStatus 503, [])
            | Some None \<Rightarrow> (ResourceStatus 404, [])
            | Some (Some job) \<Rightarrow>
                if listed_id job \<noteq> dec_int i then (ResourceStatus 404, [])
                else if \<not> can_access_job identity job then (ResourceStatus 404, [])
                else if taken \<ge> max_resource_reads then (ResourceStatus 429, [])
                else
                  case job_resource_usage sstat parse_float overflow i of
                    (None, run) \<Rightarrow> (ResourceStatus 503, run)
                  | (Some u, run) \<Rightarrow>
                      if ju_job u \<noteq> dec_int i then (ResourceStatus 503, run)
                      else (ResourceJson u, run))"

section \<open>From the server to the page\<close>

text \<open>
  A string in JSON: \<open>encoding/json\<close> writes U+FFFD for every byte that starts no character.
\<close>

function json_text :: "string \<Rightarrow> string" where
  "json_text s =
     (if s = [] then []
      else if rune_length s = 0 then replacement_char @ json_text (tl s)
      else take (rune_length s) s @ json_text (drop (rune_length s) s))"
  by pat_completeness auto
termination
  by (relation "measure length") (auto simp: rune_length_less)

declare json_text.simps [simp del]

text \<open>
  The fields of the answer that the script reads. \<open>js_number\<close> is what \<open>JSON.parse\<close> makes of an integer.
\<close>

definition page_step :: "job_step \<Rightarrow> step" where
  "page_step s =
     \<lparr>step_name = json_text (js_step s), ave_cpu = json_text (js_texts s ! 0),
      total_cpu = json_text (js_total_cpu s), ave_rss = json_text (js_texts s ! 1),
      max_rss = json_text (js_texts s ! 2), max_vm_size = json_text (js_texts s ! 4)\<rparr>"

definition page_usage :: "(int \<Rightarrow> nat) \<Rightarrow> string \<Rightarrow> job_usage \<Rightarrow> usage" where
  "page_usage js_number sampled u =
     \<lparr>sampled_at = sampled, total_cpu_seconds = js_number (ju_total_cpu_seconds u),
      max_rss_bytes = js_number (ju_max_rss_bytes u), steps = map page_step (ju_steps u)\<rparr>"

definition page_result :: "(int \<Rightarrow> nat) \<Rightarrow> string \<Rightarrow> resource_reply \<Rightarrow> resource_result" where
  \<comment> \<open>\<open>response.ok\<close> and \<open>response.json()\<close>\<close>
  "page_result js_number sampled reply =
     (case reply of
        ResourceStatus _ \<Rightarrow> UsageFailed
      | ResourceJson u \<Rightarrow> UsageLoaded (page_usage js_number sampled u))"

section \<open>Properties\<close>

lemma json_text_valid: "valid_utf8 s \<Longrightarrow> json_text s = s"
proof (induction s rule: json_text.induct)
  case (1 s)
  then show ?case
    by (subst json_text.simps) (use valid_utf8_front [of s] valid_utf8_rune [of s] in auto)
qed

lemma json_text_empty [simp]: "json_text s = [] \<longleftrightarrow> s = []"
  by (subst json_text.simps) (auto simp: replacement_char_def)

lemma or_dash_filled: "[] \<noteq> or_dash s"
  by (simp add: or_dash_def em_dash_def)

lemma page_row_filled:
  "step_typed s \<Longrightarrow> length (step_row (page_step s)) = 6 \<and> [] \<notin> set (step_row (page_step s))"
  using or_dash_filled json_text_empty [of "js_step s"]
  by (simp add: step_row_def page_step_def step_typed_def eq_commute [of "[]" "json_text t" for t])

lemma job_resource_usage_loaded:
  assumes "job_resource_usage sstat parse_float overflow i = (Some u, run)"
  shows "\<exists>output. sstat (sstat_command i) = Some output
    \<and> parse_sstat parse_float overflow output (nat i) = Inr u \<and> run = [sstat_command i]"
  using assms by (auto simp: job_resource_usage_def split: if_splits option.splits sum.splits)

lemma resources_guarded:
  assumes "slurm_job_resources sstat parse_float overflow configured find_job taken identity id_param
    = (reply, run)"
  shows "(run \<noteq> [] \<longrightarrow> (\<exists>i job. 0 < i \<and> id_param = dec_int i \<and> find_job i = Some (Some job)
        \<and> listed_id job = dec_int i \<and> (snd identity = RoleAdmin \<or> listed_user job = fst identity)
        \<and> taken < 4 \<and> run = [sstat_command i]))
    \<and> (\<forall>u. reply = ResourceJson u \<longrightarrow> (\<exists>i output. id_param = dec_int i \<and> run = [sstat_command i]
        \<and> sstat (sstat_command i) = Some output
        \<and> parse_sstat parse_float overflow output (nat i) = Inr u \<and> ju_job u = id_param))"
proof (cases "parse_positive_job_id id_param")
  case None
  then show ?thesis using assms by (auto simp: slurm_job_resources_def)
next
  case (Some i)
  note i = parse_positive_job_id_dec [OF Some]
  show ?thesis
  proof (cases "run = []")
    case True
    then show ?thesis
      using assms Some
      by (auto simp: slurm_job_resources_def dest!: job_resource_usage_loaded
          split: option.splits if_splits prod.splits)
  next
    case False
    obtain job result where job: "find_job i = Some (Some job)" "listed_id job = dec_int i"
        "can_access_job identity job" "taken < max_resource_reads"
      and result: "job_resource_usage sstat parse_float overflow i = (result, run)"
      and reply: "reply = (case result of None \<Rightarrow> ResourceStatus 503
        | Some u \<Rightarrow> if ju_job u \<noteq> dec_int i then ResourceStatus 503 else ResourceJson u)"
      using assms Some False
      by (auto simp: slurm_job_resources_def split: option.splits if_splits prod.splits)
    have "run = [sstat_command i]"
      using result False by (auto simp: job_resource_usage_def split: if_splits option.splits sum.splits)
    then show ?thesis
      using i job reply result job_resource_usage_loaded [of sstat parse_float overflow i]
      by (auto simp: can_access_job_def max_resource_reads_def split: option.splits if_splits)
  qed
qed

text \<open>
  C1. Whose resources are read. A request for the resources of a job runs one command at most, \<open>sstat\<close>
  for the canonical number of the request, and only for a job of that number that belongs to
  the user or when the user is an administrator, while less than four such reads are under way.
  When it answers with data, they are the data of that job: its output parsed without an error.
\<close>

theorem resources_only_of_own_jobs:
  assumes "slurm_job_resources sstat parse_float overflow configured find_job taken identity id_param
    = (reply, run)"
  shows "(run \<noteq> [] \<longrightarrow> (\<exists>i job. 0 < i \<and> id_param = dec_int i \<and> find_job i = Some (Some job)
        \<and> listed_id job = dec_int i \<and> (snd identity = RoleAdmin \<or> listed_user job = fst identity)
        \<and> taken < 4 \<and> run = [sstat_command i]))
    \<and> (\<forall>u. reply = ResourceJson u \<longrightarrow> (\<exists>i output. id_param = dec_int i \<and> run = [sstat_command i]
        \<and> sstat (sstat_command i) = Some output
        \<and> parse_sstat parse_float overflow output (nat i) = Inr u \<and> ju_job u = id_param))"
  using assms by (rule resources_guarded)

text \<open>
  C3. What the server parsed is what the page shows. Let the handler answer with data, of numbers that
  JavaScript holds exactly. When the answer arrives in time, the CPU time on the page, read by
  the parser of \<open>sstat\<close>, is the sum of the CPU times of the lines of \<open>sstat\<close>; the
  table has one row of six cells for each of these lines, none of them empty; and the page shows
  its empty message only when there was no line.
\<close>

theorem server_usage_shown:
  assumes "slurm_job_resources sstat parse_float overflow configured find_job taken identity id_param
      = (ResourceJson u, run)"
    and "\<forall>n. 0 \<le> n \<and> n \<le> 2 ^ 53 \<longrightarrow> js_number n = nat n"
    and "ju_total_cpu_seconds u \<le> 2 ^ 53"
    and "resource_fresh r p"
    and "q = resource_answer env r (now, page_result js_number sampled (ResourceJson u)) p"
  shows "\<exists>output. (\<exists>i. id_param = dec_int i \<and> sstat (sstat_command i) = Some output
        \<and> parse_sstat parse_float overflow output (nat i) = Inr u)
    \<and> parse_sstat_duration (cpu_text (resource_view q))
        = Inr (sum_list (map js_total_cpu_seconds (ju_steps u)))
    \<and> length (usage_table (resource_view q)) = length (scan_lines output)
    \<and> (\<forall>row \<in> set (usage_table (resource_view q)). length row = 6 \<and> [] \<notin> set row)
    \<and> resource_status q = (if scan_lines output = [] then label_empty (labels p)
        else summary_text (labels p) (resource_view q))
    \<and> \<not> content_hidden q"
proof -
  let ?w = "page_usage js_number sampled u"
  obtain i raw where out: "id_param = dec_int i" "sstat (sstat_command i) = Some raw"
      and parsed: "parse_sstat parse_float overflow raw (nat i) = Inr u"
    using resources_guarded [OF assms(1)] by blast
  note totals = parsed_usage [OF parsed]
  have q: "resource_view q = view_of env (labels p) ?w
        (slice_last 24 (resource_history p @ [sample_of env now ?w]))"
      "resource_status q = (if steps ?w \<noteq> [] then summary_text (labels p) (resource_view q)
        else label_empty (labels p))"
      "\<not> content_hidden q"
    unfolding assms(5) page_result_def
    using resource_answer_fresh [OF assms(4)] show_usage_loaded [of env now ?w "p\<lparr>fetches := removeAll r (fetches p)\<rparr>"]
    by (simp_all add: schedule_poll_def)
  have n: "length (ju_steps u) = length (scan_lines raw)" using totals by simp
  have "js_number (ju_total_cpu_seconds u) = nat (ju_total_cpu_seconds u)"
    using assms(2,3) totals by simp
  then have "cpu_text (resource_view q) = format_duration (nat (ju_total_cpu_seconds u))"
    unfolding q(1) by (simp add: view_of_def page_usage_def Let_def)
  then have "parse_sstat_duration (cpu_text (resource_view q)) = Inr (ju_total_cpu_seconds u)"
    using format_duration_parsed [of "nat (ju_total_cpu_seconds u)"] totals by simp
  then have "parse_sstat_duration (cpu_text (resource_view q))
      = Inr (sum_list (map js_total_cpu_seconds (ju_steps u)))"
    using totals by simp
  moreover have table: "usage_table (resource_view q) = map (\<lambda>s. step_row (page_step s)) (ju_steps u)"
    unfolding q(1) by (simp add: view_of_def page_usage_def Let_def)
  have "\<forall>row \<in> set (usage_table (resource_view q)). length row = 6 \<and> [] \<notin> set row"
    using page_row_filled parse_sstat_typed [OF parsed] by (simp add: table)
  moreover have "steps ?w \<noteq> [] \<longleftrightarrow> scan_lines raw \<noteq> []"
    using n by (auto simp: page_usage_def)
  then have "resource_status q = (if scan_lines raw = [] then label_empty (labels p)
        else summary_text (labels p) (resource_view q))"
    using q(2) by presburger
  moreover have "length (usage_table (resource_view q)) = length (scan_lines raw)"
    by (simp add: table n)
  ultimately show ?thesis using out parsed q(3) by blast
qed

lemma example_reply:
  "slurm_job_resources (\<lambda>c. Some example_output) example_float 0 True
     (\<lambda>i. Some (Some \<lparr>listed_id = ''7'', listed_user = ''alice''\<rparr>)) 3 (''alice'', RoleUser) ''7''
   = (ResourceJson (projr (parse_sstat example_float 0 example_output 7)), [sstat_command 7])"
proof -
  have "parse_positive_job_id ''7'' = Some 7" "dec_int 7 = ''7''" by code_simp+
  then show ?thesis
    by (simp add: slurm_job_resources_def can_access_job_def max_resource_reads_def
        job_resource_usage_def example_parsed)
qed

theorem resources_only_of_own_jobs_witness:
  "\<exists>i. ''7'' = dec_int i \<and> snd (slurm_job_resources (\<lambda>c. Some example_output) example_float 0 True
     (\<lambda>i. Some (Some \<lparr>listed_id = ''7'', listed_user = ''alice''\<rparr>)) 3 (''alice'', RoleUser) ''7'')
   = [sstat_command i]"
  using resources_only_of_own_jobs [OF example_reply] unfolding example_reply by auto

theorem server_usage_shown_witness:
  "let p = example_resource_page\<lparr>dialogs := \<lambda>_. Modal, resource_request := 1\<rparr>;
       reply = fst (slurm_job_resources (\<lambda>c. Some example_output) example_float 0 True
         (\<lambda>i. Some (Some \<lparr>listed_id = ''7'', listed_user = ''alice''\<rparr>)) 3 (''alice'', RoleUser) ''7'');
       q = resource_answer plain_env 1 (0, page_result nat ''noon'' reply) p
   in parse_sstat_duration (cpu_text (resource_view q)) = Inr 2"
proof -
  have "resource_fresh 1 (example_resource_page\<lparr>dialogs := \<lambda>_. Modal, resource_request := 1\<rparr>)"
    by (simp add: resource_fresh_def is_open_def)
  from server_usage_shown [OF example_reply _ _ this refl, of nat plain_env 0 "''noon''"] show ?thesis
    by (auto simp: example_reply Let_def example_parsed)
qed

end
