(* ===== verification/Associations.thy ===== *)
theory Associations
  imports CoreHours Uri
begin

text \<open>
  The associations of the accounts page: the records that \<open>sacctmgr\<close> lists with its accounts and
  its users, merged, sorted (\<open>internal/slurm/accounting.go\<close>), filtered, cut into pages and
  joined by links (\<open>slurmAccounts\<close> of \<open>internal/web/app.go\<close>). A record is \<open>None\<close> when it does not
  decode.
\<close>

section \<open>Data\<close>

record slurm_number =
  num_set :: bool
  num_infinite :: bool
  num_value :: int

record association_record =
  record_id :: slurm_number
  record_cluster :: string
  record_account :: string
  record_user :: string
  record_partition :: string

record association =
  assoc_cluster :: string
  assoc_account :: string
  assoc_user :: string
  assoc_partition :: string
  assoc_id :: int

text \<open>The order of the page: by cluster, account, user, partition and number.\<close>

abbreviation association_key where
  "association_key a \<equiv>
     (assoc_cluster a, assoc_account a, assoc_user a, assoc_partition a, assoc_id a, association.more a)"

instantiation association_ext :: (linorder) linorder
begin

definition less_association_ext :: "'a association_scheme \<Rightarrow> 'a association_scheme \<Rightarrow> bool" where
  "less_association_ext a b \<longleftrightarrow> association_key a < association_key b"

definition less_eq_association_ext :: "'a association_scheme \<Rightarrow> 'a association_scheme \<Rightarrow> bool" where
  "less_eq_association_ext a b \<longleftrightarrow> association_key a \<le> association_key b"

instance
proof
  fix a b c :: "'a association_scheme"
  show "a < b \<longleftrightarrow> a \<le> b \<and> \<not> b \<le> a"
    unfolding less_association_ext_def less_eq_association_ext_def by (rule less_le_not_le)
  show "a \<le> a" unfolding less_eq_association_ext_def by (rule order_refl)
  show "a \<le> b \<Longrightarrow> b \<le> c \<Longrightarrow> a \<le> c"
    unfolding less_eq_association_ext_def by (rule order_trans)
  show "a \<le> b \<or> b \<le> a" unfolding less_eq_association_ext_def by (rule linear)
  assume "a \<le> b" "b \<le> a"
  then have "association_key a = association_key b"
    unfolding less_eq_association_ext_def by (rule antisym)
  then show "a = b" by (cases a; cases b) simp
qed

end

datatype association_error =
  TooManyRecords | RecordNotDecoded | RecordIncomplete | RecordField core_error | RecordConflict int

section \<open>Merging\<close>

definition max_association_records :: nat where
  "max_association_records = 10000"

fun count_records :: "nat \<Rightarrow> association_record option list list \<Rightarrow> bool" where
  \<comment> \<open>\<open>validateCombinedAssociationCount\<close>\<close>
  "count_records n [] = True"
| "count_records n (rs # rss) =
     (if n + length rs > max_association_records then False
      else count_records (n + length rs) rss)"

definition association_of :: "association_record \<Rightarrow> association" where
  "association_of r =
     \<lparr>assoc_cluster = record_cluster r, assoc_account = record_account r, assoc_user = record_user r,
      assoc_partition = record_partition r, assoc_id = num_value (record_id r)\<rparr>"

definition check_record :: "association_record option \<Rightarrow> association_error + association" where
  "check_record raw =
     (case raw of
        None \<Rightarrow> Inl RecordNotDecoded
      | Some r \<Rightarrow>
          if \<not> num_set (record_id r) \<or> num_infinite (record_id r) \<or> num_value (record_id r) \<le> 0
             \<or> record_cluster r = [] \<or> record_account r = []
          then Inl RecordIncomplete
          else
            (case validate_detail_strings
                [record_cluster r, record_account r, record_user r, record_partition r] of
               Inl e \<Rightarrow> Inl (RecordField e)
             | Inr _ \<Rightarrow> Inr (association_of r)))"

fun merge_records ::
  "association_record option list \<Rightarrow> (int \<times> association) list
     \<Rightarrow> association_error + (int \<times> association) list" where
  \<comment> \<open>the loop of \<open>parseAssociationRecords\<close>\<close>
  "merge_records [] by_id = Inr by_id"
| "merge_records (raw # rest) by_id =
     sum_bind (check_record raw) (\<lambda>a.
       case map_of by_id (assoc_id a) of
         Some existing \<Rightarrow>
           if existing \<noteq> a then Inl (RecordConflict (assoc_id a))
           else merge_records rest (AList.update (assoc_id a) a by_id)
       | None \<Rightarrow> merge_records rest (AList.update (assoc_id a) a by_id))"

definition parse_association_records ::
  "association_record option list \<Rightarrow> association_error + association list" where
  "parse_association_records records =
     (if length records > max_association_records then Inl TooManyRecords
      else sum_bind (merge_records records []) (\<lambda>by_id. Inr (sort (map snd by_id))))"

definition parse_associations ::
  "association_record option list list \<Rightarrow> association_record option list list
     \<Rightarrow> association_error + association list" where
  \<comment> \<open>\<open>parseAssociationsJSON\<close>: the lists of the accounts and of the users\<close>
  "parse_associations accounts users =
     (if \<not> count_records 0 (accounts @ users) then Inl TooManyRecords
      else parse_association_records (concat accounts @ concat users))"

section \<open>The query of a link\<close>

text \<open>\<open>url.QueryEscape\<close> and \<open>url.QueryUnescape\<close>.\<close>

definition query_plain :: "char \<Rightarrow> bool" where
  "query_plain c \<longleftrightarrow>
     (let n = (of_char c :: nat) in
        (65 \<le> n \<and> n \<le> 90) \<or> (97 \<le> n \<and> n \<le> 122) \<or> (48 \<le> n \<and> n \<le> 57) \<or> c \<in> set ''-_.~'')"

definition query_escape_char :: "char \<Rightarrow> string" where
  "query_escape_char c =
     (if query_plain c then [c]
      else if c = CHR '' '' then ''+''
      else let n = (of_char c :: nat) in [CHR ''%'', hex_digit (n div 16), hex_digit (n mod 16)])"

definition query_escape :: "string \<Rightarrow> string" where
  "query_escape s = concat (map query_escape_char s)"

definition query_unescape :: "string \<Rightarrow> string option" where
  "query_unescape s = path_unescape (map (\<lambda>c. if c = CHR ''+'' then CHR '' '' else c) s)"

text \<open>\<open>url.Values.Encode\<close> of pairs in the order of their keys, and \<open>url.ParseQuery\<close>.\<close>

definition query_pair :: "string \<times> string \<Rightarrow> string" where
  "query_pair = (\<lambda>(k, v). query_escape k @ ''='' @ query_escape v)"

definition encode_query :: "(string \<times> string) list \<Rightarrow> string" where
  "encode_query ps = join_str ''&'' (map query_pair ps)"

definition parse_query_piece :: "string \<Rightarrow> (string \<times> string) option" where
  "parse_query_piece piece =
     (if CHR '';'' \<in> set piece \<or> piece = [] then None
      else case (query_unescape (takeWhile (\<lambda>c. c \<noteq> CHR ''='') piece),
          query_unescape (tl (dropWhile (\<lambda>c. c \<noteq> CHR ''='') piece))) of
          (Some k, Some v) \<Rightarrow> Some (k, v)
        | _ \<Rightarrow> None)"

definition query_value :: "string \<Rightarrow> string \<Rightarrow> string" where
  "query_value raw k =
     (case map_of (List.map_filter parse_query_piece (split_str ''&'' raw)) k of
        None \<Rightarrow> []
      | Some v \<Rightarrow> v)"

section \<open>The page\<close>

definition association_page_size :: nat where
  "association_page_size = 100"

definition max_association_pages :: int where
  "max_association_pages = 100"

definition max_association_filter_bytes :: nat where
  "max_association_filter_bytes = 64"

definition parse_accounts_tab :: "string \<Rightarrow> string option" where
  "parse_accounts_tab v =
     (if v = [] \<or> v = ''accounts'' then Some ''accounts''
      else if v = ''users'' \<or> v = ''associations'' then Some v
      else None)"

definition parse_association_page :: "string \<Rightarrow> nat option" where
  "parse_association_page v =
     (if v = [] then Some 1
      else if length v > 3 \<or> hd v = CHR ''0'' then None
      else if \<not> list_all is_digit v then None
      else case parse_int64 v of
          None \<Rightarrow> None
        | Some i \<Rightarrow> if i < 1 \<or> i > max_association_pages then None else Some (nat i))"

definition parse_association_filter :: "string \<Rightarrow> string option" where
  "parse_association_filter v =
     (if length v > max_association_filter_bytes \<or> \<not> valid_utf8 v \<or> has_control v then None
      else Some v)"

definition filter_associations :: "association list \<Rightarrow> string \<Rightarrow> string \<Rightarrow> association list" where
  "filter_associations xs account user =
     filter (\<lambda>a. \<not> (account \<noteq> [] \<and> assoc_account a \<noteq> account)
               \<and> \<not> (user \<noteq> [] \<and> assoc_user a \<noteq> user)) xs"

definition paginate_associations :: "'a list \<Rightarrow> nat \<Rightarrow> 'a list \<times> nat \<times> nat" where
  \<comment> \<open>the page, and the numbers of the previous and the next one, or zero\<close>
  "paginate_associations xs page =
     (let start = (page - 1) * association_page_size
      in if start \<ge> length xs
         then (if page > 1 then ([], page - 1, 0) else ([], 0, 0))
         else
           let stop = min (start + association_page_size) (length xs)
           in (drop start (take stop xs), if page > 1 then page - 1 else 0,
               if stop < length xs then page + 1 else 0))"

definition association_page_path :: "nat \<Rightarrow> string \<Rightarrow> string \<Rightarrow> string" where
  "association_page_path page account user =
     (if page = 0 then []
      else ''/slurm/accounts?'' @ encode_query
             ((if account \<noteq> [] then [(''association_account'', account)] else [])
              @ [(''association_page'', dec page)]
              @ (if user \<noteq> [] then [(''association_user'', user)] else [])
              @ [(''tab'', ''associations'')])
           @ ''#associations'')"

record accounts_view =
  active_tab :: string
  shown_associations :: "association list"
  association_count :: nat
  filtered_count :: nat
  associations_available :: bool
  previous_path :: string
  next_path :: string

definition slurm_accounts ::
  "association list option \<Rightarrow> string \<Rightarrow> nat + accounts_view" where
  \<comment> \<open>the associations if the provider has them, and the query of the request; the directory of
    accounts and users, the labels and the frame of the page are left out\<close>
  "slurm_accounts provider raw =
     (case (parse_accounts_tab (query_value raw ''tab''),
            parse_association_page (query_value raw ''association_page''),
            parse_association_filter (query_value raw ''association_account''),
            parse_association_filter (query_value raw ''association_user'')) of
        (Some tab, Some page, Some account, Some user) \<Rightarrow>
          let tab = (if query_value raw ''tab'' = []
                \<and> (query_value raw ''association_page'' \<noteq> [] \<or> account \<noteq> [] \<or> user \<noteq> [])
              then ''associations'' else tab)
          in (case provider of
                None \<Rightarrow> Inr \<lparr>active_tab = tab, shown_associations = [], association_count = 0,
                    filtered_count = 0, associations_available = False,
                    previous_path = [], next_path = []\<rparr>
              | Some xs \<Rightarrow>
                  let filtered = filter_associations xs account user;
                      (shown, previous, following) = paginate_associations filtered page
                  in Inr \<lparr>active_tab = tab, shown_associations = shown,
                       association_count = length xs, filtered_count = length filtered,
                       associations_available = True,
                       previous_path = association_page_path previous account user,
                       next_path = association_page_path following account user\<rparr>)
      | _ \<Rightarrow> Inl 400)"

section \<open>What merging yields\<close>

lemma count_records_iff: "n \<le> max_association_records \<Longrightarrow>
  count_records n rss \<longleftrightarrow> n + length (concat rss) \<le> max_association_records"
  by (induction rss arbitrary: n) auto

definition accepted :: "association_record option list \<Rightarrow> association set" where
  "accepted records = {a. Inr a \<in> check_record ` set records}"

definition merged_ok :: "association_record option list \<Rightarrow> (int \<times> association) list \<Rightarrow> bool" where
  "merged_ok records by_id \<longleftrightarrow>
     distinct (map fst by_id) \<and> set by_id = (\<lambda>a. (assoc_id a, a)) ` accepted records"

lemma update_known_or_new:
  "\<forall>w. map_of xs k = Some w \<longrightarrow> w = v \<Longrightarrow> set (AList.update k v xs) = insert (k, v) (set xs)"
  by (cases "map_of xs k") (auto simp: update_triv update_new map_of_eq_None_iff dest: map_of_SomeD)

lemma accepted_simps [simp]:
  "accepted [] = {}"
  "check_record raw = Inr a \<Longrightarrow> accepted (raw # rest) = insert a (accepted rest)"
  "accepted (xs @ ys) = accepted xs \<union> accepted ys"
  by (auto simp: accepted_def)

lemma merge_records_ok:
  "merge_records records by_id = Inr out \<Longrightarrow> merged_ok seen by_id \<Longrightarrow> merged_ok (seen @ records) out"
proof (induction records arbitrary: by_id seen)
  case (Cons raw rest)
  obtain a where a: "check_record raw = Inr a"
      "\<forall>w. map_of by_id (assoc_id a) = Some w \<longrightarrow> w = a"
      "merge_records rest (AList.update (assoc_id a) a by_id) = Inr out"
    using Cons.prems(1) by (auto simp: sum_bind_Inr split: option.split_asm if_split_asm)
  have "merged_ok (seen @ [raw]) (AList.update (assoc_id a) a by_id)"
    using Cons.prems(2) a(1,2)
    by (simp add: merged_ok_def distinct_update update_known_or_new)
  from Cons.IH [OF a(3) this] show ?case by simp
qed simp

lemma merge_records_succeeds:
  assumes "\<forall>raw \<in> set records. \<exists>a. check_record raw = Inr a"
    and "inj_on assoc_id (accepted (seen @ records))" and "merged_ok seen by_id"
  shows "\<exists>out. merge_records records by_id = Inr out"
  using assms
proof (induction records arbitrary: by_id seen)
  case (Cons raw rest)
  obtain a where a: "check_record raw = Inr a" using Cons.prems(1) by auto
  have same: "w = a" if w: "map_of by_id (assoc_id a) = Some w" for w
  proof -
    have "(assoc_id a, w) \<in> set by_id" using w by (rule map_of_SomeD)
    then have "w \<in> accepted seen" "assoc_id w = assoc_id a"
      using Cons.prems(3) by (auto simp: merged_ok_def)
    then show "w = a" using Cons.prems(2) a by (auto simp: inj_on_def)
  qed
  then have "merged_ok (seen @ [raw]) (AList.update (assoc_id a) a by_id)"
    using Cons.prems(3) a by (simp add: merged_ok_def distinct_update update_known_or_new)
  moreover have "inj_on assoc_id (accepted ((seen @ [raw]) @ rest))" using Cons.prems(2) by simp
  ultimately obtain out where "merge_records rest (AList.update (assoc_id a) a by_id) = Inr out"
    using Cons.IH [of "seen @ [raw]"] Cons.prems(1) by auto
  then show ?case using a same by (auto split: option.split)
qed simp

lemma merge_records_decoded:
  "merge_records records by_id = Inr out \<Longrightarrow> raw \<in> set records \<Longrightarrow> \<exists>a. check_record raw = Inr a"
  by (induction records arbitrary: by_id) (auto simp: sum_bind_Inr split: option.split_asm if_split_asm)

lemma merged_list:
  assumes "merged_ok records by_id"
  shows "sort (map snd by_id) = sorted_list_of_set (accepted records)"
    and "inj_on assoc_id (accepted records)"
proof -
  have keys: "distinct (map fst by_id)" and all: "set by_id = (\<lambda>a. (assoc_id a, a)) ` accepted records"
    using assms by (simp_all add: merged_ok_def)
  have fst_eq: "map fst by_id = map assoc_id (map snd by_id)" using all by auto
  have snd: "set (map snd by_id) = accepted records" using all by (auto simp: image_image)
  have "distinct (map snd by_id)" using keys unfolding fst_eq
    by (auto simp: distinct_map inj_on_def)
  then show "sort (map snd by_id) = sorted_list_of_set (accepted records)"
    using snd by (metis sorted_list_of_set_sort_remdups distinct_remdups_id)
  have "inj_on assoc_id (set (map snd by_id))"
    using keys unfolding fst_eq distinct_map [of assoc_id] by simp
  then show "inj_on assoc_id (accepted records)" by (simp only: snd)
qed

section \<open>Links are read back\<close>

definition plain_query :: "string \<Rightarrow> bool" where
  \<comment> \<open>no character that ends a key, a value, a query or is read as a space\<close>
  "plain_query s \<longleftrightarrow> set s \<inter> set ''&=;#?'' = {}"

lemma query_plain_not [simp]:
  "\<not> query_plain CHR ''&''" "\<not> query_plain CHR ''=''" "\<not> query_plain CHR '';''" "\<not> query_plain CHR ''#''"
  "\<not> query_plain CHR ''?''" "\<not> query_plain CHR ''%''" "\<not> query_plain CHR ''+''"
  by (simp_all add: query_plain_def)

lemma query_plain_hex: "d < 16 \<Longrightarrow> query_plain (hex_digit d)"
  by (auto simp: hex_digit_def query_plain_def Let_def)

lemma hex_halves: "(of_char c :: nat) div 16 < 16"
  using of_char_less [of c] by linarith

lemma plain_query_escape: "plain_query (query_escape s)"
proof -
  have "x \<in> set (query_escape_char c) \<Longrightarrow> query_plain x \<or> x = CHR ''%'' \<or> x = CHR ''+''" for x c
    using hex_halves [of c] by (auto simp: query_escape_char_def Let_def query_plain_hex split: if_splits)
  then have "x \<in> set (query_escape s) \<Longrightarrow> query_plain x \<or> x = CHR ''%'' \<or> x = CHR ''+''" for x
    unfolding query_escape_def by auto
  then show ?thesis by (fastforce simp: plain_query_def disjoint_iff)
qed

lemma query_unescape_char:
  "query_unescape (query_escape_char c @ rest) = map_option ((#) c) (query_unescape rest)"
proof -
  have plain: "c \<noteq> CHR ''%''" "c \<noteq> CHR ''+''" if "query_plain c" using that by auto
  have hex: "hex_digit d \<noteq> CHR ''+''" if "d < 16" for d using query_plain_hex [OF that] by auto
  consider "query_plain c" | "\<not> query_plain c" "c = CHR '' ''" | "\<not> query_plain c" "c \<noteq> CHR '' ''"
    by blast
  then show ?thesis
    by cases (simp_all add: query_escape_char_def query_unescape_def Let_def plain hex hex_halves)
qed

lemma query_unescape_escape [simp]: "query_unescape (query_escape s) = Some s"
proof (induction s)
  case (Cons c s)
  then show ?case using query_unescape_char [of c "query_escape s"] by (simp add: query_escape_def)
qed (simp add: query_escape_def query_unescape_def)

lemma parse_query_pair: "parse_query_piece (query_pair p) = Some p"
proof -
  obtain k v where p: "p = (k, v)" by (cases p)
  have k: "\<forall>c \<in> set (query_escape k). c \<noteq> CHR ''=''" and no: "CHR '';'' \<notin> set (query_pair p)"
    using plain_query_escape [of k] plain_query_escape [of v]
    by (auto simp: plain_query_def query_pair_def p)
  have "takeWhile (\<lambda>c. c \<noteq> CHR ''='') (query_pair p) = query_escape k"
    "dropWhile (\<lambda>c. c \<noteq> CHR ''='') (query_pair p) = CHR ''='' # query_escape v"
    using k by (simp_all add: query_pair_def p)
  then show ?thesis using no by (simp add: parse_query_piece_def p) (simp add: query_pair_def)
qed

lemma query_value_encode:
  assumes "ps \<noteq> []"
  shows "query_value (encode_query ps) k = (case map_of ps k of None \<Rightarrow> [] | Some v \<Rightarrow> v)"
proof -
  have "CHR ''&'' \<notin> set (query_pair p)" for p
    using plain_query_escape [of "fst p"] plain_query_escape [of "snd p"]
    by (auto simp: plain_query_def query_pair_def split: prod.split)
  then have "split_str ''&'' (encode_query ps) = map query_pair ps"
    unfolding encode_query_def using assms by (intro split_char_join) auto
  then have "List.map_filter parse_query_piece (split_str ''&'' (encode_query ps)) = ps"
    by (simp add: List.map_filter_def parse_query_pair comp_def)
  then show ?thesis by (simp add: query_value_def)
qed

text \<open>What the browser sends when it follows a link: the part between the question mark and the hash.\<close>

definition sent_query :: "string \<Rightarrow> string" where
  "sent_query link = takeWhile (\<lambda>c. c \<noteq> CHR ''#'') (tl (dropWhile (\<lambda>c. c \<noteq> CHR ''?'') link))"

lemma sent_query_path:
  assumes "page > 0"
  shows "sent_query (association_page_path page account user) = encode_query
     ((if account \<noteq> [] then [(''association_account'', account)] else [])
      @ [(''association_page'', dec page)]
      @ (if user \<noteq> [] then [(''association_user'', user)] else [])
      @ [(''tab'', ''associations'')])"
proof -
  have "CHR ''#'' \<notin> set (query_pair p)" for p
    using plain_query_escape [of "fst p"] plain_query_escape [of "snd p"]
    by (auto simp: plain_query_def query_pair_def split: prod.split)
  then have "CHR ''#'' \<notin> set (encode_query ps)" for ps
    using set_join_str_subset [of "''&''" "map query_pair ps"] by (auto simp: encode_query_def)
  then have "\<forall>c \<in> set (encode_query ps). c \<noteq> CHR ''#''" for ps by metis
  then show ?thesis using assms by (simp add: sent_query_def association_page_path_def)
qed

lemma link_read_back:
  assumes "page > 0" and "q = sent_query (association_page_path page account user)"
  shows "query_value q ''tab'' = ''associations''" and "query_value q ''association_page'' = dec page"
    and "query_value q ''association_account'' = account" and "query_value q ''association_user'' = user"
  unfolding assms(2) sent_query_path [OF assms(1)] by (simp_all add: query_value_encode)

lemma parse_association_page_dec:
  assumes "0 < n" and "n \<le> 100"
  shows "parse_association_page (dec n) = Some n"
proof -
  have "length (dec n) \<le> 3" using assms(2) by (intro length_dec) simp_all
  moreover have "list_all is_digit (dec n)" using dec_digits by (simp add: list_all_iff)
  moreover have "parse_int64 (dec n) = Some (int n)"
    using assms(2) by (intro parse_int64_dec) (simp add: int64_max_def)
  ultimately show ?thesis
    using assms hd_dec [of n] by (simp add: parse_association_page_def max_association_pages_def)
qed

section \<open>Properties\<close>

lemma parsed_iff:
  "parse_associations accounts users = Inr xs \<longleftrightarrow>
     length (concat accounts @ concat users) \<le> max_association_records
   \<and> (\<exists>out. merge_records (concat accounts @ concat users) [] = Inr out \<and> xs = sort (map snd out))"
  by (auto simp: parse_associations_def count_records_iff parse_association_records_def sum_bind_Inr)

lemma length_merge_records:
  "merge_records records by_id = Inr out \<Longrightarrow> length out \<le> length records + length by_id"
proof (induction records arbitrary: by_id)
  case (Cons raw rest)
  obtain a where a: "merge_records rest (AList.update (assoc_id a) a by_id) = Inr out"
    using Cons.prems by (auto simp: sum_bind_Inr split: option.split_asm if_split_asm)
  from Cons.IH [OF this] length_update [of "assoc_id a" a by_id] show ?case by simp
qed simp

lemma parsed_length:
  assumes "parse_associations accounts users = Inr xs"
  shows "length xs \<le> 10000"
  using assms length_merge_records [of "concat accounts @ concat users" "[]"]
  unfolding parsed_iff max_association_records_def by fastforce

text \<open>What \<open>sacctmgr\<close> must have written for a record to count.\<close>

definition record_fields_ok :: "association_record \<Rightarrow> bool" where
  "record_fields_ok r \<longleftrightarrow>
     num_set (record_id r) \<and> \<not> num_infinite (record_id r) \<and> 0 < num_value (record_id r)
   \<and> record_cluster r \<noteq> [] \<and> record_account r \<noteq> []
   \<and> (\<forall>v \<in> {record_cluster r, record_account r, record_user r, record_partition r}.
        length v \<le> 1024 \<and> \<not> has_control v)"

lemma check_record_Inr:
  "check_record raw = Inr a \<longleftrightarrow> (\<exists>r. raw = Some r \<and> record_fields_ok r \<and> a = association_of r)"
proof (cases raw)
  case (Some r)
  have "check_record raw = Inr a \<longleftrightarrow>
      (num_set (record_id r) \<and> \<not> num_infinite (record_id r) \<and> 0 < num_value (record_id r)
        \<and> record_cluster r \<noteq> [] \<and> record_account r \<noteq> [])
      \<and> validate_detail_strings [record_cluster r, record_account r, record_user r, record_partition r] = Inr ()
      \<and> a = association_of r"
    unfolding check_record_def Some by (auto split: sum.split)
  then show ?thesis
    unfolding validate_detail_strings_iff by (auto simp: Some record_fields_ok_def max_detail_length_def)
qed (simp add: check_record_def)

lemma page_order:
  "(assoc_cluster a, assoc_account a, assoc_user a, assoc_partition a, assoc_id a)
     < (assoc_cluster b, assoc_account b, assoc_user b, assoc_partition b, assoc_id b)
   \<longleftrightarrow> a < (b :: association)"
  by (auto simp: less_association_ext_def less_prod_simp)

lemma finite_Some_set: "finite {r. Some r \<in> set rs}"
  by (rule finite_vimageI [of "set rs" Some, unfolded vimage_def]) simp_all

lemma accepted_eq: "accepted rs = association_of ` {r. Some r \<in> set rs \<and> record_fields_ok r}"
proof -
  have "a \<in> accepted rs \<longleftrightarrow> (\<exists>raw \<in> set rs. check_record raw = Inr a)" for a
    by (simp only: accepted_def mem_Collect_eq image_iff eq_commute [of "Inr a"])
  then show ?thesis unfolding check_record_Inr by blast
qed

text \<open>
  C19. Associations are merged exactly. The list of the page exists if and only if there are at most
  10000 records, each of them decodes, has a positive number, a cluster and an account, and
  four fields of at most 1024 bytes without control characters,
  and no two of them give one number to different associations. Then it holds each
  association once, ordered by cluster, account, user, partition and number, whatever the order and the repetitions of the records.
\<close>

theorem associations_exact:
  "parse_associations accounts users = Inr xs \<longleftrightarrow>
     (let rs = concat accounts @ concat users;
          read = (\<lambda>r. \<lparr>assoc_cluster = record_cluster r, assoc_account = record_account r,
            assoc_user = record_user r, assoc_partition = record_partition r,
            assoc_id = num_value (record_id r)\<rparr>)
      in length rs \<le> 10000
       \<and> (\<forall>raw \<in> set rs. \<exists>r. raw = Some r \<and> record_fields_ok r)
       \<and> inj_on assoc_id (read ` {r. Some r \<in> set rs})
       \<and> set xs = read ` {r. Some r \<in> set rs}
       \<and> sorted_wrt (\<lambda>a b.
            (assoc_cluster a, assoc_account a, assoc_user a, assoc_partition a, assoc_id a)
            < (assoc_cluster b, assoc_account b, assoc_user b, assoc_partition b, assoc_id b)) xs)"
proof -
  let ?rs = "concat accounts @ concat users"
  have start: "merged_ok [] []" by (simp add: merged_ok_def)
  have merged: "(\<exists>out. merge_records ?rs [] = Inr out \<and> xs = sort (map snd out)) \<longleftrightarrow>
      (\<forall>raw \<in> set ?rs. \<exists>a. check_record raw = Inr a) \<and> inj_on assoc_id (accepted ?rs)
      \<and> xs = sorted_list_of_set (accepted ?rs)"
    using merge_records_ok [OF _ start, of ?rs] merged_list [of ?rs] merge_records_decoded [of ?rs "[]"]
      merge_records_succeeds [of ?rs "[]" "[]", OF _ _ start]
    by (metis append_Nil)
  have ok: "(\<forall>raw \<in> set ?rs. \<exists>a. check_record raw = Inr a)
      \<longleftrightarrow> (\<forall>raw \<in> set ?rs. \<exists>r. raw = Some r \<and> record_fields_ok r)"
    unfolding check_record_Inr by blast
  have all: "accepted ?rs = association_of ` {r. Some r \<in> set ?rs}"
    if "\<forall>raw \<in> set ?rs. \<exists>r. raw = Some r \<and> record_fields_ok r"
  proof -
    have "{r. Some r \<in> set ?rs \<and> record_fields_ok r} = {r. Some r \<in> set ?rs}" using that by blast
    then show ?thesis unfolding accepted_eq by simp
  qed
  have read: "(\<lambda>r. \<lparr>assoc_cluster = record_cluster r, assoc_account = record_account r,
      assoc_user = record_user r, assoc_partition = record_partition r,
      assoc_id = num_value (record_id r)\<rparr>) = association_of"
    by (rule ext) (simp add: association_of_def)
  have limit: "max_association_records = 10000" by (rule max_association_records_def)
  show ?thesis
  proof (cases "\<forall>raw \<in> set ?rs. \<exists>r. raw = Some r \<and> record_fields_ok r")
    case True
    have "finite (accepted ?rs)" unfolding all [OF True] by (simp add: finite_Some_set)
    then have "xs = sorted_list_of_set (accepted ?rs) \<longleftrightarrow> set xs = accepted ?rs \<and> sorted_wrt (<) xs"
      by (metis sorted_list_of_set.set_sorted_key_list_of_set sorted_list_of_set.sorted_key_list_of_set_unique
          sorted_list_of_set.idem_if_sorted_distinct strict_sorted_iff strict_sorted_list_of_set)
    then show ?thesis
      unfolding parsed_iff merged ok Let_def read limit page_order all [OF True] using True by blast
  next
    case False
    then show ?thesis unfolding parsed_iff merged ok Let_def read limit by blast
  qed
qed

text \<open>
  A reader opens the list of associations and follows the link to the next page, at most
  \<open>n\<close> pages in all.
\<close>

fun association_walk :: "nat \<Rightarrow> association list \<Rightarrow> string \<Rightarrow> nat + association list" where
  "association_walk 0 xs q = Inr []"
| "association_walk (Suc n) xs q =
     sum_bind (slurm_accounts (Some xs) q) (\<lambda>view.
       if next_path view = [] then Inr (shown_associations view)
       else sum_bind (association_walk n xs (sent_query (next_path view))) (\<lambda>more.
         Inr (shown_associations view @ more)))"

definition asks :: "string \<Rightarrow> nat \<Rightarrow> string \<Rightarrow> string \<Rightarrow> bool" where
  "asks q page account user \<longleftrightarrow>
     parse_accounts_tab (query_value q ''tab'') \<noteq> None
   \<and> parse_association_page (query_value q ''association_page'') = Some page
   \<and> parse_association_filter (query_value q ''association_account'') = Some account
   \<and> parse_association_filter (query_value q ''association_user'') = Some user"

lemma parse_association_filter_Some: "parse_association_filter v = Some w \<Longrightarrow> v = w"
  by (simp add: parse_association_filter_def split: if_split_asm)

lemma link_asks:
  assumes "asks q page account user" and "0 < following" and "following \<le> 100"
  shows "asks (sent_query (association_page_path following account user)) following account user"
proof -
  have "parse_association_filter account = Some account" "parse_association_filter user = Some user"
    using assms(1) parse_association_filter_Some unfolding asks_def by metis+
  then show ?thesis
    using link_read_back [OF assms(2) refl, of account user] parse_association_page_dec [OF assms(2,3)]
    by (simp add: asks_def parse_accounts_tab_def)
qed

lemma accounts_page:
  assumes "asks q page account user"
  shows "\<exists>view. slurm_accounts (Some xs) q = Inr view
    \<and> (shown_associations view,
       previous_path view, next_path view)
      = (let (shown, previous, following) = paginate_associations (filter_associations xs account user) page
         in (shown, association_page_path previous account user,
             association_page_path following account user))
    \<and> filtered_count view = length (filter_associations xs account user)"
  using assms by (auto simp: asks_def slurm_accounts_def Let_def split: prod.split)

lemma page_path_Nil [simp]: "association_page_path page account user = [] \<longleftrightarrow> page = 0"
  by (simp add: association_page_path_def)

lemma paginate_last:
  assumes "1 \<le> page" and "length xs \<le> page * 100" and "page = 1 \<or> (page - 1) * 100 < length xs"
  shows "paginate_associations xs page
    = (drop ((page - 1) * 100) xs, if page > 1 then page - 1 else 0, 0)"
proof -
  have "(page - 1) * 100 + 100 = page * 100" using assms(1) by (simp add: diff_mult_distrib)
  then show ?thesis
    using assms by (cases "xs = []") (auto simp: paginate_associations_def association_page_size_def Let_def)
qed

lemma paginate_more:
  assumes "1 \<le> page" and "page * 100 < length xs"
  shows "paginate_associations xs page
    = (drop ((page - 1) * 100) (take (page * 100) xs), if page > 1 then page - 1 else 0, page + 1)"
proof -
  have eq: "(page - 1) * 100 + 100 = page * 100" using assms(1) by (simp add: diff_mult_distrib)
  then have "\<not> (page - 1) * 100 \<ge> length xs" "min (page * 100) (length xs) = page * 100"
    using assms(2) by linarith+
  then show ?thesis
    using assms(2) eq by (simp add: paginate_associations_def association_page_size_def Let_def)
qed

lemma association_walk_from:
  assumes "asks q page account user" and "length xs \<le> 10000" and "1 \<le> page" and "101 \<le> n + page"
    and "page \<le> 100" and "F = filter_associations xs account user"
    and "page = 1 \<or> (page - 1) * 100 < length F"
  shows "association_walk n xs q = Inr (drop ((page - 1) * 100) F)"
  using assms
proof (induction n arbitrary: q page)
  case (Suc n)
  let ?start = "(page - 1) * 100"
  have F: "length F \<le> 10000"
    unfolding Suc.prems(6) filter_associations_def by (rule order_trans [OF length_filter_le Suc.prems(2)])
  obtain view where view: "slurm_accounts (Some xs) q = Inr view"
      "(shown_associations view, previous_path view, next_path view)
      = (let (shown, previous, following) = paginate_associations F page
         in (shown, association_page_path previous account user,
             association_page_path following account user))"
    using accounts_page [OF Suc.prems(1), of xs] Suc.prems(6) by metis
  show ?case
  proof (cases "length F \<le> page * 100")
    case True
    show ?thesis
      using view paginate_last [OF Suc.prems(3) True Suc.prems(7)] by simp
  next
    case False
    then have shown: "shown_associations view = drop ?start (take (page * 100) F)"
        "next_path view = association_page_path (page + 1) account user"
      using view(2) paginate_more [OF Suc.prems(3), of F] by simp_all
    have le: "page + 1 \<le> 100" using False F by linarith
    have "association_walk n xs (sent_query (next_path view)) = Inr (drop (page * 100) F)"
      using Suc.IH [OF _ Suc.prems(2) _ _ le Suc.prems(6), of "sent_query (next_path view)"]
        link_asks [OF Suc.prems(1) _ le] Suc.prems(4) False shown(2) by simp
    moreover have "drop ?start (take (page * 100) F) @ drop (page * 100) F = drop ?start F"
    proof -
      have "drop ?start (take (page * 100) F @ drop (page * 100) F)
          = drop ?start (take (page * 100) F) @ drop (page * 100) F"
        using False by (subst drop_append) simp
      then show ?thesis by simp
    qed
    ultimately show ?thesis using view(1) shown by simp
  qed
qed simp

text \<open>
  C10. All pages together. A reader who opens the list of associations, with filters that are accepted,
  and follows the link to the next page gets every association that passes the filters exactly
  once and in order, within 100 pages and without an error: the limits on pages and on
  records fit together, and every link carries the filters on, whatever bytes are in them.
\<close>

theorem association_walk_complete:
  assumes "parse_associations accounts users = Inr xs"
    and "query_value q ''tab'' = ''associations''" and "query_value q ''association_page'' = []"
    and "parse_association_filter (query_value q ''association_account'') = Some account"
    and "parse_association_filter (query_value q ''association_user'') = Some user"
  shows "association_walk 100 xs q = Inr (filter_associations xs account user)"
proof -
  have "length xs \<le> 10000"
    using parsed_length [OF assms(1)] .
  moreover have "asks q 1 account user"
    using assms(2-) by (simp add: asks_def parse_accounts_tab_def parse_association_page_def)
  ultimately show ?thesis using association_walk_from [of q 1 account user xs 100] by simp
qed

definition example_record :: association_record where
  "example_record =
     \<lparr>record_id = \<lparr>num_set = True, num_infinite = False, num_value = 5\<rparr>, record_cluster = ''hpc'',
      record_account = ''a&b'', record_user = ''alice'', record_partition = []\<rparr>"

lemma example_fields_ok: "record_fields_ok example_record"
proof -
  have "\<not> has_control ''hpc''" "\<not> has_control ''a&b''" "\<not> has_control ''alice''" "\<not> has_control []"
    by code_simp+
  then show ?thesis by (simp add: record_fields_ok_def example_record_def)
qed

lemma check_example: "check_record (Some example_record) = Inr (association_of example_record)"
  by code_simp

theorem associations_exact_witness:
  "parse_associations [[Some example_record]] [[Some example_record], []] = Inr [association_of example_record]
   \<and> parse_associations [[None]] [] \<noteq> Inr []"
  unfolding associations_exact
  by (simp add: Let_def association_of_def example_fields_ok)

theorem association_walk_complete_witness:
  "let q = encode_query [(''association_account'', ''a&b''), (''tab'', ''associations'')]
   in association_walk 100 [association_of example_record] q
     = Inr (filter_associations [association_of example_record] ''a&b'' [])"
proof -
  let ?q = "encode_query [(''association_account'', ''a&b''), (''tab'', ''associations'')]"
  have parsed: "parse_associations [[Some example_record]] [] = Inr [association_of example_record]"
    by (simp add: parsed_iff max_association_records_def check_example)
  have q: "query_value ?q ''tab'' = ''associations''" "query_value ?q ''association_page'' = []"
    "query_value ?q ''association_account'' = ''a&b''" "query_value ?q ''association_user'' = []"
    by (simp_all add: query_value_encode)
  have "parse_association_filter (query_value ?q ''association_account'') = Some ''a&b''"
    "parse_association_filter (query_value ?q ''association_user'') = Some []"
    unfolding q by code_simp+
  from association_walk_complete [OF parsed q(1,2) this] show ?thesis by (simp add: Let_def)
qed

end
