(* ===== verification/Accounting.thy ===== *)
theory Accounting
  imports Associations
begin

text \<open>
  The accounting snapshot of the client (\<open>internal/slurm/accounting.go\<close>): two answers of \<open>sacctmgr\<close>,
  read once, give the directory of accounts and users and the associations of \<open>Associations\<close>;
  and the list of the qualities of service. A command is its list of arguments; \<open>run\<close> answers it
  or fails, and the decoders of JSON are parameters. The records of the associations stay
  undecoded in the directory, which only counts them.
\<close>

section \<open>Accounts and users\<close>

record account_record =
  ac_name :: string
  ac_description :: string
  ac_organization :: string
  ac_coordinators :: nat
  ac_associations :: "association_record option list"

record account_response =
  ac_errors :: nat
  ac_accounts :: "account_record list"

record user_record =
  us_name :: string
  us_levels :: "string list"
  us_account :: string
  us_wckey :: string
  us_associations :: "association_record option list"

record user_response =
  us_errors :: nat
  us_users :: "user_record list"

record slurm_account =
  account_name :: string
  account_description :: string
  account_organization :: string
  coordinator_count :: nat
  account_associations :: nat

record slurm_user =
  su_name :: string
  su_level :: string
  su_account :: string
  su_wckey :: string
  su_associations :: nat

datatype accounting_error =
  RunFailed | AnswerNotDecoded | AnswerReportsErrors | NameMissing | AnswerField core_error

definition check_fields :: "string list \<Rightarrow> accounting_error + unit" where
  "check_fields values =
     (case validate_detail_strings values of Inl e \<Rightarrow> Inl (AnswerField e) | Inr _ \<Rightarrow> Inr ())"

definition account_of :: "account_record \<Rightarrow> accounting_error + slurm_account" where
  "account_of r =
     (if ac_name r = [] then Inl NameMissing
      else sum_bind (check_fields [ac_name r, ac_description r, ac_organization r]) (\<lambda>_.
        Inr \<lparr>account_name = ac_name r, account_description = ac_description r,
             account_organization = ac_organization r, coordinator_count = ac_coordinators r,
             account_associations = length (ac_associations r)\<rparr>))"

definition parse_accounts :: "account_response option \<Rightarrow> accounting_error + slurm_account list" where
  "parse_accounts response =
     (case response of
        None \<Rightarrow> Inl AnswerNotDecoded
      | Some r \<Rightarrow>
          if ac_errors r > 0 then Inl AnswerReportsErrors else map_sum_list account_of (ac_accounts r))"

definition user_of :: "user_record \<Rightarrow> accounting_error + slurm_user" where
  "user_of r =
     (let level = join_str '', '' (us_levels r)
      in if us_name r = [] then Inl NameMissing
         else sum_bind (check_fields [us_name r, level, us_account r, us_wckey r]) (\<lambda>_.
           Inr \<lparr>su_name = us_name r, su_level = level, su_account = us_account r,
                su_wckey = us_wckey r, su_associations = length (us_associations r)\<rparr>))"

definition parse_users :: "user_response option \<Rightarrow> accounting_error + slurm_user list" where
  "parse_users response =
     (case response of
        None \<Rightarrow> Inl AnswerNotDecoded
      | Some r \<Rightarrow> if us_errors r > 0 then Inl AnswerReportsErrors else map_sum_list user_of (us_users r))"

section \<open>The snapshot\<close>

record accounting_snapshot =
  directory_accounts :: "slurm_account list"
  directory_users :: "slurm_user list"
  snapshot_associations :: "association_error + association list"

definition accounts_command :: "string list" where
  "accounts_command = [''sacctmgr'', ''--json'', ''show'', ''account'', ''WithAssoc'']"

definition users_command :: "string list" where
  "users_command = [''sacctmgr'', ''--json'', ''show'', ''user'', ''WithAssoc'']"

definition run_answer :: "(string list \<Rightarrow> 'o option) \<Rightarrow> string list \<Rightarrow> accounting_error + 'o" where
  "run_answer run c = (case run c of None \<Rightarrow> Inl RunFailed | Some out \<Rightarrow> Inr out)"

definition load_accounting_snapshot ::
  "('o \<Rightarrow> account_response option) \<Rightarrow> ('o \<Rightarrow> user_response option) \<Rightarrow> (string list \<Rightarrow> 'o option)
     \<Rightarrow> accounting_error + accounting_snapshot" where
  "load_accounting_snapshot decode_accounts decode_users run =
     sum_bind (run_answer run accounts_command) (\<lambda>accounts_output.
     sum_bind (parse_accounts (decode_accounts accounts_output)) (\<lambda>accounts.
     sum_bind (run_answer run users_command) (\<lambda>users_output.
     sum_bind (parse_users (decode_users users_output)) (\<lambda>users.
       Inr \<lparr>directory_accounts = accounts, directory_users = users,
            snapshot_associations = parse_associations
              (map ac_associations (ac_accounts (the (decode_accounts accounts_output))))
              (map us_associations (us_users (the (decode_users users_output))))\<rparr>))))"

definition account_directory ::
  "accounting_error + accounting_snapshot \<Rightarrow> (slurm_account list \<times> slurm_user list) option" where
  "account_directory loaded =
     (case loaded of Inl _ \<Rightarrow> None | Inr s \<Rightarrow> Some (directory_accounts s, directory_users s))"

definition client_associations :: "accounting_error + accounting_snapshot \<Rightarrow> association list option" where
  \<comment> \<open>\<open>Associations\<close>; the page only asks whether there was an error\<close>
  "client_associations loaded =
     (case loaded of
        Inl _ \<Rightarrow> None
      | Inr s \<Rightarrow> (case snapshot_associations s of Inl _ \<Rightarrow> None | Inr xs \<Rightarrow> Some xs))"

section \<open>Qualities of service\<close>

record 'f qos_record =
  qr_name :: string
  qr_description :: string
  qr_priority :: slurm_number
  qr_factor :: 'f
  qr_max_jobs :: slurm_number

record 'f qos =
  qos_name :: string
  qos_description :: string
  qos_priority :: int
  qos_factor :: 'f
  qos_max_jobs :: int
  qos_unlimited :: bool

definition qos_of :: "'f qos_record \<Rightarrow> accounting_error + 'f qos" where
  \<comment> \<open>the usage factor is a floating-point number that nothing computes with\<close>
  "qos_of r =
     (if qr_name r = [] then Inl NameMissing
      else sum_bind (check_fields [qr_name r, qr_description r]) (\<lambda>_.
        Inr \<lparr>qos_name = qr_name r, qos_description = qr_description r,
             qos_priority = num_value (qr_priority r), qos_factor = qr_factor r,
             qos_max_jobs = num_value (qr_max_jobs r), qos_unlimited = num_infinite (qr_max_jobs r)\<rparr>))"

definition parse_qos :: "(nat \<times> 'f qos_record list) option \<Rightarrow> accounting_error + 'f qos list" where
  \<comment> \<open>the number of reported errors and the records, if the output decodes\<close>
  "parse_qos response =
     (case response of
        None \<Rightarrow> Inl AnswerNotDecoded
      | Some (errors, rs) \<Rightarrow> if errors > 0 then Inl AnswerReportsErrors else map_sum_list qos_of rs)"

section \<open>The directory and its associations\<close>

lemma map_sum_list_measure:
  assumes "\<And>x y. f x = Inr y \<Longrightarrow> g y = (h x :: nat)"
  shows "map_sum_list f xs = Inr ys \<Longrightarrow> map g ys = map h xs"
  by (induction xs arbitrary: ys) (auto simp: sum_bind_Inr assms)

lemma parse_accounts_counts:
  "parse_accounts (Some r) = Inr as \<Longrightarrow> map account_associations as = map length (map ac_associations (ac_accounts r))"
  unfolding parse_accounts_def map_map comp_def
  by (rule map_sum_list_measure [where f = account_of]) (auto simp: account_of_def sum_bind_Inr split: if_split_asm)

lemma parse_users_counts:
  "parse_users (Some r) = Inr us \<Longrightarrow> map su_associations us = map length (map us_associations (us_users r))"
  unfolding parse_users_def map_map comp_def
  by (rule map_sum_list_measure [where f = user_of])
    (auto simp: user_of_def Let_def sum_bind_Inr split: if_split_asm)

lemma load_accounting_Inr:
  assumes "load_accounting_snapshot decode_accounts decode_users run = Inr s"
  obtains a u where "parse_accounts (Some a) = Inr (directory_accounts s)"
    and "parse_users (Some u) = Inr (directory_users s)"
    and "snapshot_associations s = parse_associations (map ac_associations (ac_accounts a))
      (map us_associations (us_users u))"
proof -
  obtain ao uo where parts: "parse_accounts (decode_accounts ao) = Inr (directory_accounts s)"
      "parse_users (decode_users uo) = Inr (directory_users s)"
    and assoc: "snapshot_associations s = parse_associations
        (map ac_associations (ac_accounts (the (decode_accounts ao))))
        (map us_associations (us_users (the (decode_users uo))))"
    using assms unfolding load_accounting_snapshot_def sum_bind_Inr by auto
  have "\<exists>a. decode_accounts ao = Some a" "\<exists>u. decode_users uo = Some u"
    using parts unfolding parse_accounts_def parse_users_def by (auto split: option.split_asm)
  then show ?thesis using that parts assoc by fastforce
qed

text \<open>
  The directory and its associations. Whenever the accounting is read, the directory is there
  whatever its associations are worth. The associations are there only if the counts that the
  directory shows with its accounts and users come to at most 10000 together, and then
  there are at most that many of them, each is listed once, and no two share a number.
\<close>

theorem directory_counts_associations:
  assumes "loaded = load_accounting_snapshot decode_accounts decode_users run" and "loaded = Inr s"
    and "counted = sum_list (map account_associations (directory_accounts s))
      + sum_list (map su_associations (directory_users s))"
  shows "account_directory loaded = Some (directory_accounts s, directory_users s)
    \<and> (\<forall>xs. client_associations loaded = Some xs \<longrightarrow>
        counted \<le> 10000 \<and> length xs \<le> counted \<and> sorted xs \<and> distinct (map assoc_id xs))
    \<and> (counted > 10000 \<longrightarrow> client_associations loaded = None)"
proof -
  obtain a u where a: "parse_accounts (Some a) = Inr (directory_accounts s)"
    and u: "parse_users (Some u) = Inr (directory_users s)"
    and assoc: "snapshot_associations s = parse_associations (map ac_associations (ac_accounts a))
      (map us_associations (us_users u))"
    using load_accounting_Inr assms(1,2) by metis
  let ?rss = "map ac_associations (ac_accounts a) @ map us_associations (us_users u)"
  have counted: "counted = length (concat ?rss)"
    unfolding assms(3) parse_accounts_counts [OF a] parse_users_counts [OF u]
    by (simp add: length_concat comp_def)
  have listed: "counted \<le> 10000 \<and> length xs \<le> counted \<and> sorted xs \<and> distinct (map assoc_id xs)"
    if xs: "snapshot_associations s = Inr xs" for xs
  proof -
    obtain out where small: "counted \<le> 10000" and merged: "merge_records (concat ?rss) [] = Inr out"
      and xs': "xs = sort (map snd out)"
      using xs unfolding assoc parsed_iff counted max_association_records_def by auto
    have ok: "merged_ok (concat ?rss) out"
      using merge_records_ok [OF merged, of "[]"] by (simp add: merged_ok_def)
    note merged_xs = merged_list [OF ok, folded xs']
    have "length xs \<le> counted"
      using length_merge_records [OF merged] unfolding xs' counted by simp
    moreover have "sorted xs" "distinct xs" by (simp_all add: merged_xs(1))
    moreover have "set xs \<subseteq> accepted (concat ?rss)"
      unfolding merged_xs(1) by (cases "finite (accepted (concat ?rss))") simp_all
    ultimately show ?thesis
      using small inj_on_subset [OF merged_xs(2)] by (simp add: distinct_map)
  qed
  then show ?thesis
    unfolding account_directory_def client_associations_def assms(2) by (auto split: sum.split)
qed

definition example_account_answer :: account_response where
  "example_account_answer = \<lparr>ac_errors = 0, ac_accounts = [\<lparr>ac_name = ''a'', ac_description = '''',
     ac_organization = '''', ac_coordinators = 0, ac_associations = [Some example_record]\<rparr>]\<rparr>"

definition example_user_answer :: user_response where
  "example_user_answer = \<lparr>us_errors = 0, us_users = [\<lparr>us_name = ''alice'', us_levels = [''None''],
     us_account = ''a'', us_wckey = '''', us_associations = [Some example_record, None]\<rparr>]\<rparr>"

theorem directory_counts_associations_witness:
  "\<exists>s. load_accounting_snapshot (\<lambda>_. Some example_account_answer) (\<lambda>_. Some example_user_answer) (\<lambda>_. Some ()) = Inr s
     \<and> account_directory (Inr s :: accounting_error + _) = Some (directory_accounts s, directory_users s)"
proof -
  have "parse_accounts (Some example_account_answer) = Inr [\<lparr>account_name = ''a'', account_description = '''',
      account_organization = '''', coordinator_count = 0, account_associations = 1\<rparr>]"
    "parse_users (Some example_user_answer) = Inr [\<lparr>su_name = ''alice'', su_level = ''None'',
      su_account = ''a'', su_wckey = '''', su_associations = 2\<rparr>]"
    by code_simp+
  then obtain s where "load_accounting_snapshot (\<lambda>_. Some example_account_answer) (\<lambda>_. Some example_user_answer)
      (\<lambda>_. Some ()) = Inr s"
    by (simp add: load_accounting_snapshot_def run_answer_def)
  from directory_counts_associations [OF refl this refl] this show ?thesis by auto
qed

end
