(* ===== verification/Float64.thy ===== *)
theory Float64
  imports Complex_Main Prelude
begin

text \<open>
  The floating-point numbers that Go computes shares with: a \<open>float64\<close> is the rational number it
  stands for, and every operation rounds its exact result to 53 binary digits, a tie to the
  even neighbour. Only positive results between \<open>2 ^ -100\<close> and \<open>2 ^ 100\<close> occur, so there is
  neither overflow nor underflow; arguments that are not positive become zero.
\<close>

section \<open>Rounding\<close>

definition half_even :: "rat \<Rightarrow> int" where
  "half_even x =
     (let n = \<lfloor>x\<rfloor>; r = x - of_int n
      in if r < 1 / 2 then n else if r > 1 / 2 then n + 1 else if even n then n else n + 1)"

text \<open>Halving leaves fewer integers below, doubling needs fewer steps up.\<close>

lemma halved_floor:
  assumes "2 \<le> (x :: rat)"
  shows "nat \<lfloor>x / 2\<rfloor> < nat \<lfloor>x\<rfloor>"
proof -
  have "of_int (\<lfloor>x / 2\<rfloor> + 1) \<le> x" using of_int_floor_le [of "x / 2"] assms by simp
  then have "\<lfloor>x / 2\<rfloor> + 1 \<le> \<lfloor>x\<rfloor>" by (simp only: le_floor_iff)
  moreover have "2 \<le> \<lfloor>x\<rfloor>" using assms by (simp add: le_floor_iff)
  ultimately show ?thesis by simp
qed

lemma doubled_ceiling:
  assumes "0 < (x :: rat)" and "x < 2 ^ 52"
  shows "nat \<lceil>2 ^ 52 / (2 * x)\<rceil> < nat \<lceil>2 ^ 52 / x\<rceil>"
proof -
  have y: "1 < 2 ^ 52 / x" using assms by (simp add: less_divide_eq)
  define c where "c = \<lceil>2 ^ 52 / x\<rceil>"
  have "2 ^ 52 / x \<le> of_int c" unfolding c_def by (rule le_of_int_ceiling)
  moreover have c: "1 < c" using y unfolding c_def by (simp only: less_ceiling_iff of_int_1)
  ultimately have "2 ^ 52 / (2 * x) \<le> of_int (c - 1)" by simp
  then have "\<lceil>2 ^ 52 / (2 * x)\<rceil> \<le> c - 1" by (simp only: ceiling_le_iff)
  then have "nat \<lceil>2 ^ 52 / (2 * x)\<rceil> < nat c" using c by linarith
  then show ?thesis unfolding c_def .
qed

function float64 :: "rat \<Rightarrow> rat" where
  "float64 x =
     (if x \<le> 0 then 0
      else if x \<ge> 2 ^ 53 then 2 * float64 (x / 2)
      else if x < 2 ^ 52 then float64 (2 * x) / 2
      else of_int (half_even x))"
  by pat_completeness auto

termination
proof (relation "measure (\<lambda>x. if 2 ^ 53 \<le> x then nat \<lfloor>x\<rfloor> else nat \<lceil>2 ^ 52 / x\<rceil>)")
  fix x :: rat
  assume x: "\<not> x \<le> 0" "2 ^ 53 \<le> x"
  show "(x / 2, x) \<in> measure (\<lambda>x. if 2 ^ 53 \<le> x then nat \<lfloor>x\<rfloor> else nat \<lceil>2 ^ 52 / x\<rceil>)"
  proof (cases "2 ^ 53 \<le> x / 2")
    case True
    then show ?thesis using halved_floor [of x] x(2) by simp
  next
    case False
    have "2 ^ 53 / x \<le> 1" using x by simp
    then have "\<lceil>2 ^ 53 / x\<rceil> \<le> 1" by (simp add: ceiling_le_iff)
    moreover have "2 \<le> \<lfloor>x\<rfloor>" using x(2) by (simp add: le_floor_iff)
    ultimately have "\<lceil>2 ^ 53 / x\<rceil> < \<lfloor>x\<rfloor>" by linarith
    then show ?thesis using False x(2) by simp
  qed
next
  fix x :: rat
  assume x: "\<not> x \<le> 0" "\<not> 2 ^ 53 \<le> x" "x < 2 ^ 52"
  then show "(2 * x, x) \<in> measure (\<lambda>x. if 2 ^ 53 \<le> x then nat \<lfloor>x\<rfloor> else nat \<lceil>2 ^ 52 / x\<rceil>)"
    using doubled_ceiling [of x] by simp
qed simp

declare float64.simps [simp del]

text \<open>\<open>math.Round\<close> of a number that is not negative.\<close>

definition go_round :: "rat \<Rightarrow> int" where
  "go_round x = \<lfloor>x + 1 / 2\<rfloor>"

section \<open>Where rounding does not show\<close>

lemma half_even_close: "\<bar>of_int (half_even x) - x\<bar> \<le> 1 / 2"
  unfolding half_even_def Let_def using floor_correct [of x] by auto

lemma half_even_int [simp]: "half_even (of_int n) = n"
  by (simp add: half_even_def)

lemma half_even_ge: "of_int n \<le> x \<Longrightarrow> n \<le> half_even x"
  unfolding half_even_def Let_def using le_floor_iff [of n x] by auto

text \<open>Below \<open>2 ^ 53\<close> a number is rounded on the grid that gives it 53 digits.\<close>

lemma float64_grid:
  "0 < x \<Longrightarrow> x < 2 ^ 53 \<Longrightarrow> \<exists>j. 2 ^ 52 \<le> x * 2 ^ j \<and> float64 x = of_int (half_even (x * 2 ^ j)) / 2 ^ j"
proof (induction x rule: float64.induct)
  case (1 x)
  show ?case
  proof (cases "x < 2 ^ 52")
    case True
    then obtain j where j: "2 ^ 52 \<le> 2 * x * 2 ^ j"
        "float64 (2 * x) = of_int (half_even (2 * x * 2 ^ j)) / 2 ^ j"
      using 1 by auto
    have "float64 x = float64 (2 * x) / 2" using 1(3,4) True by (subst float64.simps) simp
    then show ?thesis using j by (intro exI [of _ "Suc j"]) (simp add: ac_simps)
  next
    case False
    then have "float64 x = of_int (half_even x)" using 1(3,4) by (subst float64.simps) simp
    then show ?thesis using False by (intro exI [of _ 0]) simp
  qed
qed

lemma float64_int: "0 \<le> n \<Longrightarrow> n < 2 ^ 53 \<Longrightarrow> float64 (of_int n) = of_int n"
proof (cases "n = 0")
  case False
  assume "0 \<le> n" "n < 2 ^ 53"
  then have "0 < (of_int n :: rat)" "(of_int n :: rat) < 2 ^ 53"
    using False by (simp, metis of_int_less_iff of_int_numeral of_int_power)
  then obtain j where j: "float64 (of_int n) = of_int (half_even (of_int n * 2 ^ j)) / 2 ^ j"
    using float64_grid by blast
  have "half_even (of_int n * 2 ^ j) = n * 2 ^ j"
    using half_even_int [of "n * 2 ^ j"] by simp
  then show ?thesis using j by simp
qed (simp add: float64.simps)

lemma float64_small:
  assumes "0 < x" and "x < 2 ^ 7"
  shows "float64 x - x \<le> 1 / 2 ^ 47" and "0 \<le> k \<Longrightarrow> of_int k + 1 / 2 \<le> x \<Longrightarrow> of_int k + 1 / 2 \<le> float64 x"
proof -
  have "x < 2 ^ 53" using assms(2) by simp
  from float64_grid [OF assms(1) this] obtain j where j: "2 ^ 52 \<le> x * 2 ^ j"
      "float64 x = of_int (half_even (x * 2 ^ j)) / 2 ^ j"
    by blast
  have "(2 :: rat) ^ 52 < 2 ^ 7 * 2 ^ j"
    using j(1) assms(2) by (meson le_less_trans mult_strict_right_mono zero_less_numeral zero_less_power)
  then have "(2 :: rat) ^ 52 < 2 ^ (7 + j)" by (simp only: power_add)
  then have j46: "46 \<le> j" using power_less_imp_less_exp [of "2 :: rat" 52 "7 + j"] by simp
  have "of_int (half_even (x * 2 ^ j)) - x * 2 ^ j \<le> 1 / 2"
    using half_even_close [of "x * 2 ^ j"] by linarith
  then have "(of_int (half_even (x * 2 ^ j)) - x * 2 ^ j) / 2 ^ j \<le> 1 / 2 / 2 ^ j"
    by (intro divide_right_mono) simp_all
  moreover have "(of_int (half_even (x * 2 ^ j)) - x * 2 ^ j) / 2 ^ j = float64 x - x"
    using j(2) by (simp add: diff_divide_distrib)
  moreover have "1 / 2 / 2 ^ j \<le> 1 / (2 :: rat) ^ 47"
  proof -
    have "(2 :: rat) ^ 46 \<le> 2 ^ j" using j46 by (intro power_increasing) simp_all
    then show ?thesis by (simp add: field_simps)
  qed
  ultimately show "float64 x - x \<le> 1 / 2 ^ 47" by linarith
  assume k: "0 \<le> k" "of_int k + 1 / 2 \<le> x"
  obtain i where i: "j = Suc i" using j46 by (cases j) auto
  have grid: "(of_int k + 1 / 2) * 2 ^ j = (of_int ((2 * k + 1) * 2 ^ i) :: rat)"
    by (simp add: i field_simps)
  have "of_int ((2 * k + 1) * 2 ^ i) \<le> x * 2 ^ j"
    unfolding grid [symmetric] using k(2) by (intro mult_right_mono) simp_all
  then have "(2 * k + 1) * 2 ^ i \<le> half_even (x * 2 ^ j)" by (rule half_even_ge)
  then have "(of_int k + 1 / 2) * 2 ^ j \<le> (of_int (half_even (x * 2 ^ j)) :: rat)"
    unfolding grid by (simp only: of_int_le_iff)
  then show "of_int k + 1 / 2 \<le> float64 x" unfolding j(2) by (simp add: le_divide_eq)
qed

text \<open>
  The share of \<open>a\<close> in \<open>t\<close> in percent, to the nearest whole number: as the code computes it, and
  exactly. They agree as long as \<open>t\<close> has at most 46 binary digits: half a percent more is a
  number of the grid, which no smaller share is close enough to be rounded to.
\<close>

definition percentage :: "int \<Rightarrow> int \<Rightarrow> int" where
  "percentage a t = go_round (float64 (float64 (float64 (of_int a) * 100) / float64 (of_int t)))"

definition nearest_percent :: "int \<Rightarrow> int \<Rightarrow> int" where
  "nearest_percent a t = (200 * a + t) div (2 * t)"

lemma nearest_percent_floor: "0 < t \<Longrightarrow> nearest_percent a t = \<lfloor>of_int (a * 100) / of_int t + 1 / 2 :: rat\<rfloor>"
proof -
  assume "0 < t"
  then have "of_int (a * 100) / of_int t + 1 / 2 = (of_int (200 * a + t) / of_int (2 * t) :: rat)"
    by (simp add: field_simps)
  then show ?thesis unfolding nearest_percent_def by (simp only: floor_divide_of_int_eq)
qed

lemma percentage_exact:
  assumes "0 \<le> a" and "a \<le> t" and "0 < t" and "t < 2 ^ 46"
  shows "percentage a t = nearest_percent a t"
proof -
  define x :: rat where "x = of_int (a * 100) / of_int t"
  have ints: "float64 (of_int a) = of_int a" "float64 (of_int (a * 100)) = of_int (a * 100)"
      "float64 (of_int t) = of_int t"
    using assms by (intro float64_int; simp)+
  have code: "percentage a t = \<lfloor>float64 x + 1 / 2\<rfloor>"
    using ints by (simp add: percentage_def go_round_def x_def)
  define k where "k = nearest_percent a t"
  have k: "k = \<lfloor>x + 1 / 2\<rfloor>" unfolding k_def x_def by (rule nearest_percent_floor [OF assms(3)])
  show ?thesis
  proof (cases "a = 0")
    case True
    then show ?thesis
      unfolding code k_def [symmetric] k by (simp add: x_def float64.simps)
  next
    case False
    have t: "(0 :: rat) < of_int t" using assms(3) by simp
    have "of_int (a * 100) \<le> (100 :: rat) * of_int t" using assms(2) by simp
    then have x: "0 < x" "x < 2 ^ 7"
      using False assms(1) t by (simp_all add: x_def divide_less_eq)
    note small = float64_small [OF x]
    have "0 \<le> k" unfolding k using x(1) by (simp add: zero_le_floor)
    have "of_int k - 1 / 2 \<le> float64 x"
    proof (cases "k = 0")
      case True
      obtain j where "float64 x = of_int (half_even (x * 2 ^ j)) / 2 ^ j"
        using float64_grid [of x] x by auto
      moreover have "0 \<le> half_even (x * 2 ^ j)" using x(1) by (intro half_even_ge) simp
      ultimately have "0 \<le> float64 x" by simp
      then show ?thesis using True by simp
    next
      case False
      have "of_int k \<le> x + 1 / 2" unfolding k by simp
      then have "of_int (k - 1) + 1 / 2 \<le> x" by simp
      from small(2) [OF _ this] show ?thesis using False \<open>0 \<le> k\<close> by simp
    qed
    moreover have "float64 x < of_int k + 1 / 2"
    proof -
      have "x < of_int k + 1 / 2" unfolding k using floor_correct [of "x + 1 / 2"] by simp
      then have "of_int (200 * a) < (of_int ((2 * k + 1) * t) :: rat)"
        using t by (simp add: x_def divide_less_eq field_simps)
      then have "200 * a + 1 \<le> (2 * k + 1) * t" by (simp only: of_int_less_iff)
      then have "(of_int (200 * a + 1) :: rat) \<le> of_int ((2 * k + 1) * t)" by (simp only: of_int_le_iff)
      then have "x + 1 / (2 * of_int t) \<le> of_int k + 1 / 2"
        using t by (simp add: x_def field_simps)
      moreover have "1 / 2 ^ 47 < 1 / (2 * of_int t :: rat)"
      proof -
        have "(of_int t :: rat) < of_int (2 ^ 46)" using assms(4) by (simp only: of_int_less_iff)
        then show ?thesis using t by (simp add: field_simps)
      qed
      ultimately show ?thesis using small(1) by linarith
    qed
    ultimately have "\<lfloor>float64 x + 1 / 2\<rfloor> = k" by (intro floor_unique) simp_all
    then show ?thesis using code k_def by simp
  qed
qed

end
