(* ===== verification/ClusterSnapshot.thy ===== *)
theory ClusterSnapshot
  imports CoreHours Float64
begin

text \<open>
  The snapshot of the nodes (\<open>parseNodesJSON\<close> of \<open>internal/slurm/details.go\<close>) and what the
  client makes of it: the list of nodes, the partitions (\<open>internal/slurm/partitions.go\<close>) and the
  figures of the dashboard (\<open>aggregateMetrics\<close> of \<open>internal/slurm/client.go\<close>). The client gives
  the partitions to whoever asks; no page shows them yet. Go's maps are
  association lists with distinct keys; where the code ranges over one, the result does not
  depend on the order. \<open>lower\<close> is \<open>strings.ToLower\<close> with its tables of Unicode.
\<close>

section \<open>The nodes\<close>

record node_record =
  rec_names :: "string list"
  rec_partition :: string
  rec_states :: "string list"
  rec_allocated :: int
  rec_total :: int
  rec_memory :: int
  rec_gres :: string

record node_response =
  node_errors :: nat
  node_records :: "node_record list"

record node =
  node_name :: string
  node_partition :: string
  node_state :: string
  node_allocated :: int
  node_total :: int
  node_memory :: int
  node_gres :: string
  node_online :: bool

record node_snapshot =
  snap_nodes :: "node list"
  snap_partition_nodes :: "node list"

datatype snapshot_error =
  NodesNotDecoded | NodesReportErrors | NodeIncomplete | NodeCpus | NodeMemory
| NodeField core_error | NodeConflict string | PartitionIncomplete | PartitionRange | MetricsConflict string

definition offline_prefixes :: "string list" where
  "offline_prefixes =
     [''down'', ''fail'', ''unknown'', ''future'', ''powered_down'', ''power_down'', ''powering_down'',
      ''no_respond'']"

definition json_node_online :: "(string \<Rightarrow> string) \<Rightarrow> string list \<Rightarrow> bool" where
  "json_node_online lower states \<longleftrightarrow>
     list_all (\<lambda>v. list_all (\<lambda>p. \<not> prefix p (lower v)) offline_prefixes) states"

definition node_details :: "node \<Rightarrow> node" where
  "node_details n = n\<lparr>node_partition := []\<rparr>"

definition check_node_record :: "node_record \<Rightarrow> snapshot_error + unit" where
  "check_node_record r =
     (if rec_names r = [] \<or> rec_partition r = [] \<or> rec_states r = [] then Inl NodeIncomplete
      else if rec_total r \<le> 0 \<or> rec_allocated r < 0 \<or> rec_allocated r > rec_total r then Inl NodeCpus
      else if rec_memory r < 0 then Inl NodeMemory
      else case validate_detail_strings
          (rec_partition r # rec_gres r # rec_names r @ rec_states r) of
          Inl e \<Rightarrow> Inl (NodeField e)
        | Inr _ \<Rightarrow> Inr ())"

definition node_of :: "(string \<Rightarrow> string) \<Rightarrow> node_record \<Rightarrow> string \<Rightarrow> node" where
  "node_of lower r name =
     \<lparr>node_name = name, node_partition = rec_partition r, node_state = lower (hd (rec_states r)),
      node_allocated = rec_allocated r, node_total = rec_total r, node_memory = rec_memory r,
      node_gres = rec_gres r, node_online = json_node_online lower (rec_states r)\<rparr>"

record node_maps =
  nodes_by_name :: "(string \<times> node) list"
  partitions_by_node :: "(string \<times> string list) list"
  partition_nodes :: "node list"

definition node_partitions :: "node_maps \<Rightarrow> string \<Rightarrow> string list" where
  "node_partitions m name = (case map_of (partitions_by_node m) name of None \<Rightarrow> [] | Some ps \<Rightarrow> ps)"

definition add_node :: "node \<Rightarrow> node_maps \<Rightarrow> snapshot_error + node_maps" where
  \<comment> \<open>the body of the inner loop\<close>
  "add_node n m =
     (let m' = m\<lparr>partition_nodes := partition_nodes m @ [n],
                partitions_by_node := AList.update (node_name n)
                  (List.insert (node_partition n) (node_partitions m (node_name n))) (partitions_by_node m)\<rparr>
      in case map_of (nodes_by_name m) (node_name n) of
          Some existing \<Rightarrow>
            if node_details existing \<noteq> node_details n then Inl (NodeConflict (node_name n)) else Inr m'
        | None \<Rightarrow> Inr (m'\<lparr>nodes_by_name := AList.update (node_name n) n (nodes_by_name m)\<rparr>))"

fun add_nodes :: "node list \<Rightarrow> node_maps \<Rightarrow> snapshot_error + node_maps" where
  "add_nodes [] m = Inr m"
| "add_nodes (n # ns) m = sum_bind (add_node n m) (add_nodes ns)"

fun add_node_records ::
  "(string \<Rightarrow> string) \<Rightarrow> node_record list \<Rightarrow> node_maps \<Rightarrow> snapshot_error + node_maps" where
  "add_node_records lower [] m = Inr m"
| "add_node_records lower (r # rs) m =
     sum_bind (check_node_record r) (\<lambda>_.
     sum_bind (add_nodes (map (node_of lower r) (rec_names r)) m) (add_node_records lower rs))"

definition listed_node :: "node_maps \<Rightarrow> string \<Rightarrow> node" where
  "listed_node m name =
     (the (map_of (nodes_by_name m) name))
       \<lparr>node_partition := join_str '', '' (sort (node_partitions m name))\<rparr>"

definition parse_nodes :: "(string \<Rightarrow> string) \<Rightarrow> node_response option \<Rightarrow> snapshot_error + node_snapshot" where
  \<comment> \<open>\<open>None\<close>: the output does not decode\<close>
  "parse_nodes lower response =
     (case response of
        None \<Rightarrow> Inl NodesNotDecoded
      | Some r \<Rightarrow>
          if node_errors r > 0 then Inl NodesReportErrors
          else
            sum_bind (add_node_records lower (node_records r)
                \<lparr>nodes_by_name = [], partitions_by_node = [], partition_nodes = []\<rparr>) (\<lambda>m.
              Inr \<lparr>snap_nodes = map (listed_node m) (sort (map fst (nodes_by_name m))),
                   snap_partition_nodes = partition_nodes m\<rparr>))"

section \<open>The partitions\<close>

record partition_view =
  pt_name :: string
  pt_nodes :: nat
  pt_online :: nat
  pt_allocated :: int
  pt_total :: int
  pt_memory :: int
  pt_utilization :: int

type_synonym partition_map = "(string \<times> (string \<times> node) list) list"

definition nodes_of_partition :: "partition_map \<Rightarrow> string \<Rightarrow> (string \<times> node) list" where
  "nodes_of_partition m p = (case map_of m p of None \<Rightarrow> [] | Some ns \<Rightarrow> ns)"

fun group_partition_nodes :: "node list \<Rightarrow> partition_map \<Rightarrow> snapshot_error + partition_map" where
  \<comment> \<open>the first loop of \<open>aggregatePartitions\<close>\<close>
  "group_partition_nodes [] m = Inr m"
| "group_partition_nodes (n # ns) m =
     (if node_name n = [] \<or> node_partition n = [] then Inl PartitionIncomplete
      else if node_total n < 0 \<or> node_allocated n < 0 \<or> node_allocated n > node_total n \<or> node_memory n < 0
      then Inl NodeCpus
      else case validate_detail_strings [node_partition n, node_name n] of
          Inl e \<Rightarrow> Inl (NodeField e)
        | Inr _ \<Rightarrow>
            (case map_of (nodes_of_partition m (node_partition n)) (node_name n) of
               Some existing \<Rightarrow>
                 if existing \<noteq> n then Inl (NodeConflict (node_name n)) else group_partition_nodes ns m
             | None \<Rightarrow>
                 group_partition_nodes ns
                   (AList.update (node_partition n)
                      (AList.update (node_name n) n (nodes_of_partition m (node_partition n))) m)))"

definition add_partition_resources :: "node \<Rightarrow> partition_view \<Rightarrow> snapshot_error + partition_view" where
  "add_partition_resources n p =
     (if node_allocated n > wrap64 (int64_max - pt_allocated p)
         \<or> node_total n > wrap64 (int64_max - pt_total p)
         \<or> node_memory n > wrap64 (int64_max - pt_memory p)
      then Inl PartitionRange
      else Inr (p\<lparr>pt_allocated := wrap64 (pt_allocated p + node_allocated n),
                  pt_total := wrap64 (pt_total p + node_total n),
                  pt_memory := wrap64 (pt_memory p + node_memory n)\<rparr>))"

fun add_partition_nodes :: "node list \<Rightarrow> partition_view \<Rightarrow> snapshot_error + partition_view" where
  "add_partition_nodes [] p = Inr p"
| "add_partition_nodes (n # ns) p =
     sum_bind (add_partition_resources n
         (if node_online n then p\<lparr>pt_online := pt_online p + 1\<rparr> else p))
       (add_partition_nodes ns)"

definition view_partition :: "string \<times> (string \<times> node) list \<Rightarrow> snapshot_error + partition_view" where
  "view_partition = (\<lambda>(name, ns).
     sum_bind (add_partition_nodes (map snd ns)
       \<lparr>pt_name = name, pt_nodes = length ns, pt_online = 0, pt_allocated = 0, pt_total = 0,
        pt_memory = 0, pt_utilization = 0\<rparr>) (\<lambda>p.
       Inr (if pt_total p > 0 then p\<lparr>pt_utilization := percentage (pt_allocated p) (pt_total p)\<rparr> else p)))"

definition aggregate_partitions :: "node list \<Rightarrow> snapshot_error + partition_view list" where
  "aggregate_partitions ns =
     sum_bind (group_partition_nodes ns []) (\<lambda>m.
     sum_bind (map_sum_list view_partition m) (\<lambda>ps. Inr (sort_key pt_name ps)))"

section \<open>The dashboard\<close>

record metrics =
  online_nodes :: nat
  cpu_usage :: int
  running_jobs :: nat
  queued_jobs :: nat

fun unique_nodes :: "node list \<Rightarrow> (string \<times> node) list \<Rightarrow> snapshot_error + (string \<times> node) list" where
  "unique_nodes [] m = Inr m"
| "unique_nodes (n # ns) m =
     (case map_of m (node_name n) of
        Some existing \<Rightarrow>
          if node_state existing \<noteq> node_state n \<or> node_allocated existing \<noteq> node_allocated n
             \<or> node_total existing \<noteq> node_total n \<or> node_online existing \<noteq> node_online n
          then Inl (MetricsConflict (node_name n)) else unique_nodes ns m
      | None \<Rightarrow> unique_nodes ns (AList.update (node_name n) n m))"

definition go_div :: "int \<Rightarrow> int \<Rightarrow> int" where
  \<comment> \<open>Go's division by a positive number, which truncates\<close>
  "go_div a b = (if a < 0 then - ((- a) div b) else a div b)"

definition aggregate_metrics ::
  "(string \<Rightarrow> string) \<Rightarrow> node list \<Rightarrow> string list \<Rightarrow> snapshot_error + metrics" where
  \<comment> \<open>\<open>upper\<close> is \<open>strings.ToUpper\<close>; of the jobs only their states are used\<close>
  "aggregate_metrics upper ns states =
     sum_bind (unique_nodes ns []) (\<lambda>m.
       let online = filter node_online (map snd m);
           all_cpus = fold (\<lambda>n t. wrap64 (t + node_total n)) online 0;
           used = fold (\<lambda>n t. wrap64 (t + node_allocated n)) online 0
       in Inr \<lparr>online_nodes = length online,
               cpu_usage = (if all_cpus > 0
                 then go_div (wrap64 (wrap64 (used * 100) + all_cpus div 2)) all_cpus else 0),
               running_jobs = length (filter (\<lambda>s. upper s = ''RUNNING'') states),
               queued_jobs = length (filter (\<lambda>s. upper s = ''PENDING'') states)\<rparr>)"

section \<open>What the snapshot holds\<close>

definition entries :: "(string \<Rightarrow> string) \<Rightarrow> node_record list \<Rightarrow> node list" where
  "entries lower rs = concat (map (\<lambda>r. map (node_of lower r) (rec_names r)) rs)"

definition maps_ok :: "node list \<Rightarrow> node_maps \<Rightarrow> bool" where
  "maps_ok es m \<longleftrightarrow>
     partition_nodes m = es
   \<and> distinct (map fst (nodes_by_name m)) \<and> fst ` set (nodes_by_name m) = node_name ` set es
   \<and> (\<forall>e \<in> set es. \<exists>x. map_of (nodes_by_name m) (node_name e) = Some x \<and> node_details x = node_details e)
   \<and> (\<forall>name. distinct (node_partitions m name)
       \<and> set (node_partitions m name) = node_partition ` {e \<in> set es. node_name e = name})"

lemma maps_ok_keys: "maps_ok es m \<Longrightarrow> fst ` set (nodes_by_name m) = node_name ` set es"
  unfolding maps_ok_def by blast

lemma maps_ok_found:
  assumes "maps_ok es m" and "e \<in> set es"
  obtains x where "map_of (nodes_by_name m) (node_name e) = Some x" "node_details x = node_details e"
  using assms unfolding maps_ok_def by blast

lemma node_details_name: "node_details x = node_details y \<Longrightarrow> node_name x = node_name y"
  by (simp add: node_details_def) (metis node.select_convs(1) node.surjective node.update_convs(2))

lemma add_node_names:
  assumes "add_node n m = Inr m'"
  shows "map_of (nodes_by_name m') = (map_of (nodes_by_name m))(node_name n \<mapsto>
        case map_of (nodes_by_name m) (node_name n) of None \<Rightarrow> n | Some x \<Rightarrow> x)" (is ?update)
    and "distinct (map fst (nodes_by_name m)) \<Longrightarrow> distinct (map fst (nodes_by_name m'))"
    and "\<forall>x. map_of (nodes_by_name m) (node_name n) = Some x \<longrightarrow> node_details x = node_details n"
      (is ?same)
proof -
  have "?update \<and> (distinct (map fst (nodes_by_name m)) \<longrightarrow> distinct (map fst (nodes_by_name m'))) \<and> ?same"
  proof (cases "map_of (nodes_by_name m) (node_name n)")
    case None
    then have eq: "nodes_by_name m' = AList.update (node_name n) n (nodes_by_name m)"
      using assms unfolding add_node_def Let_def by (simp only: option.case sum.inject) auto
    show ?thesis unfolding eq None update_conv' option.case by (simp add: distinct_update)
  next
    case (Some x)
    then have eq: "nodes_by_name m' = nodes_by_name m" "node_details x = node_details n"
      using assms unfolding add_node_def Let_def by (simp_all only: option.case split: if_split_asm) auto
    have "(map_of (nodes_by_name m))(node_name n \<mapsto> x) = map_of (nodes_by_name m)"
      using Some by (metis fun_upd_triv)
    then show ?thesis unfolding eq(1) Some option.case using eq(2) by simp
  qed
  then show ?update "distinct (map fst (nodes_by_name m)) \<Longrightarrow> distinct (map fst (nodes_by_name m'))" ?same
    by simp_all
qed

lemma add_node_ok:
  assumes "add_node n m = Inr m'" and ok: "maps_ok es m"
  shows "maps_ok (es @ [n]) m'"
proof -
  let ?ps = "List.insert (node_partition n) (node_partitions m (node_name n))"
  have m': "partition_nodes m' = partition_nodes m @ [n]"
      "partitions_by_node m' = AList.update (node_name n) ?ps (partitions_by_node m)"
    using assms(1) by (auto simp: add_node_def Let_def split: option.split_asm if_split_asm)
  have parts: "node_partitions m' name = (if name = node_name n then ?ps else node_partitions m name)" for name
    by (simp add: node_partitions_def m'(2) update_conv')
  have dist: "distinct (map fst (nodes_by_name m))" using ok by (simp add: maps_ok_def)
  note names = add_node_names(1) [OF assms(1)] add_node_names(2) [OF assms(1) dist]
    add_node_names(3) [OF assms(1)]
  have dom: "fst ` set xs = dom (map_of xs)" for xs :: "(string \<times> node) list"
    by (simp add: dom_map_of_conv_image_fst)
  have keys: "fst ` set (nodes_by_name m') = node_name ` set (es @ [n])"
    using ok unfolding maps_ok_def dom names(1) by auto
  have found: "\<exists>x. map_of (nodes_by_name m') (node_name e) = Some x \<and> node_details x = node_details e"
    if "e \<in> set (es @ [n])" for e
  proof (cases "e = n")
    case True
    then show ?thesis using names(1,3) by (auto split: option.split)
  next
    case False
    then have "e \<in> set es" using that by simp
    then obtain x where "map_of (nodes_by_name m) (node_name e) = Some x" "node_details x = node_details e"
      using maps_ok_found [OF ok] by blast
    then show ?thesis unfolding names(1) by (auto split: option.split)
  qed
  show ?thesis
    using ok names(2) keys found m'(1) unfolding maps_ok_def parts by auto
qed

lemma add_nodes_ok:
  "add_nodes ns m = Inr m' \<Longrightarrow> maps_ok es m \<Longrightarrow> maps_ok (es @ ns) m'"
proof (induction ns arbitrary: es m)
  case (Cons n ns)
  then obtain m1 where "add_node n m = Inr m1" "add_nodes ns m1 = Inr m'"
    by (auto simp: sum_bind_Inr)
  then show ?case using Cons.IH [of m1 "es @ [n]"] add_node_ok [of n m m1 es] Cons.prems(2) by simp
qed simp

lemma add_node_records_ok:
  "add_node_records lower rs m = Inr m' \<Longrightarrow> maps_ok es m \<Longrightarrow>
     maps_ok (es @ entries lower rs) m' \<and> (\<forall>r \<in> set rs. check_node_record r = Inr ())"
proof (induction rs arbitrary: es m)
  case (Cons r rs)
  then obtain m1 where m1: "check_node_record r = Inr ()"
      "add_nodes (map (node_of lower r) (rec_names r)) m = Inr m1" "add_node_records lower rs m1 = Inr m'"
    by (auto simp: sum_bind_Inr)
  from Cons.IH [OF m1(3) add_nodes_ok [OF m1(2) Cons.prems(2)]] m1(1) show ?case
    by (simp add: entries_def)
qed (simp add: entries_def)

lemma parse_nodes_ok:
  assumes "parse_nodes lower (Some r) = Inr s"
  obtains m where "maps_ok (entries lower (node_records r)) m"
    and "\<forall>x \<in> set (node_records r). check_node_record x = Inr ()"
    and "s = \<lparr>snap_nodes = map (listed_node m) (sort (map fst (nodes_by_name m))),
           snap_partition_nodes = entries lower (node_records r)\<rparr>"
proof -
  obtain m where m: "add_node_records lower (node_records r)
        \<lparr>nodes_by_name = [], partitions_by_node = [], partition_nodes = []\<rparr> = Inr m"
      "s = \<lparr>snap_nodes = map (listed_node m) (sort (map fst (nodes_by_name m))),
           snap_partition_nodes = partition_nodes m\<rparr>"
    using assms by (auto simp: parse_nodes_def sum_bind_Inr split: if_split_asm)
  have start: "maps_ok [] \<lparr>nodes_by_name = [], partitions_by_node = [], partition_nodes = []\<rparr>"
    by (simp add: maps_ok_def node_partitions_def)
  from add_node_records_ok [OF m(1) start] have "maps_ok (entries lower (node_records r)) m"
    "\<forall>x \<in> set (node_records r). check_node_record x = Inr ()" by simp_all
  then show ?thesis using that m(2) by (simp add: maps_ok_def)
qed

lemma listed_nodes:
  assumes "maps_ok es m" and "ns = map (listed_node m) (sort (map fst (nodes_by_name m)))"
  shows "sorted (map node_name ns)" and "distinct (map node_name ns)"
    and "node_name ` set ns = node_name ` set es"
    and "\<forall>e \<in> set es. \<exists>x \<in> set ns. node_name x = node_name e \<and> node_details x = node_details e"
    and "\<forall>x \<in> set ns. node_partition x = join_str '', '' (sort (node_partitions m (node_name x)))"
proof -
  have names: "map node_name ns = sort (map fst (nodes_by_name m))"
  proof -
    have "node_name (listed_node m name) = name" if key: "name \<in> fst ` set (nodes_by_name m)" for name
    proof -
      obtain e where e: "e \<in> set es" "name = node_name e"
        using key unfolding maps_ok_keys [OF assms(1)] by blast
      then obtain x where "map_of (nodes_by_name m) name = Some x" "node_details x = node_details e"
        using maps_ok_found [OF assms(1) e(1)] by blast
      then show ?thesis using node_details_name [of x e] \<open>name = node_name e\<close> by (simp add: listed_node_def)
    qed
    then show ?thesis unfolding assms(2) map_map by (intro map_idI) simp
  qed
  show "sorted (map node_name ns)" by (simp add: names)
  show "distinct (map node_name ns)" using assms(1) by (simp add: names maps_ok_def)
  have set_names: "set (map node_name ns) = fst ` set (nodes_by_name m)" by (simp add: names)
  then show "node_name ` set ns = node_name ` set es" using maps_ok_keys [OF assms(1)] by simp
  show "\<forall>e \<in> set es. \<exists>x \<in> set ns. node_name x = node_name e \<and> node_details x = node_details e"
  proof
    fix e assume "e \<in> set es"
    then obtain x where x: "map_of (nodes_by_name m) (node_name e) = Some x" "node_details x = node_details e"
      using maps_ok_found [OF assms(1)] by blast
    then have "listed_node m (node_name e) \<in> set ns"
      unfolding assms(2) by (metis dom_map_of_conv_image_fst domI imageI set_map set_sort)
    moreover have "node_details (listed_node m (node_name e)) = node_details e"
      using x by (simp add: listed_node_def node_details_def)
    ultimately show "\<exists>x \<in> set ns. node_name x = node_name e \<and> node_details x = node_details e"
      using node_details_name by blast
  qed
  show "\<forall>x \<in> set ns. node_partition x = join_str '', '' (sort (node_partitions m (node_name x)))"
  proof
    fix x assume "x \<in> set ns"
    then obtain i where i: "i < length ns" "x = ns ! i" by (auto simp: in_set_conv_nth)
    then have "x = listed_node m (sort (map fst (nodes_by_name m)) ! i)" using assms(2) by simp
    moreover have "node_name x = sort (map fst (nodes_by_name m)) ! i"
      using i names by (metis nth_map)
    ultimately show "node_partition x = join_str '', '' (sort (node_partitions m (node_name x)))"
      by (simp add: listed_node_def)
  qed
qed

section \<open>What the partitions hold\<close>

definition sane_node :: "node \<Rightarrow> bool" where
  "sane_node n \<longleftrightarrow> node_name n \<noteq> [] \<and> node_partition n \<noteq> [] \<and> 0 \<le> node_allocated n
     \<and> node_allocated n \<le> node_total n \<and> 0 \<le> node_memory n
     \<and> validate_detail_strings [node_partition n, node_name n] = Inr ()"

definition grouped_ok :: "node list \<Rightarrow> partition_map \<Rightarrow> bool" where
  "grouped_ok es m \<longleftrightarrow>
     distinct (map fst m) \<and> fst ` set m = node_partition ` set es
   \<and> (\<forall>p. distinct (map fst (nodes_of_partition m p))
        \<and> set (nodes_of_partition m p) = (\<lambda>e. (node_name e, e)) ` {e \<in> set es. node_partition e = p})"

definition one_entry :: "node list \<Rightarrow> bool" where
  "one_entry es \<longleftrightarrow> (\<forall>e \<in> set es. \<forall>f \<in> set es.
     node_name e = node_name f \<and> node_partition e = node_partition f \<longrightarrow> e = f)"

lemma nodes_of_partition_update:
  "nodes_of_partition (AList.update p ns m) q = (if q = p then ns else nodes_of_partition m q)"
  by (simp add: nodes_of_partition_def update_conv')

lemma group_partition_nodes_ok:
  assumes "\<forall>n \<in> set ns. sane_node n" and "one_entry (es @ ns)" and "grouped_ok es m"
  shows "\<exists>m'. group_partition_nodes ns m = Inr m' \<and> grouped_ok (es @ ns) m'"
  using assms
proof (induction ns arbitrary: es m)
  case (Cons n ns)
  let ?p = "node_partition n" and ?k = "node_name n"
  have sane: "\<not> (?k = [] \<or> ?p = [])" "validate_detail_strings [?p, ?k] = Inr ()"
      "\<not> (node_total n < 0 \<or> node_allocated n < 0 \<or> node_allocated n > node_total n \<or> node_memory n < 0)"
    using Cons.prems(1) by (auto simp: sane_node_def)
  have inside: "distinct (map fst (nodes_of_partition m ?p))"
      "set (nodes_of_partition m ?p) = (\<lambda>e. (node_name e, e)) ` {e \<in> set es. node_partition e = ?p}"
    using Cons.prems(3) unfolding grouped_ok_def by blast+
  have one: "one_entry ((es @ [n]) @ ns)" using Cons.prems(2) by simp
  have rest: "\<forall>n \<in> set ns. sane_node n" using Cons.prems(1) by simp
  show ?case
  proof (cases "map_of (nodes_of_partition m ?p) ?k")
    case None
    then have new: "?k \<notin> fst ` set (nodes_of_partition m ?p)" by (simp add: map_of_eq_None_iff)
    let ?m = "AList.update ?p (AList.update ?k n (nodes_of_partition m ?p)) m"
    have "grouped_ok (es @ [n]) ?m"
    proof -
      have "distinct (map fst ?m)" "fst ` set ?m = node_partition ` set (es @ [n])"
        using Cons.prems(3) by (auto simp: grouped_ok_def distinct_update dom_update)
      moreover have "distinct (map fst (nodes_of_partition ?m p))" for p
        using Cons.prems(3) by (simp add: grouped_ok_def nodes_of_partition_update distinct_update)
      moreover have "set (nodes_of_partition ?m p)
          = (\<lambda>e. (node_name e, e)) ` {e \<in> set (es @ [n]). node_partition e = p}" for p
      proof (cases "p = ?p")
        case True
        then show ?thesis
          unfolding nodes_of_partition_update update_new [OF new] by (auto simp: inside(2))
      next
        case False
        then have "{e \<in> set (es @ [n]). node_partition e = p} = {e \<in> set es. node_partition e = p}" by auto
        then show ?thesis using False Cons.prems(3) unfolding nodes_of_partition_update grouped_ok_def by simp
      qed
      ultimately show ?thesis unfolding grouped_ok_def by blast
    qed
    from Cons.IH [OF rest one this] show ?thesis using sane None by simp
  next
    case (Some x)
    then have "(?k, x) \<in> set (nodes_of_partition m ?p)" by (rule map_of_SomeD)
    then have x: "x \<in> set es" "node_partition x = ?p" "node_name x = ?k" unfolding inside(2) by auto
    then have "x = n" using Cons.prems(2) by (auto simp: one_entry_def)
    then have "set (es @ [n]) = set es" using x(1) by auto
    then have "grouped_ok (es @ [n]) m" using Cons.prems(3) by (simp add: grouped_ok_def)
    from Cons.IH [OF rest one this] show ?thesis using sane Some \<open>x = n\<close> by simp
  qed
qed simp

lemma sum_filter_le:
  fixes f :: "'a \<Rightarrow> int"
  shows "\<forall>x \<in> set xs. 0 \<le> f x \<Longrightarrow> (\<Sum>x \<leftarrow> filter P xs. f x) \<le> (\<Sum>x \<leftarrow> xs. f x)"
  by (induction xs) auto

definition partition_summary :: "string \<Rightarrow> node list \<Rightarrow> partition_view" where
  "partition_summary name ns =
     (let used = (\<Sum>n \<leftarrow> ns. node_allocated n); all = (\<Sum>n \<leftarrow> ns. node_total n)
      in \<lparr>pt_name = name, pt_nodes = length ns, pt_online = length (filter node_online ns),
          pt_allocated = used, pt_total = all, pt_memory = (\<Sum>n \<leftarrow> ns. node_memory n),
          pt_utilization = (if all > 0 then percentage used all else 0)\<rparr>)"

lemma wrap64_sum: "0 \<le> a \<Longrightarrow> 0 \<le> b \<Longrightarrow> a + b \<le> int64_max \<Longrightarrow> wrap64 (a + b) = a + b"
  by (intro wrap64_id) simp_all

lemma wrap64_room: "0 \<le> a \<Longrightarrow> a \<le> int64_max \<Longrightarrow> wrap64 (int64_max - a) = int64_max - a"
  by (intro wrap64_id) simp_all

lemma add_partition_nodes_sum:
  assumes "\<forall>n \<in> set ns. sane_node n"
    and "0 \<le> pt_allocated p" and "pt_allocated p \<le> pt_total p" and "0 \<le> pt_memory p"
    and "pt_total p + (\<Sum>n \<leftarrow> ns. node_total n) \<le> int64_max"
    and "pt_memory p + (\<Sum>n \<leftarrow> ns. node_memory n) \<le> int64_max"
  shows "add_partition_nodes ns p = Inr (p\<lparr>pt_online := pt_online p + length (filter node_online ns),
      pt_allocated := pt_allocated p + (\<Sum>n \<leftarrow> ns. node_allocated n),
      pt_total := pt_total p + (\<Sum>n \<leftarrow> ns. node_total n),
      pt_memory := pt_memory p + (\<Sum>n \<leftarrow> ns. node_memory n)\<rparr>)"
  using assms
proof (induction ns arbitrary: p)
  case (Cons n ns)
  have n: "0 \<le> node_allocated n" "node_allocated n \<le> node_total n" "0 \<le> node_memory n"
    using Cons.prems(1) by (simp_all add: sane_node_def)
  have rest: "0 \<le> (\<Sum>n \<leftarrow> ns. node_total n)" "0 \<le> (\<Sum>n \<leftarrow> ns. node_memory n)"
    using Cons.prems(1) by (intro sum_list_nonneg; force simp: sane_node_def)+
  let ?p = "if node_online n then p\<lparr>pt_online := pt_online p + 1\<rparr> else p"
  have fields: "pt_allocated ?p = pt_allocated p" "pt_total ?p = pt_total p" "pt_memory ?p = pt_memory p"
    by simp_all
  have fits: "pt_total p + node_total n \<le> int64_max" "pt_memory p + node_memory n \<le> int64_max"
      "pt_allocated p + node_allocated n \<le> int64_max"
    using Cons.prems(2-6) n rest by simp_all
  have guard: "\<not> (node_allocated n > wrap64 (int64_max - pt_allocated p)
      \<or> node_total n > wrap64 (int64_max - pt_total p)
      \<or> node_memory n > wrap64 (int64_max - pt_memory p))"
    using Cons.prems(2-4) n fits by (simp add: wrap64_room)
  have "add_partition_resources n ?p = Inr (?p\<lparr>pt_allocated := pt_allocated p + node_allocated n,
      pt_total := pt_total p + node_total n, pt_memory := pt_memory p + node_memory n\<rparr>)"
    unfolding add_partition_resources_def fields if_not_P [OF guard]
    using Cons.prems(2-4) n fits by (simp add: wrap64_sum)
  moreover have "add_partition_nodes ns (?p\<lparr>pt_allocated := pt_allocated p + node_allocated n,
      pt_total := pt_total p + node_total n, pt_memory := pt_memory p + node_memory n\<rparr>)
    = Inr (?p\<lparr>pt_online := pt_online ?p + length (filter node_online ns),
        pt_allocated := pt_allocated p + node_allocated n + (\<Sum>n \<leftarrow> ns. node_allocated n),
        pt_total := pt_total p + node_total n + (\<Sum>n \<leftarrow> ns. node_total n),
        pt_memory := pt_memory p + node_memory n + (\<Sum>n \<leftarrow> ns. node_memory n)\<rparr>)"
    using Cons.IH [of "?p\<lparr>pt_allocated := pt_allocated p + node_allocated n,
      pt_total := pt_total p + node_total n, pt_memory := pt_memory p + node_memory n\<rparr>"]
      Cons.prems n by simp
  ultimately show ?case by (simp add: add.assoc)
qed simp

lemma view_partition_sum:
  assumes "\<forall>e \<in> set ns. sane_node (snd e)"
    and "(\<Sum>e \<leftarrow> ns. node_total (snd e)) \<le> int64_max" and "(\<Sum>e \<leftarrow> ns. node_memory (snd e)) \<le> int64_max"
  shows "view_partition (name, ns) = Inr (partition_summary name (map snd ns))"
  using assms add_partition_nodes_sum [of "map snd ns" "\<lparr>pt_name = name, pt_nodes = length ns,
      pt_online = 0, pt_allocated = 0, pt_total = 0, pt_memory = 0, pt_utilization = 0\<rparr>"]
  by (simp add: view_partition_def partition_summary_def Let_def comp_def)

text \<open>Two lists of entries for the same nodes have the same figures.\<close>

lemma same_details:
  assumes "distinct (map node_name xs)" and "distinct (map node_name ys)"
    and "node_name ` set xs = node_name ` set ys"
    and "\<forall>x \<in> set xs. \<forall>y \<in> set ys. node_name x = node_name y \<longrightarrow> node_details x = node_details y"
  shows "mset (map node_details xs) = mset (map node_details ys)"
proof -
  have details: "distinct (map node_details zs)" if zs: "distinct (map node_name zs)" for zs
  proof -
    have "inj_on node_details (set zs)"
    proof (rule inj_onI)
      fix x y assume "x \<in> set zs" "y \<in> set zs" "node_details x = node_details y"
      with zs show "x = y"
        using node_details_name [of x y] unfolding distinct_map by (blast dest: inj_onD)
    qed
    then show ?thesis using zs by (simp add: distinct_map)
  qed
  have "node_details ` set xs = node_details ` set ys"
  proof (intro equalityI subsetI)
    fix d assume "d \<in> node_details ` set xs"
    then obtain x where x: "x \<in> set xs" "d = node_details x" by blast
    then obtain y where "y \<in> set ys" "node_name x = node_name y" using assms(3) by (metis imageE imageI)
    then show "d \<in> node_details ` set ys" using x assms(4) by auto
  next
    fix d assume "d \<in> node_details ` set ys"
    then obtain y where y: "y \<in> set ys" "d = node_details y" by blast
    then obtain x where "x \<in> set xs" "node_name x = node_name y" using assms(3) by (metis imageE imageI)
    then show "d \<in> node_details ` set xs" using y assms(4) by (metis imageI)
  qed
  then show ?thesis
    using set_eq_iff_mset_eq_distinct [OF details [OF assms(1)] details [OF assms(2)]] by simp
qed

lemma partition_summary_details: "partition_summary name (map node_details ns) = partition_summary name ns"
  by (simp add: partition_summary_def comp_def filter_map) (simp add: node_details_def)

lemma partition_summary_mset: "mset xs = mset ys \<Longrightarrow> partition_summary name xs = partition_summary name ys"
proof -
  assume eq: "mset xs = mset ys"
  have "length (filter node_online xs) = length (filter node_online ys)"
    by (metis eq mset_filter size_mset)
  moreover have "length xs = length ys" by (metis eq size_mset)
  moreover have "(\<Sum>n \<leftarrow> xs. f n) = (\<Sum>n \<leftarrow> ys. f n)" for f :: "node \<Rightarrow> int"
    by (metis eq mset_map sum_mset_sum_list)
  ultimately show ?thesis unfolding partition_summary_def by presburger
qed

definition in_partition :: "node_record list \<Rightarrow> string \<Rightarrow> string \<Rightarrow> bool" where
  "in_partition rs p name \<longleftrightarrow> (\<exists>r \<in> set rs. rec_partition r = p \<and> name \<in> set (rec_names r))"

lemma set_entries: "set (entries lower rs) = {node_of lower r name | r name. r \<in> set rs \<and> name \<in> set (rec_names r)}"
  by (auto simp: entries_def)

lemma entry_in_partition:
  "in_partition rs p name \<longleftrightarrow> (\<exists>e \<in> set (entries lower rs). node_partition e = p \<and> node_name e = name)"
proof -
  have "node_partition (node_of lower r n) = rec_partition r" "node_name (node_of lower r n) = n" for r n
    by (simp_all add: node_of_def)
  then show ?thesis unfolding in_partition_def set_entries by fastforce
qed

lemma node_details_figures:
  "node_details x = node_details y \<Longrightarrow> node_total x = node_total y"
  "node_details x = node_details y \<Longrightarrow> node_memory x = node_memory y"
  "node_details x = node_details y \<Longrightarrow> node_allocated x = node_allocated y"
  by (cases x; cases y; simp add: node_details_def)+

lemma one_entry_maps:
  assumes "maps_ok es m"
  shows "one_entry ([] @ es)"
  unfolding one_entry_def
proof (intro ballI impI)
  fix e f assume e: "e \<in> set ([] @ es)" and f: "f \<in> set ([] @ es)"
    and same: "node_name e = node_name f \<and> node_partition e = node_partition f"
  have e': "e \<in> set es" "f \<in> set es" using e f by simp_all
  obtain x where "map_of (nodes_by_name m) (node_name e) = Some x" "node_details x = node_details e"
    using maps_ok_found [OF assms e'(1)] .
  moreover obtain y where "map_of (nodes_by_name m) (node_name f) = Some y" "node_details y = node_details f"
    using maps_ok_found [OF assms e'(2)] .
  ultimately have "node_details e = node_details f" using same by simp
  then show "e = f" using same by (cases e; cases f) (simp add: node_details_def)
qed

lemma listed_from:
  assumes "maps_ok es m" and "ns = map (listed_node m) (sort (map fst (nodes_by_name m)))" and "n \<in> set ns"
  shows "\<exists>e \<in> set es. node_details n = node_details e"
proof -
  note listed = listed_nodes [OF assms(1,2)]
  obtain e where e: "e \<in> set es" "node_name e = node_name n" using listed(3) assms(3) by (metis imageE imageI)
  then obtain z where "z \<in> set ns" "node_name z = node_name n" "node_details z = node_details e"
    using listed(4) by metis
  moreover from this have "z = n" using assms(3) listed(2) by (simp add: distinct_map inj_on_def)
  ultimately show ?thesis using e(1) by blast
qed

lemma view_of_group:
  assumes maps: "maps_ok (entries lower rs) m"
    and ns: "ns = map (listed_node m) (sort (map fst (nodes_by_name m)))"
    and sane: "\<forall>e \<in> set (entries lower rs). sane_node e"
    and grouped: "grouped_ok (entries lower rs) g" and e: "e \<in> set g"
    and fits: "(\<Sum>n \<leftarrow> ns. node_total n) \<le> int64_max" "(\<Sum>n \<leftarrow> ns. node_memory n) \<le> int64_max"
  shows "view_partition e = Inr (partition_summary (fst e)
      (filter (\<lambda>n. in_partition rs (fst e) (node_name n)) ns))"
proof -
  let ?es = "entries lower rs" and ?members = "filter (\<lambda>n. in_partition rs (fst e) (node_name n)) ns"
  note listed = listed_nodes [OF maps ns]
  obtain p gs where p: "e = (p, gs)" by (cases e)
  have "map_of g p = Some gs" using e grouped by (simp add: p grouped_ok_def)
  then have "nodes_of_partition g p = gs" by (simp add: nodes_of_partition_def)
  then have gs: "distinct (map fst gs)" "set gs = (\<lambda>e. (node_name e, e)) ` {e \<in> set ?es. node_partition e = p}"
    using grouped unfolding grouped_ok_def by blast+
  have in_gs: "snd ` set gs = {e \<in> set ?es. node_partition e = p}" by (simp add: gs(2) image_image)
  have "map fst gs = map node_name (map snd gs)" using gs(2) by auto
  then have dist: "distinct (map node_name (map snd gs))" using gs(1) by argo
  have sub: "distinct (map node_name ?members)" using listed(2) by (simp add: distinct_map inj_on_def)
  have names: "node_name ` set (map snd gs) = node_name ` set ?members"
  proof -
    have "node_name ` set (map snd gs) = {name. in_partition rs p name}"
      by (auto simp: in_gs entry_in_partition [of _ _ _ lower])
    moreover have "node_name ` set ?members = {name. in_partition rs p name}"
      using listed(3) by (auto simp: p entry_in_partition [of _ _ _ lower] image_iff)
    ultimately show ?thesis by simp
  qed
  have details: "\<forall>x \<in> set (map snd gs). \<forall>y \<in> set ?members. node_name x = node_name y \<longrightarrow> node_details x = node_details y"
  proof (intro ballI impI)
    fix x y assume x: "x \<in> set (map snd gs)" and y: "y \<in> set ?members" and xy: "node_name x = node_name y"
    have "x \<in> set ?es" using x by (simp add: in_gs)
    then obtain z where z: "z \<in> set ns" "node_name z = node_name x" "node_details z = node_details x"
      using listed(4) by blast
    then have "z = y" using y xy listed(2) by (simp add: distinct_map inj_on_def)
    then show "node_details x = node_details y" using z by simp
  qed
  have same: "mset (map node_details (map snd gs)) = mset (map node_details ?members)"
    by (rule same_details [OF dist sub names details])
  have "\<forall>n \<in> set ns. 0 \<le> node_total n \<and> 0 \<le> node_memory n"
    using listed_from [OF maps ns] sane node_details_figures unfolding sane_node_def
    by (metis order_trans)
  then have le: "(\<Sum>n \<leftarrow> ?members. node_total n) \<le> int64_max" "(\<Sum>n \<leftarrow> ?members. node_memory n) \<le> int64_max"
    using order_trans [OF sum_filter_le fits(1)] order_trans [OF sum_filter_le fits(2)] by simp_all
  have sums: "(\<Sum>e \<leftarrow> gs. node_total (snd e)) = (\<Sum>n \<leftarrow> ?members. node_total n)"
    "(\<Sum>e \<leftarrow> gs. node_memory (snd e)) = (\<Sum>n \<leftarrow> ?members. node_memory n)"
    using partition_summary_mset [OF same, of p] unfolding partition_summary_details
    by (simp_all add: partition_summary_def Let_def comp_def)
  have "view_partition (p, gs) = Inr (partition_summary p (map snd gs))"
  proof (rule view_partition_sum)
    show "\<forall>e \<in> set gs. sane_node (snd e)" using in_gs sane by blast
  qed (use sums le in simp_all)
  also have "partition_summary p (map snd gs) = partition_summary p ?members"
    using partition_summary_mset [OF same, of p] unfolding partition_summary_details .
  finally show ?thesis by (simp add: p)
qed

section \<open>Properties\<close>

lemma checked_entries_sane:
  assumes "\<forall>r \<in> set rs. check_node_record r = Inr () \<and> [] \<notin> set (rec_names r)"
  shows "\<forall>e \<in> set (entries lower rs). sane_node e"
proof
  fix e assume "e \<in> set (entries lower rs)"
  then obtain r name where e: "r \<in> set rs" "name \<in> set (rec_names r)" "e = node_of lower r name"
    by (auto simp: set_entries)
  then have r: "check_node_record r = Inr ()" "name \<noteq> []" using assms by auto
  then have "\<forall>v \<in> set (rec_partition r # rec_gres r # rec_names r @ rec_states r).
      length v \<le> max_detail_length \<and> \<not> has_control v"
    unfolding validate_detail_strings_iff [symmetric]
    by (auto simp: check_node_record_def split: if_split_asm sum.split_asm)
  then have "validate_detail_strings [rec_partition r, name] = Inr ()"
    using e(2) unfolding validate_detail_strings_iff by simp
  then show "sane_node e"
    using r e(3) by (auto simp: sane_node_def node_of_def check_node_record_def split: if_split_asm)
qed

lemma map_sum_list_Inr: "\<forall>x \<in> set xs. f x = Inr (g x) \<Longrightarrow> map_sum_list f xs = Inr (map g xs)"
  by (induction xs) simp_all

lemma distinct_sort_names: "distinct (map f xs) \<Longrightarrow> distinct (map f (sort_key f xs))"
proof -
  have "mset (map f (sort_key f xs)) = mset (map f xs)" by simp
  then show "distinct (map f xs) \<Longrightarrow> distinct (map f (sort_key f xs))"
    using mset_eq_imp_distinct_iff by blast
qed

lemma listed_figures:
  assumes "maps_ok (entries lower (node_records r)) m"
    and "\<forall>x \<in> set (node_records r). check_node_record x = Inr ()"
    and "snap_nodes s = map (listed_node m) (sort (map fst (nodes_by_name m)))"
    and "n \<in> set (snap_nodes s)"
  shows "0 \<le> node_allocated n" and "node_allocated n \<le> node_total n"
proof -
  obtain e where e: "e \<in> set (entries lower (node_records r))" "node_details n = node_details e"
    using listed_from [OF assms(1,3,4)] by blast
  then obtain x name where x: "x \<in> set (node_records r)" "e = node_of lower x name"
    unfolding set_entries by blast
  have "check_node_record x = Inr ()" using assms(2) x(1) by blast
  then have "\<not> (rec_total x \<le> 0 \<or> rec_allocated x < 0 \<or> rec_allocated x > rec_total x)"
    unfolding check_node_record_def by (simp split: if_split_asm)
  then have "0 \<le> node_allocated e" "node_allocated e \<le> node_total e"
    by (simp_all add: x(2) node_of_def)
  then show "0 \<le> node_allocated n" and "node_allocated n \<le> node_total n"
    using node_details_figures [OF e(2)] by simp_all
qed

lemma in_partition_total:
  assumes "parse_nodes lower (Some r) = Inr s"
    and "ns = filter (\<lambda>n. in_partition (node_records r) p (node_name n)) (snap_nodes s)"
  shows "0 \<le> (\<Sum>n \<leftarrow> ns. node_allocated n)" and "(\<Sum>n \<leftarrow> ns. node_allocated n) \<le> (\<Sum>n \<leftarrow> ns. node_total n)"
proof -
  obtain m where maps: "maps_ok (entries lower (node_records r)) m"
    and checked: "\<forall>x \<in> set (node_records r). check_node_record x = Inr ()"
    and s: "snap_nodes s = map (listed_node m) (sort (map fst (nodes_by_name m)))"
    using parse_nodes_ok [OF assms(1)] by (metis node_snapshot.select_convs(1))
  note figures = listed_figures [OF maps checked s]
  show "0 \<le> (\<Sum>n \<leftarrow> ns. node_allocated n)" "(\<Sum>n \<leftarrow> ns. node_allocated n) \<le> (\<Sum>n \<leftarrow> ns. node_total n)"
    unfolding assms(2) using figures by (auto intro!: sum_list_nonneg sum_list_mono)
qed

text \<open>
  C9. The partitions add up from the nodes. Whenever the snapshot is accepted, no node has an empty name
  and the totals of the cluster fit into 64 bits, the client has a list of the partitions:
  every partition that a record names once, in order, and the figures of each are
  those of exactly its members in the list of the nodes, each counted once however often
  and with whatever further partitions Slurm listed it. The share of the CPUs in use, which
  the code computes with floating-point numbers, is the nearest whole percentage as long as
  the partition has less than \<open>2 ^ 46\<close> CPUs.
\<close>

theorem partitions_add_up:
  assumes "parse_nodes lower (Some r) = Inr s"
    and "\<forall>x \<in> set (node_records r). [] \<notin> set (rec_names x)"
    and "(\<Sum>n \<leftarrow> snap_nodes s. node_total n) \<le> int64_max"
    and "(\<Sum>n \<leftarrow> snap_nodes s. node_memory n) \<le> int64_max"
  shows "\<exists>ps. aggregate_partitions (snap_partition_nodes s) = Inr ps
    \<and> sorted (map pt_name ps) \<and> distinct (map pt_name ps)
    \<and> set (map pt_name ps) = rec_partition ` set (node_records r)
    \<and> (\<forall>p \<in> set ps. p = partition_summary (pt_name p)
        (filter (\<lambda>n. in_partition (node_records r) (pt_name p) (node_name n)) (snap_nodes s))
      \<and> (0 < pt_total p \<and> pt_total p < 2 ^ 46 \<longrightarrow>
        pt_utilization p = nearest_percent (pt_allocated p) (pt_total p)))"
proof -
  let ?es = "entries lower (node_records r)"
  obtain m where maps: "maps_ok ?es m"
    and checked: "\<forall>x \<in> set (node_records r). check_node_record x = Inr ()"
    and s: "snap_nodes s = map (listed_node m) (sort (map fst (nodes_by_name m)))" "snap_partition_nodes s = ?es"
    using parse_nodes_ok [OF assms(1)] by (metis node_snapshot.select_convs)
  note listed = listed_nodes [OF maps s(1)]
  have sane: "\<forall>e \<in> set ?es. sane_node e" using checked_entries_sane checked assms(2) by blast
  have one: "one_entry ([] @ ?es)" by (rule one_entry_maps [OF maps])
  obtain g where g: "group_partition_nodes ?es [] = Inr g" "grouped_ok ?es g"
    using group_partition_nodes_ok [OF sane one] by (auto simp: grouped_ok_def nodes_of_partition_def)
  have view: "view_partition e = Inr (partition_summary (fst e)
      (filter (\<lambda>n. in_partition (node_records r) (fst e) (node_name n)) (snap_nodes s)))"
    if "e \<in> set g" for e
    by (rule view_of_group [OF maps s(1) sane g(2) that assms(3,4)])
  let ?f = "\<lambda>e. partition_summary (fst e)
      (filter (\<lambda>n. in_partition (node_records r) (fst e) (node_name n)) (snap_nodes s))"
  have agg: "aggregate_partitions (snap_partition_nodes s) = Inr (sort_key pt_name (map ?f g))"
    using map_sum_list_Inr [of g view_partition ?f] view by (simp add: aggregate_partitions_def s(2) g(1))
  have name: "pt_name (partition_summary n ns) = n" for n ns by (simp add: partition_summary_def Let_def)
  have names: "set (map pt_name (map ?f g)) = rec_partition ` set (node_records r)"
  proof -
    have "node_partition ` set ?es = rec_partition ` set (node_records r)"
    proof -
      have named: "hd (rec_names x) \<in> set (rec_names x)" if "x \<in> set (node_records r)" for x
      proof -
        have "check_node_record x = Inr ()" using checked that by blast
        then have "rec_names x \<noteq> []" by (auto simp: check_node_record_def)
        then show ?thesis by (rule hd_in_set)
      qed
      have "rec_partition ` set (node_records r) = {p. \<exists>name. in_partition (node_records r) p name}"
        unfolding in_partition_def using named by blast
      also have "\<dots> = node_partition ` set ?es"
        unfolding entry_in_partition [of _ _ _ lower] by blast
      finally show ?thesis by (rule sym)
    qed
    then show ?thesis using g(2) by (simp add: name image_image grouped_ok_def)
  qed
  have "distinct (map pt_name (map ?f g))" using g(2) by (simp add: name comp_def grouped_ok_def)
  then have "distinct (map pt_name (sort_key pt_name (map ?f g)))"
    by (rule distinct_sort_names)
  moreover have "set (map pt_name (sort_key pt_name (map ?f g))) = rec_partition ` set (node_records r)"
    using names by (simp only: set_map set_sort)
  moreover have "sorted (map pt_name (sort_key pt_name (map ?f g)))" by simp
  moreover have "\<forall>p \<in> set (sort_key pt_name (map ?f g)). p = partition_summary (pt_name p)
        (filter (\<lambda>n. in_partition (node_records r) (pt_name p) (node_name n)) (snap_nodes s))"
    by (simp add: name)
  moreover have "pt_utilization p = nearest_percent (pt_allocated p) (pt_total p)"
    if p: "p = partition_summary q (filter (\<lambda>n. in_partition (node_records r) q (node_name n)) (snap_nodes s))"
      and "0 < pt_total p" "pt_total p < 2 ^ 46" for p q
    using that(2,3) percentage_exact in_partition_total [OF assms(1) refl, of q]
    unfolding p by (simp add: partition_summary_def Let_def)
  ultimately show ?thesis using agg by blast
qed

text \<open>The integer formula of the dashboard rounds to the nearest percentage, too.\<close>

lemma percentage_of_sums: "0 < t \<Longrightarrow> (a * 100 + t div 2) div t = nearest_percent a t"
proof -
  assume "0 < t"
  have "(200 * a + t) div 2 = a * 100 + t div 2" by simp
  then show ?thesis using zdiv_zmult2_eq [of t "200 * a + t" 2] \<open>0 < t\<close> by (simp add: nearest_percent_def)
qed

lemma nearest_percent_bounds:
  assumes "0 \<le> a" and "a \<le> t" and "0 < t"
  shows "0 \<le> nearest_percent a t \<and> nearest_percent a t \<le> 100"
proof -
  have "nearest_percent a t \<le> (200 * t + t) div (2 * t)"
    unfolding nearest_percent_def using assms by (intro zdiv_mono1) simp_all
  also have "(200 * t + t) div (2 * t) = 100"
    using assms(3) by (simp add: div_add1_eq)
  finally show ?thesis using assms by (simp add: nearest_percent_def pos_imp_zdiv_nonneg_iff)
qed

lemma unique_nodes_distinct:
  "distinct (map node_name ns) \<Longrightarrow> node_name ` set ns \<inter> fst ` set m = {} \<Longrightarrow>
     unique_nodes ns m = Inr (m @ map (\<lambda>n. (node_name n, n)) ns)"
proof (induction ns arbitrary: m)
  case (Cons n ns)
  then have new: "node_name n \<notin> fst ` set m" by auto
  then have "map_of m (node_name n) = None" by (simp add: map_of_eq_None_iff)
  then show ?case using Cons new by (simp add: update_new)
qed simp

lemma fold_wrapped_sum:
  "\<forall>n \<in> set ns. 0 \<le> f n \<Longrightarrow> 0 \<le> t \<Longrightarrow> t + (\<Sum>n \<leftarrow> ns. f n) \<le> int64_max \<Longrightarrow>
     fold (\<lambda>n t. wrap64 (t + f n)) ns t = t + (\<Sum>n \<leftarrow> ns. f n)"
proof (induction ns arbitrary: t)
  case (Cons n ns)
  have "0 \<le> (\<Sum>n \<leftarrow> ns. f n)" using Cons.prems(1) by (intro sum_list_nonneg) auto
  then have "wrap64 (t + f n) = t + f n" using Cons.prems by (intro wrap64_sum) simp_all
  then show ?case using Cons by simp
qed simp

text \<open>
  C18. The dashboard agrees with the nodes. For every accepted snapshot of a cluster with at most
  \<open>10 ^ 16\<close> CPUs the dashboard has figures: the number of nodes that the list of the nodes
  has as online, and the share of their CPUs that is allocated as the nearest whole percentage,
  never above 100. With less than \<open>2 ^ 46\<close> CPUs this is the share that the client would give for
  a partition of those nodes, although one is computed with integers and the other with
  floating-point numbers.
\<close>

theorem dashboard_agrees:
  assumes "parse_nodes lower (Some r) = Inr s"
    and "online = filter node_online (snap_nodes s)"
    and "(\<Sum>n \<leftarrow> snap_nodes s. node_total n) \<le> 10 ^ 16"
    and "used = (\<Sum>n \<leftarrow> online. node_allocated n)" and "all = (\<Sum>n \<leftarrow> online. node_total n)"
  shows "\<exists>m. aggregate_metrics upper (snap_nodes s) states = Inr m
    \<and> online_nodes m = length online
    \<and> cpu_usage m = (if 0 < all then nearest_percent used all else 0)
    \<and> 0 \<le> cpu_usage m \<and> cpu_usage m \<le> 100
    \<and> (all < 2 ^ 46 \<longrightarrow> cpu_usage m = pt_utilization (partition_summary [] online))"
proof -
  obtain m where maps: "maps_ok (entries lower (node_records r)) m"
    and checked: "\<forall>x \<in> set (node_records r). check_node_record x = Inr ()"
    and s: "snap_nodes s = map (listed_node m) (sort (map fst (nodes_by_name m)))"
    using parse_nodes_ok [OF assms(1)] by (metis node_snapshot.select_convs(1))
  note figures = listed_figures [OF maps checked s]
  have "all \<le> 10 ^ 16"
    unfolding assms(2,5) using figures by (intro order_trans [OF sum_filter_le assms(3)]) (auto intro: order_trans)
  moreover have "used \<le> all" "0 \<le> used"
    unfolding assms(2,4,5) using figures by (auto intro!: sum_list_mono sum_list_nonneg)
  ultimately have bounds: "0 \<le> used" "used \<le> all" "all \<le> 10 ^ 16" by simp_all
  have online: "\<forall>n \<in> set online. 0 \<le> node_total n" "\<forall>n \<in> set online. 0 \<le> node_allocated n"
    unfolding assms(2) using figures by (auto intro: order_trans)
  have sums: "fold (\<lambda>n t. wrap64 (t + node_total n)) online 0 = all"
    "fold (\<lambda>n t. wrap64 (t + node_allocated n)) online 0 = used"
    using fold_wrapped_sum [OF online(1), of 0] fold_wrapped_sum [OF online(2), of 0] bounds
    by (simp_all add: int64_max_def assms(4,5))
  have wraps: "wrap64 (used * 100) = used * 100" "wrap64 (used * 100 + all div 2) = used * 100 + all div 2"
    using bounds by (intro wrap64_id; simp add: int64_max_def)+
  have nonneg: "\<not> used * 100 + all div 2 < 0" using bounds by (simp add: not_less)
  have unique: "unique_nodes (snap_nodes s) [] = Inr (map (\<lambda>n. (node_name n, n)) (snap_nodes s))"
    using unique_nodes_distinct [of "snap_nodes s" "[]"] listed_nodes(2) [OF maps s] by simp
  define share where "share = (if 0 < all then nearest_percent used all else 0)"
  have usage: "(if all > 0 then go_div (wrap64 (wrap64 (used * 100) + all div 2)) all else 0) = share"
    using bounds nonneg percentage_of_sums [of all used] by (simp add: wraps go_div_def share_def)
  have "0 \<le> share" "share \<le> 100"
    using nearest_percent_bounds [of used all] bounds by (auto simp: share_def)
  moreover have "all < 2 ^ 46 \<longrightarrow> share = pt_utilization (partition_summary [] online)"
    using percentage_exact [of used all] bounds
    by (auto simp: share_def partition_summary_def Let_def assms(4,5))
  moreover have "aggregate_metrics upper (snap_nodes s) states =
      Inr \<lparr>online_nodes = length online, cpu_usage = share,
           running_jobs = length (filter (\<lambda>s. upper s = ''RUNNING'') states),
           queued_jobs = length (filter (\<lambda>s. upper s = ''PENDING'') states)\<rparr>"
    by (simp only: aggregate_metrics_def unique sum_bind_simps map_map Let_def comp_def snd_conv
        map_ident assms(2) [symmetric] sums usage)
  ultimately show ?thesis by (auto simp: share_def)
qed

definition example_records :: "node_record list" where
  "example_records =
     [\<lparr>rec_names = [''n1'', ''n2''], rec_partition = ''cpu'', rec_states = [''idle''], rec_allocated = 1,
       rec_total = 4, rec_memory = 100, rec_gres = []\<rparr>,
      \<lparr>rec_names = [''n1''], rec_partition = ''all'', rec_states = [''idle''], rec_allocated = 1,
       rec_total = 4, rec_memory = 100, rec_gres = []\<rparr>]"

definition example_snapshot :: node_snapshot where
  "example_snapshot = projr (parse_nodes (\<lambda>s. s) (Some \<lparr>node_errors = 0, node_records = example_records\<rparr>))"

lemma example_parsed_nodes:
  "parse_nodes (\<lambda>s. s) (Some \<lparr>node_errors = 0, node_records = example_records\<rparr>) = Inr example_snapshot"
  "map node_partition (snap_nodes example_snapshot) = [''all, cpu'', ''cpu'']"
  "(\<Sum>n \<leftarrow> snap_nodes example_snapshot. node_total n) = 8"
  "(\<Sum>n \<leftarrow> snap_nodes example_snapshot. node_memory n) = 200"
  "(\<Sum>n \<leftarrow> filter node_online (snap_nodes example_snapshot). node_total n) = 8"
  by code_simp+

theorem partitions_add_up_witness:
  "\<exists>ps. aggregate_partitions (snap_partition_nodes example_snapshot) = Inr ps
     \<and> set (map pt_name ps) = {''all'', ''cpu''}"
  using partitions_add_up [OF example_parsed_nodes(1)]
  by (simp add: example_parsed_nodes(3,4) int64_max_def) (auto simp: example_records_def)

theorem dashboard_agrees_witness:
  "\<exists>m. aggregate_metrics (\<lambda>s. s) (snap_nodes example_snapshot) [''RUNNING'', ''PENDING''] = Inr m
     \<and> cpu_usage m = pt_utilization (partition_summary [] (filter node_online (snap_nodes example_snapshot)))"
  using dashboard_agrees [OF example_parsed_nodes(1) refl _ refl refl] example_parsed_nodes(3,5)
  by (simp add: Let_def) blast

end
