(* ===== verification/JobList.thy ===== *)
theory JobList
  imports SlurmActions Associations Sstat Chart
begin

text \<open>
  The list of jobs: the answer of \<open>squeue\<close> (\<open>parseJobsJSON\<close> and its texts,
  \<open>internal/slurm/details.go\<close>), the page of the jobs (\<open>slurmJobs\<close> of \<open>internal/web/app.go\<close>) and
  the lookup of one job that the other handlers share. \<open>upper\<close> is \<open>strings.ToUpper\<close> with its
  tables of Unicode, \<open>stamp\<close> writes seconds since 1970 as a date in the time zone of the server.
\<close>

section \<open>The texts of a job\<close>

definition format_slurm_duration :: "nat \<Rightarrow> string" where
  \<comment> \<open>its callers pass no negative numbers\<close>
  "format_slurm_duration seconds =
     (let days = seconds div 86400;
          hours = seconds mod 86400 div 3600;
          minutes = seconds mod 3600 div 60;
          remaining = seconds mod 60
      in if days > 0
         then dec days @ ''-'' @ pad2 (dec hours) @ '':'' @ pad2 (dec minutes) @ '':'' @ pad2 (dec remaining)
         else if hours > 0
         then dec hours @ '':'' @ pad2 (dec minutes) @ '':'' @ pad2 (dec remaining)
         else dec minutes @ '':'' @ pad2 (dec remaining))"

definition format_elapsed :: "slurm_number \<Rightarrow> int \<Rightarrow> string" where
  "format_elapsed v now =
     (if \<not> num_set v \<or> num_infinite v \<or> num_value v \<le> 0 \<or> num_value v > now then em_dash
      else format_slurm_duration (nat (now - num_value v)))"

definition format_time_limit :: "slurm_number \<Rightarrow> string" where
  "format_time_limit v =
     (if num_infinite v then ''UNLIMITED''
      else if \<not> num_set v \<or> num_value v < 0 \<or> num_value v > int64_max div 60 then em_dash
      else format_slurm_duration (nat (num_value v * 60)))"

definition format_slurm_timestamp :: "(int \<Rightarrow> string) \<Rightarrow> slurm_number \<Rightarrow> string \<Rightarrow> string" where
  "format_slurm_timestamp stamp v unavailable =
     (if \<not> num_set v \<or> num_infinite v \<or> num_value v \<le> 0 then unavailable else stamp (num_value v))"

definition display_value :: "string \<Rightarrow> string" where
  "display_value v = (if trim_space v = [] then em_dash else v)"

section \<open>The jobs\<close>

record job_record =
  jr_id :: int
  jr_name :: string
  jr_user :: string
  jr_user_id :: slurm_number
  jr_group_id :: slurm_number
  jr_account :: string
  jr_partition :: string
  jr_states :: "string list"
  jr_cpus :: slurm_number
  jr_submit :: slurm_number
  jr_eligible :: slurm_number
  jr_start :: slurm_number
  jr_finish :: slurm_number
  jr_limit :: slurm_number
  jr_node_count :: slurm_number
  jr_nodes :: string
  jr_reason :: string
  jr_work_dir :: string
  jr_stdout :: string
  jr_stderr :: string
  jr_command :: string

record job_response =
  job_errors :: nat
  job_records :: "job_record list"

record cluster_job = listed_job +
  cj_name :: string
  cj_user_id :: int
  cj_group_id :: int
  cj_account :: string
  cj_partition :: string
  cj_state :: string
  cj_cpus :: int
  cj_elapsed :: string
  cj_limit :: string
  cj_node_count :: int
  cj_nodes :: string
  cj_nodes_or_reason :: string
  cj_submit :: string
  cj_eligible :: string
  cj_start :: string
  cj_finish :: string
  cj_work_dir :: string
  cj_stdout :: string
  cj_stderr :: string
  cj_command :: string

datatype job_error =
  JobsNotDecoded | JobsReportErrors | JobIncomplete | JobNodeCount int | JobNumbers int | JobField core_error

definition check_job_record :: "job_record \<Rightarrow> job_error + unit" where
  "check_job_record r =
     (if jr_id r \<le> 0 \<or> jr_user r = [] \<or> jr_states r = [] then Inl JobIncomplete
      else if num_value (jr_node_count r) < 0 \<or> num_value (jr_node_count r) > int64_max
      then Inl (JobNodeCount (jr_id r))
      else if (num_set (jr_user_id r) \<and> num_value (jr_user_id r) \<le> 0)
         \<or> (num_set (jr_group_id r) \<and> num_value (jr_group_id r) \<le> 0)
         \<or> num_value (jr_cpus r) < 0 \<or> num_value (jr_cpus r) > int64_max
      then Inl (JobNumbers (jr_id r))
      else case validate_detail_strings
          ([jr_name r, jr_user r, jr_account r, jr_partition r, jr_nodes r, jr_reason r, jr_work_dir r,
            jr_stdout r, jr_stderr r, jr_command r] @ jr_states r) of
          Inl e \<Rightarrow> Inl (JobField e)
        | Inr _ \<Rightarrow> Inr ())"

definition nodes_or_reason :: "job_record \<Rightarrow> string" where
  "nodes_or_reason r =
     (let nodes = trim_space (jr_nodes r); reason = trim_space (jr_reason r)
      in if nodes \<noteq> [] then nodes
         else if reason = [] \<or> equal_fold reason ''None'' then em_dash else reason)"

definition job_of :: "(string \<Rightarrow> string) \<Rightarrow> (int \<Rightarrow> string) \<Rightarrow> int \<Rightarrow> job_record \<Rightarrow> cluster_job" where
  "job_of upper stamp now r =
     \<lparr>listed_id = dec_int (jr_id r), listed_user = jr_user r, cj_name = jr_name r,
      cj_user_id = (if num_set (jr_user_id r) then num_value (jr_user_id r) else 0),
      cj_group_id = (if num_set (jr_group_id r) then num_value (jr_group_id r) else 0),
      cj_account = jr_account r, cj_partition = jr_partition r, cj_state = upper (hd (jr_states r)),
      cj_cpus = num_value (jr_cpus r), cj_elapsed = format_elapsed (jr_start r) now,
      cj_limit = format_time_limit (jr_limit r), cj_node_count = num_value (jr_node_count r),
      cj_nodes = (if trim_space (jr_nodes r) = [] then em_dash else trim_space (jr_nodes r)),
      cj_nodes_or_reason = nodes_or_reason r,
      cj_submit = format_slurm_timestamp stamp (jr_submit r) em_dash,
      cj_eligible = format_slurm_timestamp stamp (jr_eligible r) em_dash,
      cj_start = format_slurm_timestamp stamp (jr_start r) em_dash,
      cj_finish = format_slurm_timestamp stamp (jr_finish r) ''Unknown'',
      cj_work_dir = display_value (jr_work_dir r), cj_stdout = display_value (jr_stdout r),
      cj_stderr = display_value (jr_stderr r), cj_command = display_value (jr_command r)\<rparr>"

definition parse_jobs ::
  "(string \<Rightarrow> string) \<Rightarrow> (int \<Rightarrow> string) \<Rightarrow> int \<Rightarrow> job_response option \<Rightarrow> job_error + cluster_job list" where
  \<comment> \<open>\<open>None\<close>: the output does not decode\<close>
  "parse_jobs upper stamp now response =
     (case response of
        None \<Rightarrow> Inl JobsNotDecoded
      | Some r \<Rightarrow>
          if job_errors r > 0 then Inl JobsReportErrors
          else map_sum_list (\<lambda>x. sum_bind (check_job_record x) (\<lambda>_. Inr (job_of upper stamp now x)))
            (job_records r))"

section \<open>The client and the page\<close>

definition jobs_snapshot :: "job_error + cluster_job list \<Rightarrow> cluster_job list option" where
  \<comment> \<open>the handlers only ask whether there was an error\<close>
  "jobs_snapshot parsed = (case parsed of Inl _ \<Rightarrow> None | Inr js \<Rightarrow> Some js)"

definition client_job :: "cluster_job list option \<Rightarrow> int \<Rightarrow> listed_job option option" where
  \<comment> \<open>\<open>Job\<close>, of which the handlers below use the number and the user\<close>
  "client_job jobs i =
     map_option (\<lambda>js. map_option listed_job.truncate (find (\<lambda>j. listed_id j = dec_int i) js)) jobs"

definition filter_jobs_for_principal :: "cluster_job list \<Rightarrow> principal \<Rightarrow> cluster_job list" where
  "filter_jobs_for_principal jobs identity =
     (if snd identity = RoleAdmin then jobs else filter (\<lambda>j. listed_user j = fst identity) jobs)"

record jobs_view =
  jobs_available :: bool
  job_rows :: "(cluster_job \<times> bool) list"
  job_details :: "(cluster_job \<times> string) list"

definition slurm_jobs ::
  "cluster_job list option \<Rightarrow> bool \<Rightarrow> principal \<Rightarrow> string \<Rightarrow> string \<Rightarrow> jobs_view" where
  \<comment> \<open>the jobs if the provider has them, whether jobs can be cancelled, the user, the language
    and its word for an unknown time; a row with its cancel control, a dialog with its time\<close>
  "slurm_jobs provider canceler identity lang unknown =
     (let (jobs, available) =
        (case provider of None \<Rightarrow> ([], False) | Some js \<Rightarrow> (filter_jobs_for_principal js identity, True))
      in \<lparr>jobs_available = available,
          job_rows = map (\<lambda>j. (j, canceler \<and> can_cancel_job identity (listed_job.truncate j))) jobs,
          job_details = map (\<lambda>j. (j,
            if lang \<noteq> ''en'' \<and> equal_fold (cj_finish j) ''Unknown'' then unknown else cj_finish j)) jobs\<rparr>)"

section \<open>One list for all handlers\<close>

lemma map_sum_list_bind_Inr:
  "map_sum_list (\<lambda>x. sum_bind (c x) (\<lambda>_. Inr (f x))) xs = Inr ys
     \<longleftrightarrow> (\<forall>x \<in> set xs. c x = Inr ()) \<and> ys = map f xs"
  by (induction xs arbitrary: ys) (auto simp: sum_bind_Inr)

lemma parse_jobs_Inr:
  "parse_jobs upper stamp now (Some r) = Inr js
     \<longleftrightarrow> job_errors r = 0 \<and> (\<forall>x \<in> set (job_records r). check_job_record x = Inr ())
       \<and> js = map (job_of upper stamp now) (job_records r)"
  by (simp add: parse_jobs_def map_sum_list_bind_Inr)

lemma no_snapshot:
  assumes "x \<in> set (job_records r)" and "check_job_record x \<noteq> Inr ()"
  shows "jobs_snapshot (parse_jobs upper stamp now (Some r)) = None"
proof (cases "parse_jobs upper stamp now (Some r)")
  case (Inr js)
  then show ?thesis using assms parse_jobs_Inr by blast
qed (simp add: jobs_snapshot_def)

text \<open>
  C37. One job hides all. A single job that \<open>squeue\<close> reports as submitted by the user with the number
  0, which is \<open>root\<close>, makes the whole list unreadable: the page of the jobs has no list for any
  user, and no request to cancel a job, whoever sends it and whichever job it names, runs
  a command; a request with a valid number is answered with 503.
\<close>

theorem root_job_hides_all:
  assumes "x \<in> set (job_records r)" and "num_set (jr_user_id x)" and "num_value (jr_user_id x) = 0"
    and "jobs = jobs_snapshot (parse_jobs upper stamp now (Some r))"
    and "reply = slurm_job_cancel slurm True (client_job jobs) identity id_param"
  shows "slurm_jobs jobs True identity lang unknown
      = \<lparr>jobs_available = False, job_rows = [], job_details = []\<rparr>
    \<and> commands reply = []
    \<and> answered reply = ActionStatus (if parse_positive_job_id id_param = None then 400 else 503)"
proof -
  have "check_job_record x \<noteq> Inr ()" using assms(2,3) by (simp add: check_job_record_def)
  then have "jobs = None" using no_snapshot [OF assms(1)] assms(4) by simp
  then show ?thesis
    unfolding assms(5) by (auto simp: slurm_jobs_def slurm_job_cancel_def client_job_def split: option.split)
qed

lemma parse_positive_job_id_dec_int:
  assumes "0 < i" and "i \<le> int64_max"
  shows "parse_positive_job_id (dec_int i) = Some i"
proof -
  have dec: "dec_int i = dec (nat i)" using assms(1) by (simp add: dec_int_def)
  have "nat i < 10 ^ 19" using assms(2) by (simp add: int64_max_def)
  then have "length (dec (nat i)) \<le> 19" by (rule length_dec) simp
  moreover have "list_all is_digit (dec (nat i))" using dec_digits by (simp add: list_all_iff)
  moreover have "hd (dec (nat i)) \<noteq> CHR ''0''" using assms(1) by (intro hd_dec) simp
  moreover have "parse_int64 (dec (nat i)) = Some i" using parse_int64_dec [of "nat i"] assms by simp
  ultimately show ?thesis
    unfolding dec parse_positive_job_id_def using assms(1) by simp
qed

lemma find_distinct:
  "distinct (map f xs) \<Longrightarrow> x \<in> set xs \<Longrightarrow> find (\<lambda>y. f y = f x) xs = Some x"
  by (induction xs) auto

lemma dec_int_inj: "0 < i \<Longrightarrow> 0 < j \<Longrightarrow> dec_int i = dec_int j \<Longrightarrow> i = j"
  unfolding dec_int_def by (metis dec_val_dec less_asym nat_eq_iff2 not_le)

text \<open>
  C7. The controls of the page work. For every list of jobs with different numbers: the page shows an
  administrator all jobs and every other user exactly the jobs that Slurm lists under his name,
  in the order of Slurm, each with the control that cancels it. A request to cancel with the
  number of a listed job runs \<open>scancel\<close> with exactly that number and nothing else if its
  sender is an administrator or the job is listed under his name; otherwise it runs nothing and
  is answered as if there were no such job.
\<close>

theorem cancel_controls_work:
  assumes "parse_jobs upper stamp now (Some r) = Inr js"
    and "distinct (map jr_id (job_records r))" and "\<forall>x \<in> set (job_records r). jr_id x \<le> int64_max"
    and "x \<in> set (job_records r)"
    and "reply = slurm_job_cancel slurm True (client_job (Some js)) (user, role) (dec_int (jr_id x))"
  shows "job_rows (slurm_jobs (Some js) True (user, role) lang unknown)
      = map (\<lambda>y. (job_of upper stamp now y, True))
          (filter (\<lambda>y. role = RoleAdmin \<or> jr_user y = user) (job_records r))
    \<and> (if role = RoleAdmin \<or> jr_user x = user
       then commands reply = [[''scancel'', dec_int (jr_id x)]]
       else commands reply = [] \<and> answered reply = ActionStatus 404)"
proof -
  have checked: "\<forall>x \<in> set (job_records r). check_job_record x = Inr ()"
    and js: "js = map (job_of upper stamp now) (job_records r)"
    using assms(1) unfolding parse_jobs_Inr by blast+
  have pos: "0 < jr_id y" if "y \<in> set (job_records r)" for y
    using that checked by (fastforce simp: check_job_record_def split: if_split_asm)
  have listed: "listed_id (job_of upper stamp now y) = dec_int (jr_id y)"
    "listed_user (job_of upper stamp now y) = jr_user y" for y
    by (simp_all add: job_of_def)
  have truncated: "listed_id (listed_job.truncate j) = listed_id j"
    "listed_user (listed_job.truncate j) = listed_user j" for j :: cluster_job
    by (simp_all add: listed_job.truncate_def)
  have rows: "job_rows (slurm_jobs (Some js) True (user, role) lang unknown)
      = map (\<lambda>y. (job_of upper stamp now y, True))
          (filter (\<lambda>y. role = RoleAdmin \<or> jr_user y = user) (job_records r))"
    by (cases "role = RoleAdmin") (auto simp: slurm_jobs_def filter_jobs_for_principal_def js filter_map
        comp_def listed can_cancel_job_def truncated cong: filter_cong)
  let ?j = "job_of upper stamp now x"
  have "distinct (map listed_id js)"
    using assms(2) pos dec_int_inj by (fastforce simp: js listed distinct_map inj_on_def comp_def)
  then have found: "client_job (Some js) (jr_id x) = Some (Some (listed_job.truncate ?j))"
    using find_distinct [of listed_id js ?j] assms(4) by (simp add: client_job_def listed js)
  have parsed: "parse_positive_job_id (dec_int (jr_id x)) = Some (jr_id x)"
    using pos [OF assms(4)] assms(3,4) by (intro parse_positive_job_id_dec_int) simp_all
  have may: "can_cancel_job (user, role) (listed_job.truncate ?j) \<longleftrightarrow> role = RoleAdmin \<or> jr_user x = user"
    by (simp add: can_cancel_job_def truncated listed)
  have "if role = RoleAdmin \<or> jr_user x = user
      then commands reply = [[''scancel'', dec_int (jr_id x)]]
      else commands reply = [] \<and> answered reply = ActionStatus 404"
    unfolding assms(5) slurm_job_cancel_def parsed
    using not_le [THEN iffD2, OF pos [OF assms(4)]]
    by (simp add: found truncated listed may cancel_job_def Let_def)
  then show ?thesis using rows by blast
qed

section \<open>The times of a job\<close>

lemma parse_plain_clock:
  assumes "list_all (\<lambda>p. p \<noteq> [] \<and> list_all is_digit p) ps" and "length ps = 2 \<or> length ps = 3"
    and "map_sum_list parse_natural ps = Inr vs"
  shows "parse_sstat_duration (join_str '':'' ps) = (if length vs = 3
    then duration_total 0 (vs ! 0) (vs ! 1) (vs ! 2) else duration_total 0 0 (vs ! 0) (vs ! 1))"
proof -
  let ?t = "join_str '':'' ps"
  obtain p qs where ps: "ps = p # qs" "qs \<noteq> []" using assms(2) by (cases ps) fastforce+
  have p: "p \<noteq> []" "is_digit (hd p)" using assms(1) by (auto simp: ps(1) list_all_iff)
  have not_Nil: "ps \<noteq> []" using ps(1) by simp
  then have "last ps \<in> set ps" by simp
  then have l: "last ps \<noteq> []" "is_digit (last (last ps))" using assms(1) by (auto simp: list_all_iff)
  have "join_str '':'' (xs @ [x]) \<noteq> [] \<and> last (join_str '':'' (xs @ [x])) = last x" if "x \<noteq> []"
    for xs :: "string list" and x
    using that by (induction xs) (simp_all add: join_str_Cons last_append)
  from this [of "last ps" "butlast ps"] have last: "last ?t = last (last ps)"
    unfolding append_butlast_last_id [OF not_Nil] using l(1) by simp
  have hd: "hd ?t = hd p" "?t \<noteq> []" using p(1) by (simp_all add: ps join_str_Cons)
  have chars: "set ?t \<subseteq> set '':'' \<union> (\<Union>x \<in> set ps. set x)" by (rule set_join_str_subset)
  have no: "CHR ''-'' \<notin> set ?t" "\<forall>x \<in> set ps. CHR '':'' \<notin> set x"
    using chars assms(1) by (fastforce simp: list_all_iff is_digit_def)+
  have pieces: "split_str '':'' ?t = ps"
    using no(2) ps(1) by (intro split_char_join) auto
  have trim: "trim_space ?t = ?t" using hd last p l by (intro trim_space_digits) simp_all
  have av: "\<not> is_unavailable ?t" using hd p(2) by (intro available_digits) simp_all
  have len: "length vs = length ps" "\<not> (length ps < 2 \<or> length ps > 3)"
    using map_sum_list_length [OF assms(3)] assms(2) by auto
  show ?thesis
    unfolding parse_sstat_duration_def trim Let_def
    using av no(1) assms(3) len by (simp add: split_char_no_sep pieces)
qed

lemma format_slurm_duration_parsed:
  assumes "int n \<le> int64_max"
  shows "parse_sstat_duration (format_slurm_duration n) = Inr (int n)"
proof -
  define h where "h = n mod 86400 div 3600"
  define m where "m = n mod 3600 div 60"
  define s where "s = n mod 60"
  have "n mod 86400 mod 3600 = n mod 3600" "n mod 86400 mod 60 = n mod 60"
    by (simp_all add: mod_mod_cancel)
  then have same: "format_slurm_duration n = format_duration n" if "0 < n div 86400"
    using that by (simp add: format_slurm_duration_def format_duration_def clock_text_def Let_def)
  have small: "h < 24" "m < 60" "s < 60"
    unfolding h_def m_def s_def by (simp_all add: less_mult_imp_div_less)
  have digits: "list_all is_digit (dec k)" "list_all is_digit (pad2 (dec k))" for k
    using dec_digits pad2_digits [OF dec_digits] by (simp_all add: list_all_iff)
  have fits: "int h \<le> int64_max" "int m \<le> int64_max" "int s \<le> int64_max"
    using small by (simp_all add: int64_max_def)
  note parts = parse_natural_dec parse_natural_pad2 fits digits
  show ?thesis
  proof (cases "0 < n div 86400")
    case True
    then show ?thesis using same format_duration_parsed [OF assms] by simp
  next
    case False
    then have "n mod 86400 = n" by simp
    moreover have "n = n div 3600 * 3600 + n mod 3600 div 60 * 60 + n mod 3600 mod 60" by presburger
    moreover have "n mod 3600 mod 60 = n mod 60" by (simp add: mod_mod_cancel)
    ultimately have n: "n = h * 3600 + m * 60 + s" unfolding h_def m_def s_def by simp
    have total: "duration_total 0 (int h) (int m) (int s) = Inr (int n)"
      using assms small by (subst duration_total_exact) (simp_all add: n int64_max_def)
    show ?thesis
    proof (cases "0 < h")
      case True
      then have "format_slurm_duration n = join_str '':'' [dec h, pad2 (dec m), pad2 (dec s)]"
        using False by (simp add: format_slurm_duration_def Let_def h_def m_def s_def)
      moreover have "parse_sstat_duration (join_str '':'' [dec h, pad2 (dec m), pad2 (dec s)]) = Inr (int n)"
        using total by (subst parse_plain_clock [where vs = "[int h, int m, int s]"]) (simp_all add: parts)
      ultimately show ?thesis by simp
    next
      case zero: False
      then have "format_slurm_duration n = join_str '':'' [dec m, pad2 (dec s)]"
        using False by (simp add: format_slurm_duration_def Let_def h_def m_def s_def)
      moreover have "parse_sstat_duration (join_str '':'' [dec m, pad2 (dec s)]) = Inr (int n)"
        using total zero by (subst parse_plain_clock [where vs = "[int m, int s]"]) (simp_all add: parts)
      ultimately show ?thesis by simp
    qed
  qed
qed

text \<open>
  The times of a job. Read as Slurm's own format of times, the text for the time a job has run is
  the number of seconds since its start, for every start that has a value and is not in the
  future, and the text of its limit is sixty times the limit in minutes, up to the largest
  number of minutes whose seconds fit into 64 bits; larger and missing limits have no text that
  could be taken for a time.
\<close>

theorem job_times_read_back:
  assumes "num_set start \<and> \<not> num_infinite start" and "0 < num_value start"
    and "num_value start \<le> now" and "now \<le> int64_max"
  shows "parse_sstat_duration (format_elapsed start now) = Inr (now - num_value start)
    \<and> format_time_limit limit
      \<in> {''UNLIMITED'', em_dash} \<union> {t. parse_sstat_duration t = Inr (60 * num_value limit)}
    \<and> (format_time_limit limit \<in> {''UNLIMITED'', em_dash}
      \<longleftrightarrow> num_infinite limit \<or> \<not> num_set limit \<or> num_value limit \<notin> {0..int64_max div 60})"
proof -
  have elapsed: "parse_sstat_duration (format_elapsed start now) = Inr (now - num_value start)"
    using format_slurm_duration_parsed [of "nat (now - num_value start)"] assms
    by (simp add: format_elapsed_def)
  have dashes: "parse_sstat_duration ''UNLIMITED'' = Inl CpuTime" "parse_sstat_duration em_dash = Inl CpuTime"
    by code_simp+
  show ?thesis
  proof (cases "num_infinite limit \<or> \<not> num_set limit \<or> num_value limit \<notin> {0..int64_max div 60}")
    case True
    then show ?thesis using elapsed by (auto simp: format_time_limit_def)
  next
    case False
    then have l: "0 \<le> num_value limit" "num_value limit \<le> int64_max div 60" by simp_all
    then have "num_value limit * 60 \<le> int64_max" by (simp add: int64_max_def)
    then have "parse_sstat_duration (format_time_limit limit) = Inr (60 * num_value limit)"
      using format_slurm_duration_parsed [of "nat (num_value limit * 60)"] False l
      by (simp add: format_time_limit_def)
    then show ?thesis using elapsed dashes False by auto
  qed
qed

section \<open>Examples\<close>

definition plain_number :: "int \<Rightarrow> slurm_number" where
  "plain_number i = \<lparr>num_set = True, num_infinite = False, num_value = i\<rparr>"

definition example_job_record :: "int \<Rightarrow> string \<Rightarrow> int \<Rightarrow> job_record" where
  "example_job_record i user uid =
     \<lparr>jr_id = i, jr_name = ''run'', jr_user = user, jr_user_id = plain_number uid,
      jr_group_id = plain_number 100, jr_account = ''a'', jr_partition = ''cpu'',
      jr_states = [''RUNNING''], jr_cpus = plain_number 4, jr_submit = plain_number 10,
      jr_eligible = plain_number 10, jr_start = plain_number 20, jr_finish = plain_number 0,
      jr_limit = plain_number 90, jr_node_count = plain_number 1, jr_nodes = ''n1'', jr_reason = ''None'',
      jr_work_dir = ''/home'', jr_stdout = '''', jr_stderr = '''', jr_command = ''run.sh''\<rparr>"

lemma example_job_fields:
  "jr_id (example_job_record i user uid) = i" "jr_user (example_job_record i user uid) = user"
  by (simp_all add: example_job_record_def)

definition example_jobs :: "cluster_job list" where
  "example_jobs = map (job_of (\<lambda>s. s) dec_int 5000)
     [example_job_record 41 ''alice'' 1001, example_job_record 42 ''bob'' 1002]"

lemma example_jobs_parsed:
  "parse_jobs (\<lambda>s. s) dec_int 5000 (Some \<lparr>job_errors = 0, job_records =
      [example_job_record 41 ''alice'' 1001, example_job_record 42 ''bob'' 1002]\<rparr>) = Inr example_jobs"
proof -
  have "check_job_record (example_job_record 41 ''alice'' 1001) = Inr ()"
    "check_job_record (example_job_record 42 ''bob'' 1002) = Inr ()"
    by code_simp+
  then show ?thesis by (simp add: parse_jobs_Inr example_jobs_def)
qed

theorem root_job_hides_all_witness:
  "let jobs = jobs_snapshot (parse_jobs (\<lambda>s. s) dec_int 5000 (Some \<lparr>job_errors = 0, job_records =
      [example_job_record 41 ''alice'' 1001, example_job_record 42 ''root'' 0]\<rparr>))
   in commands (slurm_job_cancel (\<lambda>c. True) True (client_job jobs) (''alice'', RoleUser) ''41'') = []"
  using root_job_hides_all [OF _ _ _ refl refl, of "example_job_record 42 ''root'' 0"]
  by (simp add: example_job_record_def plain_number_def Let_def)

theorem cancel_controls_work_witness:
  "map fst (job_rows (slurm_jobs (Some example_jobs) True (''alice'', RoleUser) ''en'' ''Unknown''))
      = [hd example_jobs]
   \<and> commands (slurm_job_cancel (\<lambda>c. True) True (client_job (Some example_jobs)) (''alice'', RoleUser)
      (dec_int 41)) = [[''scancel'', dec_int 41]]"
proof -
  let ?rs = "[example_job_record 41 ''alice'' 1001, example_job_record 42 ''bob'' 1002]"
  have ids: "distinct (map jr_id ?rs)" "\<forall>x \<in> set ?rs. jr_id x \<le> int64_max"
    by (simp_all add: example_job_fields int64_max_def)
  show ?thesis
    using cancel_controls_work [OF example_jobs_parsed _ _ _ refl, of "example_job_record 41 ''alice'' 1001"
        "''alice''" RoleUser "''en''" "''Unknown''" "\<lambda>c. True"] ids
    by (simp add: example_job_fields) (simp add: example_jobs_def)
qed

theorem job_times_read_back_witness:
  "parse_sstat_duration (format_elapsed (plain_number 20) 5000) = Inr 4980
   \<and> format_elapsed (plain_number 20) 5000 = ''1:23:00''"
  using job_times_read_back [of "plain_number 20" 5000]
  by (simp add: plain_number_def int64_max_def format_elapsed_def format_slurm_duration_def pad2_def dec.simps)

end
