(* ===== verification/SlurmRunner.thy ===== *)
theory SlurmRunner
  imports Sstat "HOL-Library.Word"
begin

text \<open>
  How the portal runs the commands of Slurm (\<open>internal/slurm/runner.go\<close>, \<open>run\<close> and the checks of
  \<open>New\<close> in \<open>internal/slurm/client.go\<close>): the environment of the process, the bound on its output,
  and the checks of the executables before the server starts. A process is a parameter: the
  pieces it writes, in order, and how it ends.
\<close>

unbundle bit_operations_syntax

section \<open>The output of a process\<close>

record limited_buffer =
  buffer :: string
  exceeded :: bool
  cancelled :: bool

definition write_limited :: "int \<Rightarrow> string \<Rightarrow> limited_buffer \<Rightarrow> limited_buffer" where
  "write_limited limit v b =
     (let remaining = limit - int (length (buffer b));
          b' = (if remaining > 0 then b\<lparr>buffer := buffer b @ take (nat remaining) v\<rparr> else b)
      in if int (length v) > remaining then b'\<lparr>exceeded := True, cancelled := True\<rparr> else b')"

record process_result =
  writes :: "string list"
  context_done :: bool
  run_failed :: bool

datatype run_error = BadLimit | OutputLimit | ContextDone | CommandFailed

definition clean_environment :: "string list \<Rightarrow> string list" where
  "clean_environment environment =
     filter (\<lambda>e. case cut_eq e of
         None \<Rightarrow> False
       | Some (name, _) \<Rightarrow> name \<noteq> ''LC_ALL'' \<and> name \<noteq> ''LANG'' \<and> \<not> prefix ''OPENHPC_'' name)
       environment"

type_synonym process = "string list \<Rightarrow> string \<Rightarrow> string list \<Rightarrow> process_result"

definition command_environment :: "string list \<Rightarrow> string list" where
  "command_environment environment = clean_environment environment @ [''LC_ALL=C'', ''LANG=C'']"

definition run_command ::
  "process \<Rightarrow> int \<Rightarrow> string list \<Rightarrow> string \<Rightarrow> string list \<Rightarrow> run_error + string" where
  \<comment> \<open>\<open>CommandRunner.Run\<close>: the process gets its environment, its path and its arguments\<close>
  "run_command process limit environment path args =
     (if limit \<le> 0 then Inl BadLimit
      else
        let p = process (command_environment environment) path args;
            b = fold (write_limited limit) (writes p) \<lparr>buffer = [], exceeded = False, cancelled = False\<rparr>
        in if exceeded b then Inl OutputLimit
           else if context_done p then Inl ContextDone
           else if run_failed p then Inl CommandFailed
           else Inr (buffer b))"

section \<open>The client\<close>

definition allowed_variables :: "string list" where
  "allowed_variables = [''SLURM_CONF'', ''SLURM_CONF_SERVER'', ''SLURM_CLUSTERS'', ''MUNGE_SOCKET'']"

definition allowed_slurm_environment :: "string list \<Rightarrow> string list" where
  "allowed_slurm_environment environment =
     filter (\<lambda>e. case cut_eq e of None \<Rightarrow> False | Some (name, _) \<Rightarrow> name \<in> set allowed_variables)
       environment"

definition client_run ::
  "process \<Rightarrow> int \<Rightarrow> string list \<Rightarrow> string \<Rightarrow> string \<Rightarrow> string list \<Rightarrow> run_error + string" where
  \<comment> \<open>\<open>run\<close> with the runner that \<open>New\<close> makes from the environment of the server\<close>
  "client_run process limit environment binary_dir command args =
     (case run_command process limit (allowed_slurm_environment environment)
         (if binary_dir = ''/'' then ''/'' @ command else binary_dir @ ''/'' @ command) args of
        Inl e \<Rightarrow> Inl e
      | Inr out \<Rightarrow> if int (length out) > limit then Inl OutputLimit else Inr out)"

section \<open>The executables\<close>

record file_status =
  is_symlink :: bool
  is_regular :: bool
  permissions :: "32 word"
  owner :: "32 word"

datatype path_warning = OwnerNotRoot string | WritableByOthers string
datatype path_error = NotInspected string | NotExecutable string

text \<open>
  An absolute clean path is the list of its names, the last one first, so that the tail is
  \<open>filepath.Dir\<close> and the empty list is the root directory.
\<close>

definition path_of :: "string list \<Rightarrow> string" where
  "path_of names = ''/'' @ join_str ''/'' (rev names)"

definition path_risk_warnings :: "string \<Rightarrow> file_status \<Rightarrow> path_warning list" where
  "path_risk_warnings path st =
     (if owner st \<noteq> 0 then [OwnerNotRoot path] else [])
     @ (if permissions st AND 18 \<noteq> 0 then [WritableByOthers path] else [])"

fun walk_parents :: "(string \<Rightarrow> file_status option) \<Rightarrow> string list \<Rightarrow> path_error + path_warning list" where
  \<comment> \<open>the loop of \<open>validateSlurmExecutable\<close>\<close>
  "walk_parents lstat [] =
     (case lstat (path_of []) of
        None \<Rightarrow> Inl (NotInspected (path_of []))
      | Some st \<Rightarrow> Inr (path_risk_warnings (path_of []) st))"
| "walk_parents lstat (n # parents) =
     (case lstat (path_of (n # parents)) of
        None \<Rightarrow> Inl (NotInspected (path_of (n # parents)))
      | Some st \<Rightarrow> sum_bind (walk_parents lstat parents) (\<lambda>more.
          Inr (path_risk_warnings (path_of (n # parents)) st @ more)))"

definition validate_slurm_executable ::
  "(string \<Rightarrow> file_status option) \<Rightarrow> string list \<Rightarrow> path_error + path_warning list" where
  "validate_slurm_executable lstat names =
     (case lstat (path_of names) of
        None \<Rightarrow> Inl (NotInspected (path_of names))
      | Some st \<Rightarrow>
          if is_symlink st \<or> \<not> is_regular st \<or> permissions st AND 73 = 0
          then Inl (NotExecutable (path_of names))
          else walk_parents lstat names)"

definition report_new :: "path_warning list \<Rightarrow> path_warning list \<Rightarrow> path_warning list" where
  "report_new ws reported = fold (\<lambda>w seen. if w \<in> set seen then seen else seen @ [w]) ws reported"

fun check_executables ::
  "(string \<Rightarrow> file_status option) \<Rightarrow> string list \<Rightarrow> string list \<Rightarrow> path_warning list
     \<Rightarrow> path_error + path_warning list" where
  \<comment> \<open>the loop of \<open>New\<close> over the commands, with the warnings it has reported\<close>
  "check_executables lstat dir [] reported = Inr reported"
| "check_executables lstat dir (c # cs) reported =
     sum_bind (validate_slurm_executable lstat (c # dir)) (\<lambda>ws.
       check_executables lstat dir cs (report_new ws reported))"

definition slurm_commands :: "string list" where
  "slurm_commands = [''sinfo'', ''squeue'', ''sacct'', ''sacctmgr'', ''sstat'', ''scontrol'', ''scancel'']"

section \<open>Whole output or none\<close>

lemma write_limited_all:
  assumes "int (length (buffer b)) \<le> limit"
  shows "buffer (fold (write_limited limit) vs b) = take (nat limit) (buffer b @ concat vs)
    \<and> (exceeded (fold (write_limited limit) vs b)
      \<longleftrightarrow> exceeded b \<or> int (length (buffer b @ concat vs)) > limit)"
  using assms
proof (induction vs arbitrary: b)
  case (Cons v vs)
  let ?b = "write_limited limit v b"
  have step: "buffer ?b = take (nat limit) (buffer b @ v)"
    "exceeded ?b \<longleftrightarrow> exceeded b \<or> int (length (buffer b @ v)) > limit"
    using Cons.prems by (auto simp: write_limited_def Let_def nat_diff_distrib)
  have "int (length (buffer ?b)) \<le> limit" using Cons.prems unfolding step(1) by simp
  note rest = Cons.IH [OF this, unfolded step]
  have "take (nat limit) (take (nat limit) (buffer b @ v) @ concat vs)
      = take (nat limit) (buffer b @ v @ concat vs)"
    using Cons.prems by (simp add: min_def)
  then show ?case using rest Cons.prems by (auto simp: min_def)
qed simp

text \<open>
  C20. Whole output or none. A command of Slurm has an answer exactly when the limit is positive, all
  that the process has written fits into it, the time has not run out and the process has
  ended well, and the answer is then everything it has written, in whatever pieces it was
  written; too much output is the only reason for the error of the limit. So a list that was
  cut off can never be taken for a complete one.
\<close>

theorem command_output_whole:
  "let p = process (command_environment (allowed_slurm_environment environment))
       (if dir = ''/'' then ''/'' @ command else dir @ ''/'' @ command) args;
       written = concat (writes p)
   in (client_run process limit environment dir command args = Inr out
         \<longleftrightarrow> 0 < limit \<and> int (length written) \<le> limit \<and> \<not> context_done p \<and> \<not> run_failed p
           \<and> out = written)
    \<and> (client_run process limit environment dir command args = Inl OutputLimit
         \<longleftrightarrow> 0 < limit \<and> limit < int (length written))"
proof -
  define p where "p = process (command_environment (allowed_slurm_environment environment))
    (if dir = ''/'' then ''/'' @ command else dir @ ''/'' @ command) args"
  note written = write_limited_all [of "\<lparr>buffer = [], exceeded = False, cancelled = False\<rparr>" limit "writes p"]
  have "(client_run process limit environment dir command args = Inr out
      \<longleftrightarrow> 0 < limit \<and> int (length (concat (writes p))) \<le> limit \<and> \<not> context_done p \<and> \<not> run_failed p
        \<and> out = concat (writes p))
    \<and> (client_run process limit environment dir command args = Inl OutputLimit
      \<longleftrightarrow> 0 < limit \<and> limit < int (length (concat (writes p))))"
  proof (cases "limit \<le> 0")
    case True
    then show ?thesis by (simp add: client_run_def run_command_def)
  next
    case False
    then show ?thesis
      unfolding client_run_def run_command_def Let_def p_def [symmetric] using written by auto
  qed
  then show ?thesis unfolding p_def Let_def .
qed

section \<open>The environment\<close>

lemma cut_eq_Some: "cut_eq s = Some (n, v) \<longleftrightarrow> s = n @ ''='' @ v \<and> CHR ''='' \<notin> set n"
proof
  assume "cut_eq s = Some (n, v)"
  then have drop: "dropWhile (\<lambda>c. c \<noteq> CHR ''='') s = CHR ''='' # v" and n: "n = takeWhile (\<lambda>c. c \<noteq> CHR ''='') s"
    by (auto simp: cut_eq_def dropWhile_eq_Cons_conv split: list.split_asm)
  have "n @ CHR ''='' # v = s"
    using takeWhile_dropWhile_id [of "\<lambda>c. c \<noteq> CHR ''=''" s] by (simp only: drop n [symmetric])
  moreover have "CHR ''='' \<notin> set n" unfolding n by (auto dest: set_takeWhileD)
  ultimately show "s = n @ ''='' @ v \<and> CHR ''='' \<notin> set n" by simp
next
  assume s: "s = n @ ''='' @ v \<and> CHR ''='' \<notin> set n"
  then have "\<forall>c \<in> set n. c \<noteq> CHR ''=''" by auto
  then show "cut_eq s = Some (n, v)"
    using s by (simp add: cut_eq_def dropWhile_append2 takeWhile_append2)
qed

text \<open>
  C24. What a command inherits. The environment of every command consists of the two settings of the
  locale and those entries of the server's environment that name the configuration of Slurm,
  its server, its clusters or the socket of MUNGE: no password or key that the portal was
  started with reaches a process, and no setting of the locale of the server changes the
  output that the portal parses.
\<close>

theorem command_environment_exact:
  "set (command_environment (allowed_slurm_environment environment))
    = {''LC_ALL=C'', ''LANG=C''}
      \<union> {e \<in> set environment. \<exists>n v. e = n @ ''='' @ v
          \<and> n \<in> {''SLURM_CONF'', ''SLURM_CONF_SERVER'', ''SLURM_CLUSTERS'', ''MUNGE_SOCKET''}}"
proof -
  have names: "name \<noteq> ''LC_ALL'' \<and> name \<noteq> ''LANG'' \<and> \<not> prefix ''OPENHPC_'' name \<and> CHR ''='' \<notin> set name"
    if "name \<in> set allowed_variables" for name
    using that unfolding allowed_variables_def by auto
  have kept: "(case cut_eq e of None \<Rightarrow> False
        | Some (name, _) \<Rightarrow> name \<noteq> ''LC_ALL'' \<and> name \<noteq> ''LANG'' \<and> \<not> prefix ''OPENHPC_'' name)
      \<and> (case cut_eq e of None \<Rightarrow> False | Some (name, _) \<Rightarrow> name \<in> set allowed_variables)
    \<longleftrightarrow> (\<exists>n v. e = n @ ''='' @ v \<and> n \<in> set allowed_variables)" for e
  proof -
    have "(\<exists>n v. e = n @ ''='' @ v \<and> n \<in> set allowed_variables)
        \<longleftrightarrow> (\<exists>n v. cut_eq e = Some (n, v) \<and> n \<in> set allowed_variables)"
      unfolding cut_eq_Some using names by blast
    then show ?thesis using names by (auto split: option.split)
  qed
  have four: "set allowed_variables
      = {''SLURM_CONF'', ''SLURM_CONF_SERVER'', ''SLURM_CLUSTERS'', ''MUNGE_SOCKET''}"
    by (simp add: allowed_variables_def)
  show ?thesis
    unfolding command_environment_def clean_environment_def allowed_slurm_environment_def four [symmetric]
    using kept by auto
qed

section \<open>The executables\<close>

lemma report_new_set: "set (report_new ws reported) = set ws \<union> set reported"
  by (induction ws arbitrary: reported) (auto simp: report_new_def)

lemma report_new_distinct: "distinct reported \<Longrightarrow> distinct (report_new ws reported)"
  by (induction ws arbitrary: reported) (auto simp: report_new_def)

lemma walk_parents_Inr:
  "walk_parents lstat names = Inr ws \<Longrightarrow>
     set ws = (\<Union>d \<in> set (suffixes names). set (path_risk_warnings (path_of d) (the (lstat (path_of d)))))
     \<and> (\<forall>d \<in> set (suffixes names). lstat (path_of d) \<noteq> None)"
  by (induction names arbitrary: ws) (fastforce simp: sum_bind_Inr split: option.split_asm)+

lemma check_executables_Inr:
  assumes "check_executables lstat dir cs reported = Inr ws" and "distinct reported"
  shows "distinct ws \<and> set ws = set reported \<union> (\<Union>c \<in> set cs. \<Union>d \<in> set (suffixes (c # dir)).
      set (path_risk_warnings (path_of d) (the (lstat (path_of d)))))
    \<and> (\<forall>c \<in> set cs. \<exists>st. lstat (path_of (c # dir)) = Some st
      \<and> \<not> is_symlink st \<and> is_regular st \<and> permissions st AND 73 \<noteq> 0)"
  using assms
proof (induction cs arbitrary: reported)
  case (Cons c cs)
  obtain vs st where v: "lstat (path_of (c # dir)) = Some st" "\<not> is_symlink st" "is_regular st"
      "permissions st AND 73 \<noteq> 0" "walk_parents lstat (c # dir) = Inr vs"
    and rest: "check_executables lstat dir cs (report_new vs reported) = Inr ws"
    using Cons.prems(1) unfolding check_executables.simps sum_bind_Inr validate_slurm_executable_def
    by (auto split: option.split_asm if_split_asm)
  note vs = walk_parents_Inr [OF v(5), THEN conjunct1]
  show ?case
    using Cons.IH [OF rest report_new_distinct [OF Cons.prems(2)]] v(1-4)
    unfolding report_new_set vs by auto
qed simp

text \<open>
  The checks before the start. When the server starts, every command of Slurm is an executable
  regular file and no symbolic link, and the log names exactly those files and directories
  on the ways to them that do not belong to \<open>root\<close> or can be written by others, each once.
\<close>

theorem executables_checked:
  assumes "check_executables lstat dir slurm_commands [] = Inr ws"
  shows "distinct ws
    \<and> (\<forall>c \<in> set slurm_commands. \<exists>st. lstat (path_of (c # dir)) = Some st
        \<and> \<not> is_symlink st \<and> is_regular st \<and> permissions st AND 73 \<noteq> 0)
    \<and> (\<forall>path. OwnerNotRoot path \<in> set ws \<longleftrightarrow>
        (\<exists>c \<in> set slurm_commands. \<exists>d \<in> set (suffixes (c # dir)). path = path_of d \<and> owner (the (lstat path)) \<noteq> 0))
    \<and> (\<forall>path. WritableByOthers path \<in> set ws \<longleftrightarrow>
        (\<exists>c \<in> set slurm_commands. \<exists>d \<in> set (suffixes (c # dir)). path = path_of d
          \<and> permissions (the (lstat path)) AND 18 \<noteq> 0))"
proof -
  have "distinct ([] :: path_warning list)" by simp
  note all = check_executables_Inr [OF assms this, unfolded list.set(1) Un_empty_left]
  have facts: "distinct ws" "set ws = (\<Union>c \<in> set slurm_commands. \<Union>d \<in> set (suffixes (c # dir)).
      set (path_risk_warnings (path_of d) (the (lstat (path_of d)))))"
    "\<forall>c \<in> set slurm_commands. \<exists>st. lstat (path_of (c # dir)) = Some st
        \<and> \<not> is_symlink st \<and> is_regular st \<and> permissions st AND 73 \<noteq> 0"
    by (rule all [THEN conjunct1], rule all [THEN conjunct2, THEN conjunct1],
        rule all [THEN conjunct2, THEN conjunct2])
  have one: "OwnerNotRoot path \<in> set (path_risk_warnings q st) \<longleftrightarrow> path = q \<and> owner st \<noteq> 0"
    "WritableByOthers path \<in> set (path_risk_warnings q st) \<longleftrightarrow> path = q \<and> permissions st AND 18 \<noteq> 0"
    for path q st
    by (auto simp: path_risk_warnings_def)
  have "OwnerNotRoot path \<in> set ws \<longleftrightarrow>
      (\<exists>c \<in> set slurm_commands. \<exists>d \<in> set (suffixes (c # dir)). path = path_of d \<and> owner (the (lstat path)) \<noteq> 0)"
    "WritableByOthers path \<in> set ws \<longleftrightarrow>
      (\<exists>c \<in> set slurm_commands. \<exists>d \<in> set (suffixes (c # dir)). path = path_of d
        \<and> permissions (the (lstat path)) AND 18 \<noteq> 0)" for path
    unfolding facts(2) UN_iff one by blast+
  then show ?thesis using facts(1,3) by blast
qed

theorem executables_checked_witness:
  "let lstat = (\<lambda>p. Some \<lparr>is_symlink = False, is_regular = True, permissions = 493, owner = 0\<rparr>)
   in \<exists>ws. check_executables lstat [''bin'', ''usr''] slurm_commands [] = Inr ws \<and> OwnerNotRoot ''/usr'' \<notin> set ws"
proof -
  let ?lstat = "\<lambda>p. Some \<lparr>is_symlink = False, is_regular = True, permissions = 493, owner = 0\<rparr>"
  have "check_executables ?lstat [''bin'', ''usr''] slurm_commands [] = Inr []" by code_simp
  from executables_checked [OF this] this show ?thesis by (simp add: Let_def)
qed

end
