(* ===== verification/Spec2Isabelle.thy ===== *)
theory Spec2Isabelle
  imports Uri LazyLog JobOutput ResourceMonitor Confirm UserDialogs ActionDialogs
    PartitionEditor Chrome TerminalSessions Sstat PartitionContract JobReader WebAuth
    AuditLog OutputTail CoreHours SlurmConfig ValueCache Settings SlurmActions JobResources
    Associations Accounting ClusterSnapshot JobList SlurmRunner
begin

text \<open>
  This development models the browser script of the OpenHPC web portal,
  \<open>internal/web/static/app.js\<close>, and the parts of its Go server that the script talks to.

  \<^bold>\<open>The program.\<close> The server renders pages with dialogs in them and answers a few JSON and text
  requests. The script is one function that installs event listeners; each group of listeners
  owns one or two dialogs and a few variables. The groups share the document: the dialogs, the
  class \<open>modal-open\<close> on the body that locks its scrolling, and the focus.

  \<^bold>\<open>The theories.\<close>
  \<^item> \<open>Prelude\<close>: byte strings with the string operations of JavaScript and Go, decimals, \<open>int64\<close>,
    association lists, and the named collections of rewrite rules.
  \<^item> \<open>Browser\<close>: what a page shares, as an extensible record: dialogs (closed, open, modal), the
    queue of \<open>close\<close> events, the scroll lock, the focus. \<open>showModal\<close> may throw; \<open>close\<close> queues an
    event that is delivered before the next input. The locale \<open>dialog_component\<close> is the contract
    of a component that owns dialogs; every component below interprets it.
  \<^item> \<open>RequestGuard\<close>: the locale \<open>numbered_requests\<close>, the contract of a component that numbers its
    requests and ignores the answers of all but the last; \<open>JobOutput\<close> and \<open>ResourceMonitor\<close>
    interpret it.
  \<^item> \<open>Uri\<close>: addresses of requests, \<open>encodeURIComponent\<close>, and the route the server finds.
  \<^item> \<open>Confirm\<close> (lines 68 to 120), \<open>LazyLog\<close> (134 to 156), \<open>JobOutput\<close> (122 to 240), \<open>Format\<close>
    (262 to 278), \<open>Chart\<close> (280 to 306, 333 to 344), \<open>ResourceMonitor\<close> (242 to 260, 308 to 415),
    \<open>UserDialogs\<close> (14 to 59), \<open>ActionDialogs\<close> (417 to 476), \<open>PartitionEditor\<close> (478 to 567),
    \<open>TerminalPage\<close> (569 to 669), \<open>Chrome\<close> (2 to 12, 61 to 66, 671 to 680): the groups of
    listeners of \<open>app.js\<close>, each a record that extends the page, one definition per handler, an
    event datatype and a step function.
  \<^item> \<open>Sstat\<close>: \<open>internal/slurm/resource_usage.go\<close>, the parser behind the resource monitor.
  \<^item> \<open>TerminalSessions\<close>: the session store and the messages of \<open>internal/web/terminal.go\<close>.
  \<^item> \<open>PartitionStore\<close>: \<open>internal/platform/partitions.go\<close> and the handlers and messages of
    \<open>internal/web/partitions.go\<close>; \<open>PartitionContract\<close>: the map from names to sets of nodes and
    sources that the store promises, and the proof that the tables refine it.
  \<^item> \<open>JobReader\<close>: \<open>internal/web/job_output.go\<close>, the job numbers and the slots that handlers and
    readers share, as a step relation that interleaves them.
  \<^item> \<open>WebAuth\<close>: login, throttle, sessions, the middlewares in front of every route above, logout
    and the status of accounts (\<open>internal/web/app.go\<close>, \<open>internal/platform/users.go\<close>,
    \<open>internal/web/platform_users.go\<close>).
  \<^item> \<open>Utf8\<close>: the encoding of texts that several parts of the server check, cut and repair.
  \<^item> \<open>OutputTail\<close>: the rest of \<open>job_output.go\<close> and \<open>job_output_fsuid_linux.go\<close>: the path, its
    opening without links, the end of the file as text, and the process that reads it as the
    owner of the job.
  \<^item> \<open>JobResources\<close>: \<open>job_resources.go\<close> and the call of \<open>sstat\<close>; it joins \<open>Sstat\<close> on the server with
    \<open>ResourceMonitor\<close> on the page.
  \<^item> \<open>CoreHours\<close>: \<open>internal/slurm/core_hours.go\<close>, sums of CPU time by account and user.
  \<^item> \<open>ValueCache\<close>: \<open>internal/slurm/cache.go\<close>, one cached answer shared by concurrent requests.
  \<^item> \<open>SlurmActions\<close>: the commands that change Slurm (\<open>job_admin.go\<close>, \<open>partition_admin.go\<close>) and the
    handlers that run them (\<open>job_cancel.go\<close>, \<open>setNodeAvailability\<close> of \<open>app.go\<close>,
    \<open>syncStoredPartitions\<close>).
  \<^item> \<open>Float64\<close>: rounding to 53 binary digits, for the one share that the server computes with
    floating-point numbers, and the numbers for which it is exact.
  \<^item> \<open>ClusterSnapshot\<close>: the nodes of \<open>details.go\<close>, the partitions of \<open>partitions.go\<close> and the figures
    of the dashboard (\<open>aggregateMetrics\<close> of \<open>client.go\<close>), all from one answer of \<open>sinfo\<close>.
  \<^item> \<open>JobList\<close>: the jobs of \<open>details.go\<close>, their page and the lookup that the handlers above share.
  \<^item> \<open>Associations\<close> and \<open>Accounting\<close>: \<open>internal/slurm/accounting.go\<close>, records merged into a sorted
    list, the directory that counts them, and the pages and links of \<open>slurmAccounts\<close>.
  \<^item> \<open>SlurmRunner\<close>: \<open>internal/slurm/runner.go\<close> and the running of commands in \<open>client.go\<close>: the
    environment of a process, the bound on its output, and the checks of the executables.
  \<^item> \<open>SlurmConfig\<close>: \<open>internal/slurmconfig/provider.go\<close> and \<open>slurm_config.go\<close>, configuration files
    with their secrets masked.
  \<^item> \<open>Settings\<close>: \<open>internal/platform/settings.go\<close> with \<open>internal/web/settings.go\<close>: the store, its
    encrypted values, the page and its form.
  \<^item> \<open>AuditLog\<close>: \<open>internal/platform/audit.go\<close> and the page that leafs through it.
  \<^item> this theory: the properties that join components.

  \<^bold>\<open>Events and runs.\<close> A run is a list of events. An event that the browser would not let happen
  (a click behind a modal dialog, an answer to a request that is not under way) is skipped by
  the \<open>enabled\<close> predicate of its component, so a property of all lists is a property of all
  behaviours, with answers and timers in any order. The reactions of one promise chain run
  without a user event between them and are one step.

  \<^bold>\<open>What the lemmas show.\<close> Each component has lemmas on what its operations leave alone, an
  invariant with one lemma per event where it has a state, and its properties. C1 and C2 here,
  C3 in \<open>JobResources\<close> and C7 in \<open>JobList\<close> join components; the others stand in the theory of their component.
  On the page: every dialog and the lock of the scrolling agree, answers that come late change
  nothing, and what is shown is what was received. On the server: who may do what, which
  commands are run, that stores keep what was saved, that sums and limits are exact, that
  concurrent requests neither exceed a limit nor wait for ever, and that secrets do not show.
  Several properties prove that the code does something its authors will not have meant (a
  lost submitter, a lost lock, a stale log, a late goodbye, a lost window size, errors that are
  not shown, a redirect to another host, a session nothing can be done with, an invalidation
  that is lost, a partition nobody can delete, a job of \<open>root\<close> that hides all others, file
  names that are refused, secrets later in a line); they are named so in their text.

  \<^bold>\<open>Bounds.\<close> All recursion is structural or has a termination proof, and no fuel is used. Numbers
  of JavaScript are natural numbers and rationals where the code computes with them; the
  logarithm of \<open>formatBytes\<close> is a parameter, with the hypothesis that its quotient rounds down
  correctly. Go's \<open>int64\<close> is an integer, wrapped after every unguarded operation, and its
  \<open>float64\<close> a rational number, rounded after every operation.

  Cryptography, the parsers of durations, addresses, distinguished names and floating-point
  numbers, and what the operating system, Slurm and the browser answer are parameters.

  \<^bold>\<open>Not modelled.\<close> Rounding of the floating-point numbers of the script other than in \<open>toFixed\<close>; the vendored terminal
  emulator, whose calls are events and parameters; the LDAP directory; the decoder of JSON, so
  that the answers of Slurm are records; the deadlines of commands and the limits that
  \<open>New\<close> of \<open>client.go\<close> puts on its configuration; the views of the
  remaining pages; the wiring in \<open>cmd/server\<close>; templates and style sheets, other than the parts
  named above. SQL is abstracted to tables with transactions that commit or leave everything
  as it was.
\<close>

section \<open>The editor and the store of partitions\<close>

lemma stored_nodes_split:
  assumes "table_ok t" and "map_of t name = Some s"
  shows "\<forall>n \<in> set (spec_nodes s). n \<noteq> [] \<and> CHR '' '' \<notin> set n"
  using table_ok_lookup [OF assms] valid_facts by (auto simp: spec_ok_def node_list_ok_def)

lemma upsert_same_nodes:
  assumes t: "table_ok t" "map_of t name = Some s"
    and ns: "distinct ns" "set ns = set (spec_nodes s)"
  shows "upsert name ns (spec_managed s) now db_ok t
    = (if db_ok
       then (Inr \<lparr>change_spec = s, change_created = False, change_updated = False,
                 change_added = [], change_removed = []\<rparr>, t)
       else (Inl DatabaseError, t))"
proof -
  have s: "valid_partition_identifier name" "spec_nodes s \<noteq> []"
      "\<forall>n \<in> set ns. valid_partition_identifier n"
    using table_ok_lookup [OF t] ns(2) by (auto simp: spec_ok_def node_list_ok_def)
  then have "ns \<noteq> []" using ns(2) by auto
  moreover have "normalize_partition_nodes ns = Inr (sort ns)"
    using check_nodes_valid [OF s(3) ns(1), of "[]"] by (simp add: normalize_partition_nodes_def)
  moreover have "diff_partition_nodes (spec_nodes s) (sort ns) = ([], [])"
    using ns(2) by (simp add: diff_partition_nodes_def filter_empty_conv)
  ultimately show ?thesis
    using s(1) load_table [OF t(1), of name] t(2) by (simp add: upsert_def save_found_def)
qed

text \<open>
  C2. Saving a partition as it is. Take any partition managed by the platform in any state of the
  store, a page whose boxes are the nodes of Slurm, among them those of the partition, none of
  them with the name of an inherited property of objects. The page writes the nodes joined
  into an attribute, the click on the edit control splits them again and checks boxes, and the
  form sends the checked ones back: the store stays as it was. The answer is \<open>unchanged\<close> when the
  transaction ends well and Slurm, if it is asked, takes the partition; otherwise it names
  the one of the two that failed.
\<close>

theorem edit_and_save_unchanged:
  assumes "map_of (run_table es []) name = Some s" and "spec_managed s"
    and "calm p" and "\<not> inert p"
    and "map box_value (node_boxes p) = live" and "distinct live"
    and "set (spec_nodes s) \<subseteq> set live"
    and "set live \<inter> set object_prototype_names \<subseteq> set (spec_nodes s)"
    and "q = run_partition [ClickEdit trigger name (join_str comma_space (spec_nodes s))] p"
    and "checked = map box_value (filter box_checked (node_boxes q))"
  shows "save_partition lang (partition_name q) checked (Some live) sync now db_ok (run_table es [])
    = (if \<not> db_ok then error_redirect lang ''save_failed'' name
       else if sync = Some False then error_redirect lang ''sync_failed'' name
       else Redirect [(''saved'', ''unchanged''), (''name'', name)], run_table es [])"
proof -
  have ok: "table_ok (run_table es [])" by (rule table_ok_run [OF table_ok_empty])
  note edit = assms(9) [unfolded edit_partition_task [OF assms(3,4) stored_nodes_split [OF ok assms(1)]]]
  have name: "partition_name q = name" and boxes: "map box_value (node_boxes q) = live"
    unfolding edit using assms(5) by (simp_all add: page_simps)
  have box: "box_checked b \<longleftrightarrow> box_value b \<in> set (spec_nodes s)" if "b \<in> set (node_boxes q)" for b
  proof -
    have "box_value b \<in> set live" using that boxes by (metis image_eqI list.set_map)
    moreover have "box_checked b \<longleftrightarrow> selected_truthy (spec_nodes s) (box_value b)"
      using that unfolding edit by (intro node_boxes_checked) (simp add: page_simps)
    ultimately show ?thesis using assms(8) by (auto simp: selected_truthy_def)
  qed
  have checked: "checked = filter (\<lambda>n. n \<in> set (spec_nodes s)) live"
    unfolding assms(10) boxes [symmetric] filter_map using box by (simp cong: filter_cong)
  have "distinct checked" "set checked = set (spec_nodes s)"
    unfolding checked using assms(6,7) by auto
  note up = upsert_same_nodes [OF ok assms(1) this]
  have "valid_partition_identifier name" "checked \<noteq> []"
    using table_ok_lookup [OF ok assms(1)] \<open>set checked = _\<close> by (auto simp: spec_ok_def)
  then show ?thesis
    using up [of now db_ok] assms(2) valid_trim [of name] valid_facts [of name]
    unfolding name save_partition_def
    by (simp add: Let_def checked list_all_iff)
qed

lemma edit_and_save_unchanged_witness:
  "save_partition ''en'' ''gpu''
     (map box_value (filter box_checked (node_boxes
        (run_partition [ClickEdit (Node 1) ''gpu'' (join_str comma_space [''n1''])]
           (example_partition_page
              \<lparr>node_boxes := [\<lparr>box_value = ''n1'', box_default = False, box_checked = False\<rparr>,
                             \<lparr>box_value = ''n2'', box_default = False, box_checked = False\<rparr>]\<rparr>)))))
     (Some [''n1'', ''n2'']) None 9 True (run_table [Upsert ''gpu'' [''n1''] 5 True] [])
   = (Redirect [(''saved'', ''unchanged''), (''name'', ''gpu'')],
      run_table [Upsert ''gpu'' [''n1''] 5 True] [])"
proof -
  let ?p = "example_partition_page
      \<lparr>node_boxes := [\<lparr>box_value = ''n1'', box_default = False, box_checked = False\<rparr>,
                     \<lparr>box_value = ''n2'', box_default = False, box_checked = False\<rparr>]\<rparr>"
  have s: "map_of (run_table [Upsert ''gpu'' [''n1''] 5 True] []) ''gpu''
      = Some \<lparr>spec_nodes = [''n1''], spec_managed = True, spec_created = 5, spec_updated = 5\<rparr>"
    by code_simp
  have p: "calm ?p" "\<not> inert ?p"
    using example_partition_calm by (simp_all add: calm_def inert_def)
  have name: "partition_name (run_partition [ClickEdit (Node 1) ''gpu'' (join_str comma_space [''n1''])] ?p)
      = ''gpu''"
    using edit_partition_task [OF p, of "[''n1'']" "Node 1" "''gpu''"] by (simp add: page_simps)
  show ?thesis
    using edit_and_save_unchanged [OF s _ p _ _ _ _ refl refl, where live = "[''n1'', ''n2'']" and lang = "''en''"
        and sync = None and now = 9 and db_ok = True and trigger = "Node 1"]
    unfolding partition_spec.simps name by (simp add: object_prototype_names_def del: run_table.simps)
qed

section \<open>The scroll lock\<close>

text \<open>
  C1. The lock of the scrolling. In every component that owns dialogs, after every run of user
  actions from a calm page, the body has the class \<open>modal-open\<close> exactly while one of the
  dialogs is modal: no sequence of opening, closing, submitting, answering and dismissing
  leaves the page locked without a dialog, or a dialog over a page that scrolls.
\<close>

theorem scroll_lock_iff_dialog:
  fixes cp :: confirm_page and jp :: job_page and rp :: resource_page and up :: user_page
    and ap :: cancel_page and np :: node_page and pp :: partition_page
  assumes "calm cp" "calm jp" "calm rp" "calm up" "calm ap" "calm np" "calm pp"
  shows "modal_open (run_confirm ces cp) = inert (run_confirm ces cp)
    \<and> modal_open (run_job jes jp) = inert (run_job jes jp)
    \<and> modal_open (run_resource env res rp) = inert (run_resource env res rp)
    \<and> modal_open (run_user ues up) = inert (run_user ues up)
    \<and> modal_open (run_cancel aes ap) = inert (run_cancel aes ap)
    \<and> modal_open (run_node nes np) = inert (run_node nes np)
    \<and> modal_open (run_partition pes pp) = inert (run_partition pes pp)"
  using confirmation.lock_iff_open [OF assms(1)] job_dialog.lock_iff_open [OF assms(2)]
    resource_dialog.lock_iff_open [OF assms(3)] user_dialogs.lock_iff_open [OF assms(4)]
    cancel_dialog.lock_iff_open [OF assms(5)] node_dialog.lock_iff_open [OF assms(6)]
    partition_dialog.lock_iff_open [OF assms(7)]
  by blast

lemma scroll_lock_iff_dialog_witness:
  "modal_open (run_job [OpenDetail (Node 1) ''job-1''] example_job_page)
     = inert (run_job [OpenDetail (Node 1) ''job-1''] example_job_page)
 \<and> modal_open (run_partition [ClickDelete (Node 1) ''gpu''] example_partition_page)
     = inert (run_partition [ClickDelete (Node 1) ''gpu''] example_partition_page)"
proof -
  have "calm example_page" "calm example_job_page" "calm example_resource_page"
    "calm (example_user_page\<lparr>dialogs := \<lambda>_. Closed\<rparr>)" "calm example_cancel_page"
    "calm example_node_page"
    by (simp_all add: calm_def inert_def page.extend_def blank_page_def example_page_def
        confirm_page.fields_def example_job_page_def job_page.fields_def
        example_resource_page_def resource_page.fields_def example_user_page_def
        user_page.fields_def example_cancel_page_def cancel_page.fields_def
        example_node_page_def node_page.fields_def)
  from scroll_lock_iff_dialog [OF this example_partition_calm(1)] show ?thesis by blast
qed

end
